(* ===== verification/Prelude.thy ===== *)
theory Prelude
  imports Main "HOL-Library.Word"
begin

text \<open>
  Shared vocabulary of the development: the machine integers of the C code, the ways a run
  of the program can stop (\<open>halt\<close>), objects in memory as lists with checked reads and
  writes, C strings inside such objects, and the combinators that sequence fallible
  (\<open>ebind\<close>) and stateful (\<open>bnd\<close>) code.
\<close>

unbundle bit_operations_syntax

section \<open>Machine integers\<close>

type_synonym u8 = "8 word"
type_synonym u32 = "32 word"      \<comment> \<open>unsigned int, uint32_t\<close>
type_synonym wchar = "32 word"    \<comment> \<open>wchar_t\<close>
type_synonym size_t = "64 word"   \<comment> \<open>size_t, unsigned long\<close>

lemma unat_u32_less: "unat (m :: u32) < 4294967296"
proof -
  have "unat m < 2 ^ LENGTH(32)" by (rule unsigned_less)
  then show ?thesis by simp
qed

lemma unat_u8_less: "unat (m :: u8) < 256"
proof -
  have "unat m < 2 ^ LENGTH(8)" by (rule unsigned_less)
  then show ?thesis by simp
qed

lemma unat_ucast_size_t [simp]: "unat (ucast (m :: u32) :: size_t) = unat m"
  using unat_u32_less [of m] by (simp add: unsigned_ucast_eq take_bit_nat_eq_self)

section \<open>How a run stops\<close>

text \<open>
  \<open>errx\<close> and \<open>err\<close> print a message and exit with status 1, so they carry the format
  string and its arguments. \<open>Exit\<close> is a plain call of \<open>exit\<close>. \<open>Undefined\<close> marks the
  points where the C code reads or writes outside an object, uses a null pointer or
  divides by zero. \<open>Forever\<close> stands for a run that never ends, where a partial function of the
  model becomes an action. \<open>Killed\<close> is the end of a process that gets \<open>SIGKILL\<close>, or whose machine
  stops: nothing more of it runs, no handler either.
\<close>

datatype arg = ArgS string | ArgD int

datatype halt =
    Errx string "arg list"
  | Err string "arg list"
  | Exit int
  | Undefined string
  | Forever
  | Killed

definition exit_failure :: int where "exit_failure = 1"
definition exit_success :: int where "exit_success = 0"

named_theorems ebind_simps \<open>equations of the sequencing combinators\<close>

definition ebind :: "halt + 'a \<Rightarrow> ('a \<Rightarrow> halt + 'b) \<Rightarrow> halt + 'b" where
  "ebind m f = (case m of Inl e \<Rightarrow> Inl e | Inr x \<Rightarrow> f x)"

lemma ebind_Inl [simp, ebind_simps]: "ebind (Inl e) f = Inl e"
  by (simp add: ebind_def)

lemma ebind_Inr [simp, ebind_simps]: "ebind (Inr x) f = f x"
  by (simp add: ebind_def)

lemma ebind_eq_Inr_iff: "ebind m f = Inr y \<longleftrightarrow> (\<exists>x. m = Inr x \<and> f x = Inr y)"
  by (cases m) auto

lemma ebind_eq_Inl_iff: "ebind m f = Inl e \<longleftrightarrow> m = Inl e \<or> (\<exists>x. m = Inr x \<and> f x = Inl e)"
  by (cases m) auto

lemma ebind_cong [fundef_cong]:
  "m = m' \<Longrightarrow> (\<And>x. m' = Inr x \<Longrightarrow> f x = g x) \<Longrightarrow> ebind m f = ebind m' g"
  by (cases m') auto

lemma ebind_assoc: "ebind (ebind m f) g = ebind m (\<lambda>x. ebind (f x) g)"
  by (cases m) auto

text \<open>Code that never reaches undefined behaviour and returns, whether it ends with an error or not.\<close>

definition safe :: "halt + 'a \<Rightarrow> bool" where
  "safe m \<longleftrightarrow> (\<forall>u. m \<noteq> Inl (Undefined u)) \<and> m \<noteq> Inl Forever"

named_theorems safe_intros \<open>absence of undefined behaviour\<close>

lemma safe_simps [simp]:
  "safe (Inr x)" "safe (Inl (Errx f as))" "safe (Inl (Err f as))" "safe (Inl (Exit n))"
  "\<not> safe (Inl Forever)" "\<not> safe (Inl (Undefined u))"
  by (simp_all add: safe_def)

lemma safe_ebind [safe_intros]:
  "safe m \<Longrightarrow> (\<And>x. m = Inr x \<Longrightarrow> safe (f x)) \<Longrightarrow> safe (ebind m f)"
  by (cases m) (auto simp: safe_def)

lemma safe_if [safe_intros]:
  "(c \<Longrightarrow> safe a) \<Longrightarrow> (\<not> c \<Longrightarrow> safe b) \<Longrightarrow> safe (if c then a else b)"
  by simp

lemma safe_case_option [safe_intros]:
  "(x = None \<Longrightarrow> safe a) \<Longrightarrow> (\<And>y. x = Some y \<Longrightarrow> safe (f y)) \<Longrightarrow> safe (case x of None \<Rightarrow> a | Some y \<Rightarrow> f y)"
  by (cases x) simp_all

lemma safe_case_prod [safe_intros]:
  "(\<And>a b. x = (a, b) \<Longrightarrow> safe (f a b)) \<Longrightarrow> safe (case x of (a, b) \<Rightarrow> f a b)"
  by (cases x) simp

text \<open>The same for code that may also never return (\<open>None\<close>).\<close>

definition tbind :: "(halt + 'a) option \<Rightarrow> ('a \<Rightarrow> (halt + 'b) option) \<Rightarrow> (halt + 'b) option" where
  "tbind m f = (case m of None \<Rightarrow> None | Some (Inl e) \<Rightarrow> Some (Inl e) | Some (Inr x) \<Rightarrow> f x)"

lemma tbind_simps [simp, ebind_simps]:
  "tbind None f = None" "tbind (Some (Inl e)) f = Some (Inl e)" "tbind (Some (Inr x)) f = f x"
  by (simp_all add: tbind_def)

lemma tbind_eq_Inr_iff:
  "tbind m f = Some (Inr y) \<longleftrightarrow> (\<exists>x. m = Some (Inr x) \<and> f x = Some (Inr y))"
  by (auto simp: tbind_def split: option.splits sum.splits)

text \<open>The fold of a fallible body over a list, from the left.\<close>

fun efold :: "('a \<Rightarrow> 'b \<Rightarrow> halt + 'b) \<Rightarrow> 'a list \<Rightarrow> 'b \<Rightarrow> halt + 'b" where
  "efold body [] acc = Inr acc"
| "efold body (x # xs) acc = ebind (body x acc) (\<lambda>acc. efold body xs acc)"

lemma efold_pure: "efold (\<lambda>x acc. Inr (f x acc)) xs acc = Inr (fold f xs acc)"
  by (induction xs arbitrary: acc) auto

section \<open>Signed arithmetic\<close>

text \<open>The increment of an \<open>int\<close>, which is undefined at the largest one.\<close>

definition int_succ :: "string \<Rightarrow> int \<Rightarrow> halt + int" where
  "int_succ what n = (if n < 2147483647 then Inr (n + 1) else Inl (Undefined what))"

lemma int_succ_ok [simp]: "n < 2147483647 \<Longrightarrow> int_succ what n = Inr (n + 1)"
  by (simp add: int_succ_def)

text \<open>A pointer that a message prints as a string must not be null.\<close>

definition printed :: "string option \<Rightarrow> (string \<Rightarrow> halt) \<Rightarrow> halt" where
  "printed p h = (case p of None \<Rightarrow> Undefined ''null pointer for %s'' | Some s \<Rightarrow> h s)"

lemma printed_Some [simp]: "printed (Some s) h = h s"
  by (simp add: printed_def)

section \<open>Stateful code\<close>

text \<open>
  A stateful C function returns its value or stops the program, and in both cases leaves a
  state behind: the handlers registered with \<open>atexit\<close> run in the state of the \<open>exit\<close>.
\<close>

type_synonym ('s, 'a) act = "'s \<Rightarrow> (halt + 'a) \<times> 's"

definition ret :: "'a \<Rightarrow> ('s, 'a) act" where
  "ret x = (\<lambda>s. (Inr x, s))"

definition stop :: "halt \<Rightarrow> ('s, 'a) act" where
  "stop e = (\<lambda>s. (Inl e, s))"

definition bnd :: "('s, 'a) act \<Rightarrow> ('a \<Rightarrow> ('s, 'b) act) \<Rightarrow> ('s, 'b) act" where
  "bnd m f = (\<lambda>s. case m s of (Inl e, s') \<Rightarrow> (Inl e, s') | (Inr x, s') \<Rightarrow> f x s')"

definition gets :: "('s \<Rightarrow> 'a) \<Rightarrow> ('s, 'a) act" where
  "gets f = (\<lambda>s. (Inr (f s), s))"

definition modify :: "('s \<Rightarrow> 's) \<Rightarrow> ('s, unit) act" where
  "modify f = (\<lambda>s. (Inr (), f s))"

definition lift :: "halt + 'a \<Rightarrow> ('s, 'a) act" where
  "lift r = (\<lambda>s. (r, s))"

lemma act_ret [ebind_simps]: "ret x s = (Inr x, s)"
  by (simp add: ret_def)

lemma act_stop [ebind_simps]: "stop e s = (Inl e, s)"
  by (simp add: stop_def)

lemma act_gets [ebind_simps]: "gets f s = (Inr (f s), s)"
  by (simp add: gets_def)

lemma act_modify [ebind_simps]: "modify f s = (Inr (), f s)"
  by (simp add: modify_def)

lemma act_lift [ebind_simps]: "lift r s = (r, s)"
  by (simp add: lift_def)

lemma act_bnd [ebind_simps]:
  "bnd m f s = (case m s of (Inl e, s') \<Rightarrow> (Inl e, s') | (Inr x, s') \<Rightarrow> f x s')"
  by (simp add: bnd_def)

lemma bnd_InrE:
  assumes "bnd m f s = (Inr y, s'')"
  obtains x s' where "m s = (Inr x, s')" and "f x s' = (Inr y, s'')"
  using assms by (auto simp: bnd_def split: prod.splits sum.splits)

section \<open>Objects and C strings\<close>

text \<open>An array object is the list of its elements; access outside it is undefined.\<close>

definition rd :: "'c list \<Rightarrow> nat \<Rightarrow> halt + 'c" where
  "rd b i = (if i < length b then Inr (b ! i) else Inl (Undefined ''read outside an object''))"

definition wr :: "'c list \<Rightarrow> nat \<Rightarrow> 'c \<Rightarrow> halt + 'c list" where
  "wr b i c = (if i < length b then Inr (b[i := c])
     else Inl (Undefined ''write outside an object''))"

text \<open>The same with a message of its own, for the places where the program does write outside.\<close>

definition wr_at :: "string \<Rightarrow> 'c list \<Rightarrow> nat \<Rightarrow> 'c \<Rightarrow> halt + 'c list" where
  "wr_at what b i c = (if i < length b then Inr (b[i := c]) else Inl (Undefined what))"

lemma rd_ok [simp]: "i < length b \<Longrightarrow> rd b i = Inr (b ! i)"
  by (simp add: rd_def)

lemma wr_ok [simp]: "i < length b \<Longrightarrow> wr b i c = Inr (b[i := c])"
  by (simp add: wr_def)

lemma wr_at_ok [simp]: "i < length b \<Longrightarrow> wr_at what b i c = Inr (b[i := c])"
  by (simp add: wr_at_def)

abbreviation NUL :: char where "NUL \<equiv> CHR 0x00"

text \<open>The C string held by an object: its elements up to the first terminator.\<close>

definition cstr :: "'c \<Rightarrow> 'c list \<Rightarrow> 'c list" where
  "cstr nul b = takeWhile (\<lambda>c. c \<noteq> nul) b"

abbreviation strlen :: "'c \<Rightarrow> 'c list \<Rightarrow> nat" where
  "strlen nul b \<equiv> length (cstr nul b)"

lemma cstr_no_nul [simp]: "nul \<notin> set (cstr nul b)"
  by (auto simp: cstr_def dest: set_takeWhileD)

lemma cstr_append_nul [simp]: "nul \<notin> set xs \<Longrightarrow> cstr nul (xs @ nul # ys) = xs"
  unfolding cstr_def by (subst takeWhile_append2) auto

lemma cstr_id [simp]: "nul \<notin> set xs \<Longrightarrow> cstr nul xs = xs"
  unfolding cstr_def takeWhile_eq_all_conv by blast

lemma cstr_decomp:
  assumes "nul \<in> set b"
  obtains ys where "b = cstr nul b @ nul # ys"
proof -
  from split_list_first [OF assms] obtain xs ys where b: "b = xs @ nul # ys" "nul \<notin> set xs"
    by blast
  then have "cstr nul b = xs" by simp
  with b(1) that [of ys] show thesis by simp
qed

lemma strlen_less: "nul \<in> set b \<Longrightarrow> strlen nul b < length b"
  by (erule cstr_decomp) (metis add_less_cancel_left add.right_neutral length_append length_greater_0_conv list.distinct(1))

lemma nth_strlen: "nul \<in> set b \<Longrightarrow> b ! strlen nul b = nul"
  by (erule cstr_decomp) (metis nth_append_length)

text \<open>Using an object as a string reads up to the terminator, which must be there.\<close>

definition getstr :: "'c \<Rightarrow> 'c list \<Rightarrow> halt + 'c list" where
  "getstr nul b = (if nul \<in> set b then Inr (cstr nul b)
     else Inl (Undefined ''string without a terminator''))"

lemma getstr_ok [simp]: "nul \<in> set b \<Longrightarrow> getstr nul b = Inr (cstr nul b)"
  by (simp add: getstr_def)

definition getstr_at :: "string \<Rightarrow> 'c \<Rightarrow> 'c list \<Rightarrow> halt + 'c list" where
  "getstr_at what nul b = (if nul \<in> set b then Inr (cstr nul b) else Inl (Undefined what))"

lemma getstr_at_ok [simp]: "nul \<in> set b \<Longrightarrow> getstr_at what nul b = Inr (cstr nul b)"
  by (simp add: getstr_at_def)

section \<open>Lists\<close>

lemma take_Suc_snoc: "i < length xs \<Longrightarrow> take i xs @ [xs ! i] = take (Suc i) xs"
  by (simp add: take_Suc_conv_app_nth)

definition strip_right :: "('c \<Rightarrow> bool) \<Rightarrow> 'c list \<Rightarrow> 'c list" where
  "strip_right p xs = rev (dropWhile p (rev xs))"

lemma strip_right_Nil [simp]: "strip_right p [] = []"
  by (simp add: strip_right_def)

lemma strip_right_snoc [simp]:
  "strip_right p (xs @ [x]) = (if p x then strip_right p xs else xs @ [x])"
  by (simp add: strip_right_def)

lemma strip_right_idem [simp]: "strip_right p (strip_right p xs) = strip_right p xs"
  by (induction xs rule: rev_induct) auto

lemma strip_right_last: "strip_right p xs \<noteq> [] \<Longrightarrow> \<not> p (last (strip_right p xs))"
  by (induction xs rule: rev_induct) auto

lemma strip_right_set: "set (strip_right p xs) \<subseteq> set xs"
  by (induction xs rule: rev_induct) auto

lemma strip_right_id: "xs = [] \<or> \<not> p (last xs) \<Longrightarrow> strip_right p xs = xs"
  by (cases xs rule: rev_cases) auto

lemma strip_right_decomp: "\<exists>ys. xs = strip_right p xs @ ys \<and> (\<forall>y\<in>set ys. p y)"
proof (induction xs rule: rev_induct)
  case (snoc x xs)
  then obtain ys where "xs = strip_right p xs @ ys" "\<forall>y\<in>set ys. p y" by blast
  then show ?case by (cases "p x") (auto intro!: exI [of _ "ys @ [x]"])
qed simp

end
