(* ===== verification/CString.thy ===== *)
theory CString
  imports Prelude
begin

text \<open>
  The bounded copy routines of \<open>strlcpy.c\<close>, \<open>strlcat.c\<close> and \<open>wcslcpy.c\<close> and the duplication
  routine of \<open>wcsdup.c\<close>, on objects in memory. The destination is the list of the elements
  of the destination object and \<open>d\<close> an index into it; a source pointer is the rest of the
  source object that it points to, so that the empty list is the address past its end.
  \<open>strlcpy\<close> and \<open>wcslcpy\<close> are the same text for two element types: both are instances of
  one routine whose terminator is a parameter.
\<close>

section \<open>Reading through a source pointer\<close>

fun deref :: "'c list \<Rightarrow> halt + 'c" where
  "deref [] = Inl (Undefined ''read outside an object'')"
| "deref (c # s) = Inr c"

text \<open>\<open>while (*s++) ;\<close> returns the number of elements stepped over, the terminator included.\<close>

fun skip_nul :: "'c \<Rightarrow> 'c list \<Rightarrow> halt + nat" where
  "skip_nul nul [] = Inl (Undefined ''read outside an object'')"
| "skip_nul nul (c # s) = (if c = nul then Inr 1 else ebind (skip_nul nul s) (\<lambda>k. Inr (Suc k)))"

lemma skip_nul_ok: "nul \<in> set s \<Longrightarrow> skip_nul nul s = Inr (Suc (strlen nul s))"
  by (induction s) (auto simp: cstr_def)

section \<open>strlcpy and wcslcpy\<close>

text \<open>
  The \<open>do ... while (--n != 0)\<close> loop: it is entered with \<open>n > 0\<close>, copies one element,
  leaves with \<open>n\<close> unchanged after the terminator and with \<open>n = 0\<close> when the room is used up.
  The result is the destination, the final \<open>d\<close>, the elements read and \<open>n\<close>.
\<close>

fun lcpy_loop :: "'c \<Rightarrow> 'c list \<Rightarrow> nat \<Rightarrow> 'c list \<Rightarrow> nat \<Rightarrow> nat \<Rightarrow>
    halt + 'c list \<times> nat \<times> 'c list \<times> nat \<times> nat" where
  "lcpy_loop nul dst d s k 0 = Inr (dst, d, s, k, 0)"
| "lcpy_loop nul dst d s k (Suc n) =
    ebind (deref s) (\<lambda>c.
    ebind (wr dst d c) (\<lambda>dst'.
      if c = nul then Inr (dst', Suc d, tl s, Suc k, Suc n)
      else if n = 0 then Inr (dst', Suc d, tl s, Suc k, 0)
      else lcpy_loop nul dst' (Suc d) (tl s) (Suc k) n))"

definition lcpy :: "'c \<Rightarrow> 'c list \<Rightarrow> 'c list \<Rightarrow> nat \<Rightarrow> halt + 'c list \<times> nat" where
  "lcpy nul dst src siz =
    ebind (if siz \<noteq> 0 \<and> siz - 1 \<noteq> 0 then lcpy_loop nul dst 0 src 0 (siz - 1)
           else Inr (dst, 0, src, 0, siz - 1)) (\<lambda>(dst, d, s, k, n).
    ebind (if n = 0 then
             ebind (if siz \<noteq> 0 then wr dst d nul else Inr dst) (\<lambda>dst.
             ebind (skip_nul nul s) (\<lambda>j. Inr (dst, k + j)))
           else Inr (dst, k)) (\<lambda>(dst, k).
    Inr (dst, k - 1)))"

definition strlcpy :: "string \<Rightarrow> string \<Rightarrow> nat \<Rightarrow> halt + string \<times> nat" where
  "strlcpy dst src siz = lcpy NUL dst src siz"

definition wcslcpy :: "wchar list \<Rightarrow> wchar list \<Rightarrow> nat \<Rightarrow> halt + wchar list \<times> nat" where
  "wcslcpy dst src siz = lcpy 0 dst src siz"

lemma cstr_Cons: "cstr nul (c # s) = (if c = nul then [] else c # cstr nul s)"
  by (simp add: cstr_def)

lemma cstr_Nil [simp]: "cstr nul [] = []"
  by (simp add: cstr_def)

text \<open>
  What the copy loop leaves behind: either the whole source string and its terminator fit
  (\<open>n > 0\<close> on exit), or exactly \<open>n\<close> elements were copied.
\<close>

lemma lcpy_loop_spec:
  assumes "nul \<in> set s" "d + n \<le> length dst" "0 < n"
  shows "lcpy_loop nul dst d s k n =
    (if strlen nul s < n
     then Inr (take d dst @ cstr nul s @ nul # drop (Suc (d + strlen nul s)) dst,
               Suc (d + strlen nul s), drop (Suc (strlen nul s)) s, k + Suc (strlen nul s),
               n - strlen nul s)
     else Inr (take d dst @ take n (cstr nul s) @ drop (d + n) dst,
               d + n, drop n s, k + n, 0))"
  using assms
proof (induction n arbitrary: dst d s k)
  case 0
  then show ?case by simp
next
  case (Suc n)
  from Suc.prems(1) obtain c s' where s: "s = c # s'" by (cases s) auto
  have d: "d < length dst" using Suc.prems(2) by simp
  have upd: "dst[d := c] = take d dst @ c # drop (Suc d) dst"
    using d by (rule upd_conv_take_nth_drop)
  show ?case
  proof (cases "c = nul")
    case True
    then show ?thesis using s d upd by (simp add: cstr_Cons)
  next
    case nn: False
    show ?thesis
    proof (cases "n = 0")
      case True
      then show ?thesis using s d upd nn by (simp add: cstr_Cons)
    next
      case False
      have IH: "lcpy_loop nul (dst[d := c]) (Suc d) s' (Suc k) n =
        (if strlen nul s' < n
         then Inr (take (Suc d) (dst[d := c]) @ cstr nul s' @ nul # drop (Suc (Suc d + strlen nul s')) (dst[d := c]),
               Suc (Suc d + strlen nul s'), drop (Suc (strlen nul s')) s', Suc k + Suc (strlen nul s'),
               n - strlen nul s')
         else Inr (take (Suc d) (dst[d := c]) @ take n (cstr nul s') @ drop (Suc d + n) (dst[d := c]),
               Suc d + n, drop n s', Suc k + n, 0))"
        using Suc.prems s nn False by (intro Suc.IH) auto
      have tk: "take (Suc d) (dst[d := c]) = take d dst @ [c]"
        using d by (simp add: take_Suc_conv_app_nth)
      show ?thesis using s d nn False by (simp add: IH tk cstr_Cons)
    qed
  qed
qed

theorem lcpy_spec:
  assumes "nul \<in> set src" "siz \<le> length dst"
  shows "lcpy nul dst src siz =
    Inr (if siz = 0 then dst
         else if strlen nul src < siz
         then cstr nul src @ nul # drop (Suc (strlen nul src)) dst
         else take (siz - 1) (cstr nul src) @ nul # drop siz dst,
         strlen nul src)"
proof -
  consider "siz = 0" | "siz = 1" | n where "siz = Suc n" "0 < n"
    by (cases siz) auto
  then show ?thesis
  proof cases
    case 1
    then show ?thesis using assms by (simp add: lcpy_def skip_nul_ok)
  next
    case 2
    then obtain a as where "dst = a # as" using assms by (cases dst) auto
    then show ?thesis using assms 2 by (auto simp: lcpy_def skip_nul_ok)
  next
    case (3 n)
    have sp: "lcpy_loop nul dst 0 src 0 n = (if strlen nul src < n
     then Inr (cstr nul src @ nul # drop (Suc (strlen nul src)) dst,
               Suc (strlen nul src), drop (Suc (strlen nul src)) src, Suc (strlen nul src),
               n - strlen nul src)
     else Inr (take n (cstr nul src) @ drop n dst, n, drop n src, n, 0))"
      using lcpy_loop_spec [of nul src 0 n dst 0] assms 3 by simp
    show ?thesis
    proof (cases "strlen nul src < n")
      case True
      then show ?thesis using sp 3 by (simp add: lcpy_def)
    next
      case False
      from assms(1) obtain ys where src: "src = cstr nul src @ nul # ys" by (rule cstr_decomp)
      have "drop n src = drop n (cstr nul src) @ nul # ys"
        using False by (subst src) (simp add: not_less)
      moreover have "nul \<notin> set (drop n (cstr nul src))"
        by (meson cstr_no_nul in_set_dropD)
      ultimately have sk: "skip_nul nul (drop n src) = Inr (Suc (strlen nul src - n))"
        by (subst skip_nul_ok) auto
      have dn: "n < length dst" using assms 3 by simp
      have "(take n (cstr nul src) @ drop n dst)[n := nul]
          = take n (cstr nul src) @ nul # drop (Suc n) dst"
        using False dn by (simp add: list_update_append not_less min_def Cons_nth_drop_Suc [symmetric])
      then show ?thesis using False sp 3 sk dn
        by (auto simp: lcpy_def not_less min_def less_Suc_eq_le dest: le_antisym)
    qed
  qed
qed

corollary lcpy_cstr:
  assumes "nul \<in> set src" "siz \<le> length dst" "0 < siz"
  shows "\<exists>dst'. lcpy nul dst src siz = Inr (dst', strlen nul src)
    \<and> cstr nul dst' = take (siz - 1) (cstr nul src) \<and> length dst' = length dst"
proof -
  have "nul \<notin> set (take (siz - 1) (cstr nul src))"
    by (meson cstr_no_nul in_set_takeD)
  then show ?thesis using assms by (auto simp: lcpy_spec min_def)
qed

section \<open>strlcat\<close>

text \<open>\<open>while (n-- != 0 && *d != '\0') d++;\<close> returns how far \<open>d\<close> moved.\<close>

fun find_end :: "'c \<Rightarrow> 'c list \<Rightarrow> nat \<Rightarrow> halt + nat" where
  "find_end nul b 0 = Inr 0"
| "find_end nul b (Suc n) =
    ebind (deref b) (\<lambda>c.
      if c = nul then Inr 0 else ebind (find_end nul (tl b) n) (\<lambda>k. Inr (Suc k)))"

text \<open>
  The append loop reads the source to its end and writes while more than one element is
  left; it returns the destination, the final \<open>d\<close> and \<open>s - src\<close>.
\<close>

fun cat_loop :: "'c \<Rightarrow> 'c list \<Rightarrow> nat \<Rightarrow> 'c list \<Rightarrow> nat \<Rightarrow> nat \<Rightarrow> halt + 'c list \<times> nat \<times> nat" where
  "cat_loop nul dst d [] k n = Inl (Undefined ''read outside an object'')"
| "cat_loop nul dst d (c # s) k n =
    (if c = nul then Inr (dst, d, k)
     else if n \<noteq> 1 then
       ebind (wr dst d c) (\<lambda>dst. cat_loop nul dst (Suc d) s (Suc k) (n - 1))
     else cat_loop nul dst d s (Suc k) n)"

definition strlcat :: "string \<Rightarrow> string \<Rightarrow> nat \<Rightarrow> halt + string \<times> nat" where
  "strlcat dst src siz =
    ebind (find_end NUL dst siz) (\<lambda>dlen.
    let n = siz - dlen in
    if n = 0 then
      ebind (skip_nul NUL src) (\<lambda>k. Inr (dst, dlen + (k - 1)))
    else
      ebind (cat_loop NUL dst dlen src 0 n) (\<lambda>(dst, d, k).
      ebind (wr dst d NUL) (\<lambda>dst.
      Inr (dst, dlen + k))))"

lemma find_end_spec:
  "n \<le> length b \<Longrightarrow> find_end nul b n = Inr (min n (strlen nul b))"
proof (induction nul b n rule: find_end.induct)
  case (2 nul b n)
  then show ?case by (cases b) (auto simp: cstr_Cons)
qed simp

lemma cat_loop_spec:
  assumes "nul \<in> set s" "0 < n" "d + n \<le> length dst"
  shows "cat_loop nul dst d s k n =
    Inr (take d dst @ take (n - 1) (cstr nul s) @ drop (d + min (n - 1) (strlen nul s)) dst,
         d + min (n - 1) (strlen nul s), k + strlen nul s)"
  using assms
proof (induction nul dst d s k n rule: cat_loop.induct)
  case (1 nul dst d k n)
  then show ?case by simp
next
  case (2 nul dst d c s k n)
  show ?case
  proof (cases "c = nul \<or> n = 1")
    case True
    then show ?thesis using 2 by (auto simp: cstr_Cons)
  next
    case False
    then obtain m where n: "n = Suc m" "0 < m" using "2.prems" by (cases n) auto
    have d: "d < length dst" using 2 by simp
    have "take (Suc d) (dst[d := c]) = take d dst @ [c]"
      using d by (simp add: take_Suc_conv_app_nth)
    moreover have "drop (Suc d + min (m - 1) (strlen nul s)) (dst[d := c])
        = drop (Suc d + min (m - 1) (strlen nul s)) dst"
      by simp
    moreover have "min m (Suc (strlen nul s)) = Suc (min (m - 1) (strlen nul s))"
      using n by (cases m) auto
    moreover have "take m (c # cstr nul s) = c # take (m - 1) (cstr nul s)"
      using n by (cases m) auto
    ultimately show ?thesis using False 2 n d by (simp add: cstr_Cons del: drop_drop drop_update_cancel)
  qed
qed

text \<open>
  Appending: what fits of the source follows the destination's string and is terminated;
  the returned value is the length that the whole result would have had.
\<close>

theorem strlcat_spec:
  assumes "NUL \<in> set src" "siz \<le> length dst"
  shows "strlcat dst src siz =
    (if strlen NUL dst < siz
     then Inr (let a = take (siz - strlen NUL dst - 1) (cstr NUL src) in
                 cstr NUL dst @ a @ NUL # drop (Suc (strlen NUL dst + length a)) dst,
               strlen NUL dst + strlen NUL src)
     else Inr (dst, siz + strlen NUL src))"
proof (cases "strlen NUL dst < siz")
  case False
  then show ?thesis using assms
    by (simp add: strlcat_def find_end_spec skip_nul_ok not_less min_def)
next
  case True
  define l where "l = strlen NUL dst"
  define m where "m = min (siz - l - 1) (strlen NUL src)"
  have l: "l < siz" "l + (siz - l) \<le> length dst" using True assms by (simp_all add: l_def)
  have tk: "take l dst = cstr NUL dst"
    by (simp add: l_def cstr_def takeWhile_eq_take [symmetric])
  have lm: "l + m < length dst" using l by (simp add: m_def)
  have len: "length (cstr NUL dst) + length (take (siz - l - 1) (cstr NUL src)) = l + m"
    by (simp add: m_def l_def min.commute)
  have "(cstr NUL dst @ take (siz - l - 1) (cstr NUL src) @ drop (l + m) dst)[l + m := NUL]
      = cstr NUL dst @ take (siz - l - 1) (cstr NUL src) @ (drop (l + m) dst)[0 := NUL]"
    using len by (metis (no_types) append_assoc diff_self_eq_0 length_append less_irrefl list_update_append)
  also have "(drop (l + m) dst)[0 := NUL] = NUL # drop (Suc (l + m)) dst"
    using lm by (simp flip: Cons_nth_drop_Suc)
  finally have upd: "(cstr NUL dst @ take (siz - l - 1) (cstr NUL src) @ drop (l + m) dst)[l + m := NUL]
      = cstr NUL dst @ take (siz - l - 1) (cstr NUL src) @ NUL # drop (Suc (l + m)) dst" .
  have "find_end NUL dst siz = Inr l" using True assms by (simp add: find_end_spec l_def)
  moreover have "cat_loop NUL dst l src 0 (siz - l) =
     Inr (cstr NUL dst @ take (siz - l - 1) (cstr NUL src) @ drop (l + m) dst, l + m, strlen NUL src)"
    using cat_loop_spec [of NUL src "siz - l" l dst 0] assms l tk by (simp add: m_def)
  moreover have "l + m < length (cstr NUL dst @ take (siz - l - 1) (cstr NUL src) @ drop (l + m) dst)"
    using lm len by simp
  ultimately show ?thesis using True l upd len
    by (simp add: strlcat_def Let_def flip: l_def)
qed

corollary strlcat_fits:
  assumes "NUL \<in> set src" "siz \<le> length dst" "strlen NUL dst + strlen NUL src < siz"
  shows "\<exists>dst'. strlcat dst src siz = Inr (dst', strlen NUL dst + strlen NUL src)
    \<and> cstr NUL dst' = cstr NUL dst @ cstr NUL src \<and> length dst' = length dst"
proof -
  have nn: "NUL \<notin> set (cstr NUL dst @ cstr NUL src)" by simp
  show ?thesis using assms
    by (auto simp: strlcat_spec Let_def cstr_append_nul [OF nn, simplified])
qed

section \<open>The contract of the two copies\<close>

text \<open>\<open>strlcpy\<close> followed by \<open>strlcat\<close> with the size of the destination: the destination holds
  the concatenation, cut to the size with room for the terminator, no byte outside it is touched,
  and the result is the length of the whole concatenation, so a cut can be noticed.\<close>

theorem strlcpy_strlcat_concat:
  assumes "NUL \<in> set a" "NUL \<in> set b" "siz \<le> length dst" "strlen NUL a < siz"
  shows "\<exists>d1 d2. strlcpy dst a siz = Inr (d1, strlen NUL a)
    \<and> strlcat d1 b siz = Inr (d2, strlen NUL a + strlen NUL b)
    \<and> cstr NUL d2 = take (siz - 1) (cstr NUL a @ cstr NUL b) \<and> length d2 = length dst"
proof -
  obtain d1 where d1: "lcpy NUL dst a siz = Inr (d1, strlen NUL a)"
      "cstr NUL d1 = cstr NUL a" "length d1 = length dst"
    using lcpy_cstr [OF assms(1,3)] assms(4) by auto
  have "siz \<le> length d1" using d1 assms(3) by simp
  note c = strlcat_spec [OF assms(2) this]
  let ?t = "take (siz - strlen NUL a - 1) (cstr NUL b)"
  have "NUL \<notin> set ?t" by (meson cstr_no_nul in_set_takeD)
  then have "cstr NUL (cstr NUL a @ ?t @ NUL # ys) = cstr NUL a @ ?t" for ys
    using cstr_append_nul [of NUL "cstr NUL a @ ?t" ys] by simp
  moreover have "cstr NUL a @ ?t = take (siz - 1) (cstr NUL a @ cstr NUL b)"
    using assms(4) by (simp add: diff_commute)
  ultimately show ?thesis using d1 c assms(3,4)
    by (auto simp: strlcpy_def Let_def)
qed

theorem strlcpy_strlcat_concat_witness:
  "\<exists>d1 d2. strlcpy ''xxxx'' (''ab'' @ [NUL]) 4 = Inr (d1, 2)
    \<and> strlcat d1 (''cd'' @ [NUL]) 4 = Inr (d2, 4) \<and> cstr NUL d2 = ''abc''"
  using strlcpy_strlcat_concat [of "''ab'' @ [NUL]" "''cd'' @ [NUL]" 4 "''xxxx''"]
  by (auto simp: cstr_def)

end
