(* ===== verification/Xmalloc.thy ===== *)
theory Xmalloc
  imports CString
begin

text \<open>
  \<open>xmalloc.c\<close> and \<open>wcsdup.c\<close>: allocation with the checks of the code. Whether the allocator can
  serve a request of so many bytes is the parameter \<open>ok\<close>; a successful allocation is
  represented by the number of bytes handed out. The formatting of \<open>vasprintf\<close> and
  \<open>vsnprintf\<close> belongs to the C library: their results are parameters of the wrappers.
\<close>

type_synonym allocator = "size_t \<Rightarrow> bool"

text \<open>An allocator that never refuses.\<close>

abbreviation always :: allocator where "always \<equiv> \<lambda>n. True"

definition SIZE_MAX :: size_t where "SIZE_MAX = -1"
definition INT_MAX :: nat where "INT_MAX = 2147483647"

definition xmalloc :: "allocator \<Rightarrow> size_t \<Rightarrow> halt + size_t" where
  "xmalloc ok sz =
    (if sz = 0 then Inl (Errx ''zero size'' [])
     else if \<not> ok sz then Inl (Err ''xmalloc failed'' [])
     else Inr sz)"

definition xcalloc :: "allocator \<Rightarrow> size_t \<Rightarrow> size_t \<Rightarrow> halt + size_t" where
  "xcalloc ok nmemb sz =
    (if sz = 0 \<or> nmemb = 0 then Inl (Errx ''zero size'' [])
     else if SIZE_MAX div nmemb < sz then Inl (Errx ''nmemb * size > SIZE_MAX'' [])
     else if \<not> ok (nmemb * sz) then Inl (Err ''xcalloc failed'' [])
     else Inr (nmemb * sz))"

definition xrealloc :: "allocator \<Rightarrow> size_t \<Rightarrow> size_t \<Rightarrow> halt + size_t" where
  "xrealloc ok nmemb sz =
    (let newsize = nmemb * sz in
     if newsize = 0 then Inl (Errx ''zero size'' [])
     else if SIZE_MAX div nmemb < sz then Inl (Errx ''nmemb * size > SIZE_MAX'' [])
     else if \<not> ok newsize then Inl (Err ''xrealloc failed'' [])
     else Inr newsize)"

definition xfree :: "'p option \<Rightarrow> halt + unit" where
  "xfree ptr = (case ptr of None \<Rightarrow> Inl (Errx ''null pointer'' []) | Some p \<Rightarrow> Inr ())"

text \<open>\<open>xstrdup\<close> copies into a fresh object whose bytes are indeterminate (\<open>junk\<close>).\<close>

definition xstrdup :: "allocator \<Rightarrow> (nat \<Rightarrow> char) \<Rightarrow> string \<Rightarrow> halt + string" where
  "xstrdup ok junk s =
    (let len = strlen NUL s + 1 in
     ebind (xmalloc ok (of_nat len)) (\<lambda>_.
     ebind (strlcpy (map junk [0..<len]) s len) (\<lambda>(ptr, _).
     Inr ptr)))"

text \<open>\<open>i\<close> is what the C library's routine returned, \<open>r\<close> the pointer it stored.\<close>

definition xvasprintf :: "int \<Rightarrow> string option \<Rightarrow> halt + int" where
  "xvasprintf i r = (if i < 0 \<or> r = None then Inl (Err ''xvasprintf failed'' []) else Inr i)"

definition xasprintf :: "int \<Rightarrow> string option \<Rightarrow> halt + int" where
  "xasprintf i r = xvasprintf i r"

text \<open>
  The string that \<open>xasprintf\<close> makes: \<open>vasprintf\<close> writes \<open>s\<close> into memory of its own, and fails when
  there is none.
\<close>

definition formatted :: "allocator \<Rightarrow> string \<Rightarrow> halt + string" where
  "formatted ok s =
    (let (i, ret) = (if ok (of_nat (length s + 1)) then (int (length s), Some s) else (-1, None))
     in ebind (xasprintf i ret) (\<lambda>_. Inr s))"

definition xvsnprintf :: "size_t \<Rightarrow> int \<Rightarrow> halt + int" where
  "xvsnprintf len i =
    (if unat len > INT_MAX then Inl (Errx ''len > INT_MAX'' [])
     else if i < 0 then Inl (Err ''vsnprintf failed'' [])
     else Inr i)"

definition xsnprintf :: "size_t \<Rightarrow> int \<Rightarrow> halt + int" where
  "xsnprintf len i = xvsnprintf len i"

text \<open>The C library's \<open>calloc\<close>: whether the memory is there.\<close>

definition calloc :: "allocator \<Rightarrow> size_t \<Rightarrow> size_t \<Rightarrow> bool" where
  "calloc ok nmemb sz \<longleftrightarrow> unat nmemb * unat sz < 2 ^ 64 \<and> ok (nmemb * sz)"

text \<open>\<open>wcsdup\<close> returns a null pointer when the allocation fails.\<close>

definition wcsdup :: "allocator \<Rightarrow> wchar list \<Rightarrow> wchar list option" where
  "wcsdup ok str =
    (let len = strlen 0 str + 1 in
     if \<not> ok (of_nat len * 4) then None else Some (take len str))"

lemma safe_alloc [safe_intros, simp]:
  "safe (xmalloc ok n)" "safe (xcalloc ok n s)" "safe (xrealloc ok n s)" "safe (xfree p)"
  by (simp_all add: xmalloc_def xcalloc_def xrealloc_def xfree_def Let_def split: option.split)

lemma formatted_cases:
  "formatted ok s = Inr s \<or> (\<not> ok (of_nat (length s + 1)) \<and> formatted ok s = Inl (Err ''xvasprintf failed'' []))"
  by (simp add: formatted_def xasprintf_def xvasprintf_def)

lemma formatted_Inr: "formatted ok s = Inr t \<Longrightarrow> t = s"
  using formatted_cases [of ok s] by auto

lemma formatted_always [simp]: "formatted always s = Inr s"
  using formatted_cases [of always s] by auto

section \<open>No request wraps around\<close>

lemma div_check_word:
  fixes n s :: size_t
  assumes "n \<noteq> 0"
  shows "SIZE_MAX div n < s \<longleftrightarrow> 2 ^ 64 \<le> unat n * unat s"
proof -
  have n: "0 < unat n" using assms by (simp add: unat_gt_0)
  have "SIZE_MAX div n < s \<longleftrightarrow> (2 ^ 64 - 1) div unat n < unat s"
    by (simp add: SIZE_MAX_def word_less_nat_alt unat_div unsigned_minus_1_eq_mask mask_eq_exp_minus_1)
  also have "\<dots> \<longleftrightarrow> 2 ^ 64 - 1 < unat s * unat n"
    using n by (rule div_less_iff_less_mult)
  also have "\<dots> \<longleftrightarrow> 2 ^ 64 \<le> unat n * unat s"
    by (auto simp: mult.commute)
  finally show ?thesis .
qed

lemma unat_mult_size_t:
  fixes n s :: size_t
  assumes "unat n * unat s < 2 ^ 64"
  shows "unat (n * s) = unat n * unat s"
  using assms by (simp add: unat_word_ariths)

theorem xcalloc_iff:
  "xcalloc ok n s = Inr b \<longleftrightarrow>
    n \<noteq> 0 \<and> s \<noteq> 0 \<and> unat n * unat s < 2 ^ 64 \<and> unat b = unat n * unat s \<and> ok b"
proof (cases "n = 0 \<or> s = 0")
  case True
  then show ?thesis by (auto simp: xcalloc_def)
next
  case False
  then have n: "n \<noteq> 0" "s \<noteq> 0" by auto
  show ?thesis
  proof (cases "unat n * unat s < 2 ^ 64")
    case True
    then have "unat b = unat n * unat s \<longleftrightarrow> b = n * s"
      by (metis unat_mult_size_t word_unat_eq_iff)
    with n True show ?thesis by (auto simp: xcalloc_def div_check_word)
  next
    case False
    with n show ?thesis by (simp add: xcalloc_def div_check_word not_less)
  qed
qed

theorem xrealloc_iff:
  "xrealloc ok n s = Inr b \<longleftrightarrow>
    n \<noteq> 0 \<and> s \<noteq> 0 \<and> unat n * unat s < 2 ^ 64 \<and> unat b = unat n * unat s \<and> ok b"
proof (cases "n * s = 0")
  case True
  have "unat n * unat s < 2 ^ 64 \<Longrightarrow> n = 0 \<or> s = 0"
    by (metis True mult_eq_0_iff unat_0 unat_eq_zero unat_mult_size_t)
  with True show ?thesis by (auto simp: xrealloc_def)
next
  case False
  then have "n \<noteq> 0" "s \<noteq> 0" by auto
  then have "xrealloc ok n s = Inr b \<longleftrightarrow> xcalloc ok n s = Inr b"
    using False by (auto simp: xrealloc_def xcalloc_def Let_def)
  then show ?thesis by (simp only: xcalloc_iff)
qed

lemma xstrdup_ok:
  assumes "NUL \<in> set s" "ok (of_nat (strlen NUL s + 1))" "strlen NUL s + 1 < 2 ^ 64"
  shows "xstrdup ok junk s = Inr (cstr NUL s @ [NUL])"
proof -
  have "unat (of_nat (strlen NUL s + 1) :: size_t) = strlen NUL s + 1"
    using assms(3) by (simp add: unat_of_nat del: of_nat_Suc of_nat_add)
  then have nz: "(of_nat (strlen NUL s + 1) :: size_t) \<noteq> 0"
    by (metis add_is_0 one_neq_zero unat_0)
  show ?thesis using assms nz
    by (simp add: xstrdup_def xmalloc_def strlcpy_def lcpy_spec Let_def del: upt_Suc of_nat_Suc of_nat_add)
qed

text \<open>\<open>xcalloc\<close> and \<open>xrealloc\<close> return exactly when the product of their arguments is not zero,
  does not overflow and is granted by \<open>malloc\<close>: an array that is too large is an error and never
  a buffer that is too small.\<close>

theorem xcalloc_never_short:
  "(xcalloc ok n s = Inr b \<longleftrightarrow> n \<noteq> 0 \<and> s \<noteq> 0 \<and> unat b = unat n * unat s \<and> ok b) \<and>
   (xrealloc ok n s = Inr b \<longleftrightarrow> n \<noteq> 0 \<and> s \<noteq> 0 \<and> unat b = unat n * unat s \<and> ok b)"
proof -
  have "unat b < 2 ^ 64" using unsigned_less [of b] by simp
  then show ?thesis by (auto simp: xcalloc_iff xrealloc_iff)
qed

end
