(* ===== verification/Carray.thy ===== *)
theory Carray
  imports Xmalloc
begin

text \<open>
  The growing arrays of \<open>array.h\<close>, with items of pointer size. An array is the record of the
  three fields of \<open>ARRAY_DECL\<close>; \<open>items\<close> is the allocated object, whose slots are \<open>None\<close>
  until they are written. The locale \<open>dyn_array\<close> is the interface that the keyword, profile
  and result lists rely on; its interpretation at the end of the theory discharges it for
  the macros.
\<close>

record 'a carr =
  items :: "'a option list"   \<comment> \<open>the field \<open>list\<close>\<close>
  num :: u32
  space :: size_t

definition UINT_MAX :: u32 where "UINT_MAX = -1"

definition ARRAY_INITIALIZER :: "'a carr" where
  "ARRAY_INITIALIZER = \<lparr>items = [], num = 0, space = 0\<rparr>"

definition ARRAY_ITEMSIZE :: size_t where "ARRAY_ITEMSIZE = 8"

definition ARRAY_INITIALSPACE :: size_t where "ARRAY_INITIALSPACE = 10 * ARRAY_ITEMSIZE"

text \<open>\<open>realloc\<close> keeps the old contents; the new part is indeterminate.\<close>

definition resize :: "size_t \<Rightarrow> 'a option list \<Rightarrow> 'a option list" where
  "resize bytes l = (let n = unat bytes div 8 in take n l @ replicate (n - length l) None)"

text \<open>The doubling loop: a successful \<open>xrealloc\<close> shows that the doubled size does not wrap.\<close>

function grow :: "allocator \<Rightarrow> size_t \<Rightarrow> 'a option list \<Rightarrow> size_t \<Rightarrow> halt + 'a option list \<times> size_t" where
  "grow ok need l sp =
    (if sp \<le> need then
       ebind (xrealloc ok 2 sp) (\<lambda>b. grow ok need (resize b l) (sp * 2))
     else Inr (l, sp))"
  by pat_completeness auto
termination
proof (relation "measure (\<lambda>(ok, need, l, sp). 2 ^ 64 - unat sp)")
  fix ok need and l :: "'a option list" and sp :: size_t and b
  assume "xrealloc ok 2 sp = Inr b"
  then have x: "sp \<noteq> 0" "2 * unat sp < 2 ^ 64"
    by (auto simp: xrealloc_iff)
  then have "unat (sp * 2) = unat sp * 2"
    by (simp add: unat_mult_size_t mult.commute)
  moreover have "0 < unat sp" using x(1) by (simp add: unat_gt_0)
  ultimately show "((ok, need, resize b l, sp * 2), ok, need, l, sp)
      \<in> measure (\<lambda>(ok, need, l, sp). 2 ^ 64 - unat sp)"
    using x(2) by simp
qed simp

declare grow.simps [simp del]

definition ARRAY_ENSURE :: "allocator \<Rightarrow> 'a carr \<Rightarrow> u32 \<Rightarrow> halt + 'a carr" where
  "ARRAY_ENSURE ok a n =
    (if UINT_MAX - n < num a then Inl (Errx ''number too big'' [])
     else if num a + n = 0 then Inl (Undefined ''division by zero'')
     else if SIZE_MAX div ucast (num a + n) < ARRAY_ITEMSIZE then Inl (Errx ''size too big'' [])
     else
       ebind (if space a = 0 then
                ebind (xrealloc ok 1 ARRAY_INITIALSPACE) (\<lambda>b.
                Inr (a\<lparr>items := resize b (items a), space := ARRAY_INITIALSPACE\<rparr>))
              else Inr a) (\<lambda>a.
       ebind (grow ok (ucast (num a + n) * ARRAY_ITEMSIZE) (items a) (space a)) (\<lambda>(l, sp).
       Inr (a\<lparr>items := l, space := sp\<rparr>))))"

definition ARRAY_LENGTH :: "'a carr \<Rightarrow> u32" where
  "ARRAY_LENGTH a = num a"

definition ARRAY_ITEM :: "'a carr \<Rightarrow> u32 \<Rightarrow> halt + 'a" where
  "ARRAY_ITEM a i =
    ebind (rd (items a) (unat i)) (\<lambda>x.
      case x of None \<Rightarrow> Inl (Undefined ''read of an indeterminate value'') | Some v \<Rightarrow> Inr v)"

definition ARRAY_SET :: "'a carr \<Rightarrow> u32 \<Rightarrow> 'a \<Rightarrow> halt + 'a carr" where
  "ARRAY_SET a i s = ebind (wr (items a) (unat i) (Some s)) (\<lambda>l. Inr (a\<lparr>items := l\<rparr>))"

definition ARRAY_CLEAR :: "'a carr \<Rightarrow> 'a carr" where
  "ARRAY_CLEAR a = a\<lparr>num := 0\<rparr>"

definition ARRAY_ADD :: "allocator \<Rightarrow> 'a carr \<Rightarrow> 'a \<Rightarrow> halt + 'a carr" where
  "ARRAY_ADD ok a s =
    ebind (ARRAY_ENSURE ok a 1) (\<lambda>a.
    ebind (wr (items a) (unat (num a)) (Some s)) (\<lambda>l.
    Inr (a\<lparr>items := l, num := num a + 1\<rparr>)))"

definition ARRAY_INIT :: "'a carr \<Rightarrow> 'a carr" where
  "ARRAY_INIT a = a\<lparr>num := 0, items := [], space := 0\<rparr>"

definition ARRAY_FREE :: "'a carr \<Rightarrow> 'a carr" where
  "ARRAY_FREE a = ARRAY_INIT a"

definition ARRAY_TRUNC :: "'a carr \<Rightarrow> u32 \<Rightarrow> 'a carr" where
  "ARRAY_TRUNC a n = (if n < num a then a\<lparr>num := num a - n\<rparr> else ARRAY_FREE a)"

text \<open>\<open>ARRAY_FREEALL\<close> frees the list and then the structure that \<open>a\<close> points to: nothing is left of it.\<close>

definition ARRAY_FREEALL :: "'a carr option \<Rightarrow> halt + unit" where
  "ARRAY_FREEALL a =
    (case a of
       None \<Rightarrow> Inl (Undefined ''null pointer'')
     | Some c \<Rightarrow> xfree (Some (ARRAY_FREE c)))"

text \<open>
  The loops over an array: \<open>for (i = 0; i < ARRAY_LENGTH(a); i++)\<close> with a body that
  transforms an accumulator, and a sequence of \<open>ARRAY_ADD\<close>s. \<open>item\<close>, \<open>size\<close> and \<open>add\<close> are
  the operations of the array.
\<close>

fun for_items :: "('arr \<Rightarrow> u32 \<Rightarrow> halt + 'a) \<Rightarrow> 'arr \<Rightarrow> nat \<Rightarrow> nat \<Rightarrow> ('a \<Rightarrow> 'b \<Rightarrow> halt + 'b) \<Rightarrow> 'b \<Rightarrow> halt + 'b" where
  "for_items item a 0 i body acc = Inr acc"
| "for_items item a (Suc k) i body acc =
    ebind (item a (of_nat i)) (\<lambda>x.
    ebind (body x acc) (\<lambda>acc. for_items item a k (Suc i) body acc))"

fun add_all :: "('arr \<Rightarrow> 'a \<Rightarrow> halt + 'arr) \<Rightarrow> 'a list \<Rightarrow> 'arr \<Rightarrow> halt + 'arr" where
  "add_all add [] a = Inr a"
| "add_all add (x # xs) a = ebind (add a x) (\<lambda>a. add_all add xs a)"

section \<open>Representation\<close>

text \<open>
  Either nothing was allocated yet, or the object holds \<open>space\<close> bytes, at least ten items
  and always one slot more than is in use; the slots in use have been written.
\<close>

definition carr_inv :: "'a carr \<Rightarrow> bool" where
  "carr_inv a \<longleftrightarrow>
     length (items a) = unat (space a) div 8 \<and>
     (space a = 0 \<longrightarrow> num a = 0) \<and>
     (space a \<noteq> 0 \<longrightarrow> 80 \<le> unat (space a) \<and> unat (num a) * 8 < unat (space a) \<and> 8 dvd unat (space a)) \<and>
     (\<forall>i < unat (num a). items a ! i \<noteq> None)"

definition carr_list :: "'a carr \<Rightarrow> 'a list" where
  "carr_list a = map the (take (unat (num a)) (items a))"

lemma carr_inv_init: "carr_inv ARRAY_INITIALIZER"
  by (simp add: carr_inv_def ARRAY_INITIALIZER_def)

lemma carr_list_init [simp]: "carr_list ARRAY_INITIALIZER = []"
  by (simp add: carr_list_def ARRAY_INITIALIZER_def)

lemma carr_inv_clear: "carr_inv a \<Longrightarrow> carr_inv (ARRAY_CLEAR a)"
  by (auto simp: carr_inv_def ARRAY_CLEAR_def)

lemma carr_list_clear [simp]: "carr_list (ARRAY_CLEAR a) = []"
  by (simp add: carr_list_def ARRAY_CLEAR_def)

lemma carr_num_le:
  assumes "carr_inv a"
  shows "unat (num a) \<le> length (items a)"
  using assms by (cases "space a = 0") (auto simp: carr_inv_def)

lemma length_carr_list: "carr_inv a \<Longrightarrow> length (carr_list a) = unat (num a)"
  using carr_num_le [of a] by (simp add: carr_list_def min_def)

lemma carr_item:
  assumes "carr_inv a" "i < length (carr_list a)"
  shows "ARRAY_ITEM a (of_nat i) = Inr (carr_list a ! i)"
proof -
  have i: "i < unat (num a)" using assms by (simp add: length_carr_list)
  then have "unat (of_nat i :: u32) = i"
    using unat_u32_less [of "num a"] by (simp add: unat_of_nat)
  moreover have "i < length (items a)" using i carr_num_le [OF assms(1)] by simp
  moreover from i assms(1) obtain v where "items a ! i = Some v"
    by (auto simp: carr_inv_def)
  ultimately show ?thesis using i by (simp add: ARRAY_ITEM_def carr_list_def)
qed

section \<open>Growing keeps the contents\<close>

definition grown :: "'a option list \<Rightarrow> size_t \<Rightarrow> size_t \<Rightarrow> 'a option list \<times> size_t \<Rightarrow> bool" where
  "grown l sp need r = (case r of (l', sp') \<Rightarrow>
     unat need < unat sp' \<and> unat sp \<le> unat sp' \<and> 8 dvd unat sp' \<and>
     length l' = unat sp' div 8 \<and> take (length l) l' = l)"

lemma resize_grow:
  "length l \<le> unat b div 8 \<Longrightarrow>
   length (resize b l) = unat b div 8 \<and> take (length l) (resize b l) = l"
  by (simp add: resize_def Let_def)

lemma grow_spec:
  "length l = unat sp div 8 \<Longrightarrow> 8 dvd unat sp \<Longrightarrow> grow ok need l sp = Inr r \<Longrightarrow> grown l sp need r"
proof (induction ok need l sp rule: grow.induct)
  case (1 ok need l sp)
  show ?case
  proof (cases "sp \<le> need")
    case True
    then obtain b where b: "xrealloc ok 2 sp = Inr b" "grow ok need (resize b l) (sp * 2) = Inr r"
      using "1.prems"(3) by (auto simp: grow.simps [of ok need l sp] ebind_eq_Inr_iff)
    then have ub: "unat b = 2 * unat sp" "2 * unat sp < 2 ^ 64" by (auto simp: xrealloc_iff)
    then have us: "unat (sp * 2) = 2 * unat sp" by (simp add: unat_mult_size_t mult.commute)
    have le: "length l \<le> unat b div 8" using "1.prems"(1) ub by simp
    note rs = resize_grow [OF le]
    have "grown (resize b l) (sp * 2) need r"
      using "1.prems" b ub us rs by (intro "1.IH" [OF True]) auto
    then have g: "grown (resize b l) (sp * 2) need r" .
    have "take (length l) (fst r) = take (length l) (take (length (resize b l)) (fst r))"
      using rs le by (simp add: min_absorb1)
    also have "take (length (resize b l)) (fst r) = resize b l"
      using g by (simp add: grown_def split: prod.splits)
    finally have "take (length l) (fst r) = l" using rs by simp
    then show ?thesis using g us by (auto simp: grown_def split: prod.splits)
  next
    case False
    then have "r = (l, sp)" using "1.prems"(3) by (simp add: grow.simps [of ok need l sp])
    then show ?thesis using "1.prems"(1,2) False by (simp add: grown_def word_less_nat_alt not_le)
  qed
qed

lemma grow_total:
  "\<forall>n. ok n \<Longrightarrow> 0 < unat sp \<Longrightarrow> unat need < 2 ^ 62 \<Longrightarrow> \<exists>r. grow ok need l sp = Inr r"
proof (induction ok need l sp rule: grow.induct)
  case (1 ok need l sp)
  show ?case
  proof (cases "sp \<le> need")
    case True
    then have "2 * unat sp < 2 ^ 64" using "1.prems"(3) by (simp add: word_le_nat_alt)
    then have us: "unat (sp * 2) = 2 * unat sp" by (simp add: unat_mult_size_t mult.commute)
    have nz: "sp \<noteq> 0" using "1.prems"(2) by auto
    have "unat (2 * sp) = 2 * unat sp" using us by (simp add: mult.commute)
    then have x: "xrealloc ok 2 sp = Inr (2 * sp)"
      using \<open>2 * unat sp < 2 ^ 64\<close> nz "1.prems"(1) by (simp add: xrealloc_iff)
    have "\<exists>r. grow ok need (resize (2 * sp) l) (sp * 2) = Inr r"
      using "1.prems" us by (intro "1.IH" [OF True x]) auto
    then show ?thesis using True x by (simp add: grow.simps [of ok need l sp])
  next
    case False
    then show ?thesis by (simp add: grow.simps [of ok need l sp])
  qed
qed

lemma unat_need:
  fixes m :: u32
  shows "unat (ucast m * ARRAY_ITEMSIZE) = unat m * 8"
proof -
  have "unat m * 8 < 2 ^ 64" using unat_u32_less [of m] by simp
  then show ?thesis
    by (simp add: ARRAY_ITEMSIZE_def unat_mult_size_t)
qed

section \<open>Adding\<close>

lemma UINT_MAX_less: "UINT_MAX - n < m \<longleftrightarrow> 2 ^ 32 \<le> unat m + unat n"
proof -
  have "n \<le> UINT_MAX" by (simp add: UINT_MAX_def)
  then have "unat (UINT_MAX - n) = 2 ^ 32 - 1 - unat n"
    by (simp add: unat_sub UINT_MAX_def unsigned_minus_1_eq_mask mask_eq_exp_minus_1)
  then show ?thesis using unat_u32_less [of n] by (auto simp: word_less_nat_alt)
qed

lemma ensure_spec:
  assumes "carr_inv a" "ARRAY_ENSURE ok a n = Inr a'"
  shows "num a' = num a \<and> unat (num a) + unat n < 2 ^ 32 \<and>
    length (items a') = unat (space a') div 8 \<and> 80 \<le> unat (space a') \<and> 8 dvd unat (space a') \<and>
    (unat (num a) + unat n) * 8 < unat (space a') \<and> take (length (items a)) (items a') = items a"
proof -
  have nb: "\<not> UINT_MAX - n < num a"
    using assms(2) by (auto simp: ARRAY_ENSURE_def split: if_splits)
  then have n1: "unat (num a) + unat n < 2 ^ 32" by (simp add: UINT_MAX_less)
  then have u1: "unat (num a + n) = unat (num a) + unat n" by (simp add: unat_word_ariths)
  have need: "unat (ucast (num a + n) * ARRAY_ITEMSIZE) = (unat (num a) + unat n) * 8"
    by (simp add: unat_need u1)
  show ?thesis
  proof (cases "space a = 0")
    case True
    then have e: "items a = []" "num a = 0" using assms(1) by (auto simp: carr_inv_def)
    from assms(2) nb True obtain b l sp where b: "xrealloc ok 1 ARRAY_INITIALSPACE = Inr b"
        and g: "grow ok (ucast (num a + n) * ARRAY_ITEMSIZE) (resize b (items a)) ARRAY_INITIALSPACE = Inr (l, sp)"
        and a': "a' = a\<lparr>items := l, space := sp\<rparr>"
      by (auto simp: ARRAY_ENSURE_def ebind_eq_Inr_iff split: if_splits)
    have ub: "unat b = 80" using b by (simp add: xrealloc_iff ARRAY_INITIALSPACE_def ARRAY_ITEMSIZE_def)
    have us: "unat ARRAY_INITIALSPACE = 80" by (simp add: ARRAY_INITIALSPACE_def ARRAY_ITEMSIZE_def)
    have "grown (resize b (items a)) ARRAY_INITIALSPACE (ucast (num a + n) * ARRAY_ITEMSIZE) (l, sp)"
      using g by (intro grow_spec) (auto simp: us ub e resize_def)
    then show ?thesis using n1 need us e by (simp add: grown_def a')
  next
    case False
    from assms(2) nb False obtain l sp where
        g: "grow ok (ucast (num a + n) * ARRAY_ITEMSIZE) (items a) (space a) = Inr (l, sp)"
        and a': "a' = a\<lparr>items := l, space := sp\<rparr>"
      by (auto simp: ARRAY_ENSURE_def ebind_eq_Inr_iff split: if_splits)
    have "grown (items a) (space a) (ucast (num a + n) * ARRAY_ITEMSIZE) (l, sp)"
      using g assms(1) False by (intro grow_spec) (auto simp: carr_inv_def)
    then show ?thesis using n1 need assms(1) False by (auto simp: grown_def a' carr_inv_def)
  qed
qed

lemma grow_safe: "safe (grow ok need l sp)"
proof (induction ok need l sp rule: grow.induct)
  case (1 ok need l sp)
  then show ?case by (subst grow.simps) (auto intro!: safe_ebind)
qed

lemma ARRAY_ADD_safe [safe_intros]:
  assumes "carr_inv a"
  shows "safe (ARRAY_ADD ok a x)"
  unfolding ARRAY_ADD_def
proof (intro safe_ebind)
  have "num a + 1 \<noteq> 0" if "\<not> UINT_MAX - 1 < num a"
  proof -
    have "unat (num a + 1) = unat (num a) + 1"
      using that by (simp add: UINT_MAX_less unat_word_ariths)
    then show ?thesis by (metis add_is_0 one_neq_zero unat_0)
  qed
  then show "safe (ARRAY_ENSURE ok a 1)"
    by (auto simp: ARRAY_ENSURE_def intro!: safe_ebind grow_safe split: prod.splits)
next
  fix b assume b: "ARRAY_ENSURE ok a 1 = Inr b"
  have "unat (num b) < length (items b)" using ensure_spec [OF assms b] by auto
  then show "safe (wr (items b) (unat (num b)) (Some x))" by simp
qed simp

theorem carr_add:
  assumes "carr_inv a" "ARRAY_ADD ok a x = Inr a'"
  shows "carr_inv a' \<and> carr_list a' = carr_list a @ [x]"
proof -
  from assms(2) obtain b l where b: "ARRAY_ENSURE ok a 1 = Inr b"
      and l: "wr (items b) (unat (num b)) (Some x) = Inr l"
      and a': "a' = b\<lparr>items := l, num := num b + 1\<rparr>"
    by (auto simp: ARRAY_ADD_def ebind_eq_Inr_iff)
  note e = ensure_spec [OF assms(1) b]
  have u1: "unat (num b + 1) = unat (num a) + 1" using e by (simp add: unat_word_ariths)
  have lt: "unat (num a) < length (items b)" using e by (auto elim!: dvdE)
  have l': "l = (items b)[unat (num a) := Some x]" using l lt e by simp
  have le: "unat (num a) \<le> length (items a)" using assms(1) by (rule carr_num_le)
  have tk: "take (unat (num a)) (items b) = take (unat (num a)) (items a)"
    using e le by (metis min.absorb1 take_take)
  then have nth: "items b ! i = items a ! i" if "i < unat (num a)" for i
    using that by (metis nth_take)
  have "take (unat (num a) + 1) l = take (unat (num a)) (items b) @ [Some x]"
    using lt l' by (simp add: take_Suc_conv_app_nth)
  then have "carr_list a' = carr_list a @ [x]"
    by (simp add: carr_list_def a' u1 tk)
  moreover have "carr_inv a'"
    unfolding carr_inv_def a' using e u1 l' lt nth assms(1)
    by (auto simp: carr_inv_def nth_list_update less_Suc_eq)
  ultimately show ?thesis by simp
qed

lemma ensure_total:
  assumes "carr_inv a" "\<forall>n. ok n" "unat (num a) + unat n < 2 ^ 32" "0 < unat (num a) + unat n"
  shows "\<exists>b. ARRAY_ENSURE ok a n = Inr b"
proof -
  have u1: "unat (num a + n) = unat (num a) + unat n" using assms(3) by (simp add: unat_word_ariths)
  have nb: "\<not> UINT_MAX - n < num a" using assms(3) by (simp add: UINT_MAX_less)
  have nz: "num a + n \<noteq> 0" using u1 assms(4) by (metis less_irrefl unat_0)
  let ?need = "ucast (num a + n) * ARRAY_ITEMSIZE"
  have "(ucast (num a + n) :: size_t) \<noteq> 0"
    using u1 assms(4) by (metis less_irrefl unat_0 unat_ucast_size_t)
  moreover have "unat (num a + n) * 8 < 2 ^ 64" using unat_u32_less [of "num a + n"] by simp
  ultimately have ns: "\<not> SIZE_MAX div ucast (num a + n) < ARRAY_ITEMSIZE"
    by (simp add: div_check_word ARRAY_ITEMSIZE_def not_le)
  have need: "unat ?need < 2 ^ 62" using unat_u32_less [of "num a + n"] by (simp add: unat_need)
  have x: "xrealloc ok 1 ARRAY_INITIALSPACE = Inr ARRAY_INITIALSPACE"
    using assms(2) by (simp add: xrealloc_iff ARRAY_INITIALSPACE_def ARRAY_ITEMSIZE_def)
  show ?thesis
  proof (cases "space a = 0")
    case True
    have "0 < unat ARRAY_INITIALSPACE" by (simp add: ARRAY_INITIALSPACE_def ARRAY_ITEMSIZE_def)
    then obtain l sp where "grow ok ?need (resize ARRAY_INITIALSPACE (items a)) ARRAY_INITIALSPACE = Inr (l, sp)"
      using grow_total [OF assms(2) _ need] by (metis surj_pair)
    then show ?thesis using True x nb ns nz by (simp add: ARRAY_ENSURE_def)
  next
    case False
    then have "0 < unat (space a)" by (simp add: unat_gt_0)
    then obtain l sp where "grow ok ?need (items a) (space a) = Inr (l, sp)"
      using grow_total [OF assms(2) _ need] by (metis surj_pair)
    then show ?thesis using False nb ns nz by (simp add: ARRAY_ENSURE_def)
  qed
qed

theorem carr_add_total:
  assumes "carr_inv a" "\<forall>n. ok n" "length (carr_list a) < 2 ^ 32 - 1"
  shows "\<exists>a'. ARRAY_ADD ok a x = Inr a'"
proof -
  have "unat (num a) < 2 ^ 32 - 1" using assms(1,3) by (simp add: length_carr_list)
  then obtain b where b: "ARRAY_ENSURE ok a 1 = Inr b"
    using ensure_total [OF assms(1,2), of 1] by auto
  have "unat (num b) < length (items b)"
    using ensure_spec [OF assms(1) b] by (auto elim!: dvdE)
  with b show ?thesis by (simp add: ARRAY_ADD_def)
qed

section \<open>The interface\<close>

text \<open>
  What a user of an array may rely on: \<open>add\<close> appends, a cleared array is empty and can be
  filled again, the items are the elements of the list it stands for. \<open>cap\<close> is the number
  of items up to which \<open>add\<close> cannot fail.
\<close>

locale dyn_array =
  fixes add :: "'arr \<Rightarrow> 'a \<Rightarrow> halt + 'arr"
    and item :: "'arr \<Rightarrow> u32 \<Rightarrow> halt + 'a"
    and len :: "'arr \<Rightarrow> u32"
    and clear :: "'arr \<Rightarrow> 'arr"
    and abs :: "'arr \<Rightarrow> 'a list"
    and inv :: "'arr \<Rightarrow> bool"
    and cap :: nat
  assumes add_inv: "inv a \<Longrightarrow> add a x = Inr a' \<Longrightarrow> inv a'"
    and add_abs: "inv a \<Longrightarrow> add a x = Inr a' \<Longrightarrow> abs a' = abs a @ [x]"
    and add_total: "inv a \<Longrightarrow> length (abs a) < cap \<Longrightarrow> \<exists>a'. add a x = Inr a'"
    and item_abs: "inv a \<Longrightarrow> i < length (abs a) \<Longrightarrow> item a (of_nat i) = Inr (abs a ! i)"
    and len_abs: "inv a \<Longrightarrow> unat (len a) = length (abs a)"
    and clear_inv: "inv a \<Longrightarrow> inv (clear a)"
    and clear_abs: "inv a \<Longrightarrow> abs (clear a) = []"
begin

lemma add_all_inv: "inv a \<Longrightarrow> add_all add xs a = Inr a' \<Longrightarrow> inv a' \<and> abs a' = abs a @ xs"
proof (induction xs arbitrary: a)
  case (Cons x xs)
  then obtain b where "add a x = Inr b" "add_all add xs b = Inr a'"
    by (auto simp: ebind_eq_Inr_iff)
  with Cons show ?case using add_inv add_abs by fastforce
qed simp

lemma add_all_total:
  "inv a \<Longrightarrow> length (abs a) + length xs \<le> cap \<Longrightarrow> \<exists>a'. add_all add xs a = Inr a'"
proof (induction xs arbitrary: a)
  case (Cons x xs)
  then obtain b where b: "add a x = Inr b" using add_total by fastforce
  then have "\<exists>a'. add_all add xs b = Inr a'"
    using Cons.prems add_inv add_abs by (intro Cons.IH) auto
  with b show ?case by simp
qed simp

lemma refill:
  "inv a \<Longrightarrow> add_all add xs (clear a) = Inr a' \<Longrightarrow> inv a' \<and> abs a' = xs"
  using add_all_inv [OF clear_inv] clear_abs by fastforce

text \<open>A loop over all items is the monadic fold over the list.\<close>

lemma for_items_drop:
  "inv a \<Longrightarrow> i + k = length (abs a) \<Longrightarrow>
   for_items item a k i body acc = efold body (drop i (abs a)) acc"
proof (induction k arbitrary: i acc)
  case (Suc k)
  then have "i < length (abs a)" by simp
  then have "item a (of_nat i) = Inr (abs a ! i)" "drop i (abs a) = abs a ! i # drop (Suc i) (abs a)"
    using Suc.prems by (simp_all add: item_abs Cons_nth_drop_Suc)
  then show ?case using Suc by (simp cong: ebind_cong)
qed simp

lemma for_items_pure:
  assumes "inv a"
  shows "for_items item a (unat (len a)) 0 (\<lambda>x acc. Inr (f x acc)) acc = Inr (fold f (abs a) acc)"
  using assms for_items_drop [of a 0 "unat (len a)" "\<lambda>x acc. Inr (f x acc)" acc] by (simp add: len_abs efold_pure)

end

lemma carr_dyn_array:
  assumes "\<forall>n. ok n"
  shows "dyn_array (ARRAY_ADD ok) ARRAY_ITEM ARRAY_LENGTH ARRAY_CLEAR carr_list carr_inv (2 ^ 32 - 1)"
proof
  fix a a' :: "'a carr" and x
  assume a: "carr_inv a" and add: "ARRAY_ADD ok a x = Inr a'"
  from carr_add [OF a add] show "carr_inv a'" "carr_list a' = carr_list a @ [x]" by simp_all
next
  fix a :: "'a carr" and x
  assume "carr_inv a" "length (carr_list a) < 2 ^ 32 - 1"
  then show "\<exists>a'. ARRAY_ADD ok a x = Inr a'" using assms by (intro carr_add_total)
qed (simp_all add: carr_item carr_inv_clear length_carr_list ARRAY_LENGTH_def)

text \<open>
  With an allocator that serves every request the interface holds without condition; the
  laws that do not speak of success hold for every allocator.
\<close>


interpretation carr: dyn_array "ARRAY_ADD always" ARRAY_ITEM ARRAY_LENGTH ARRAY_CLEAR
  carr_list carr_inv "2 ^ 32 - 1"
  by (rule carr_dyn_array) simp

section \<open>Refinement of lists\<close>

text \<open>C25. An array is a list: below $2^{32} - 1$ items \<open>ARRAY_ADD\<close> always succeeds, appends to the
  list the array stands for and keeps the invariant, through every growth of its space; the
  item added can be read back at the old length. With $2^{32} - 1$ items it is an error.\<close>

theorem array_add_refines_append:
  assumes "carr_inv a"
  shows "(length (carr_list a) < 2 ^ 32 - 1 \<longrightarrow>
      (\<exists>a'. ARRAY_ADD always a x = Inr a' \<and> carr_inv a' \<and> carr_list a' = carr_list a @ [x]
        \<and> ARRAY_ITEM a' (ARRAY_LENGTH a) = Inr x))
    \<and> (length (carr_list a) = 2 ^ 32 - 1 \<longrightarrow> ARRAY_ADD always a x = Inl (Errx ''number too big'' []))"
proof (intro conjI impI)
  assume lt: "length (carr_list a) < 2 ^ 32 - 1"
  obtain a' where a': "ARRAY_ADD always a x = Inr a'" "carr_inv a'" "carr_list a' = carr_list a @ [x]"
    using carr.add_total [OF assms lt] carr.add_inv [OF assms] carr.add_abs [OF assms] by blast
  have "ARRAY_LENGTH a = of_nat (length (carr_list a))"
    by (simp flip: carr.len_abs [OF assms])
  then show "\<exists>a'. ARRAY_ADD always a x = Inr a' \<and> carr_inv a' \<and> carr_list a' = carr_list a @ [x]
        \<and> ARRAY_ITEM a' (ARRAY_LENGTH a) = Inr x"
    using a' carr.item_abs [OF a'(2), of "length (carr_list a)"] by (intro exI [of _ a']) simp
next
  assume "length (carr_list a) = 2 ^ 32 - 1"
  then have "unat (num a) = 2 ^ 32 - 1" using assms by (simp add: length_carr_list)
  then have "num a = UINT_MAX" by (simp add: word_unat_eq_iff UINT_MAX_def unsigned_minus_1_eq_mask mask_eq_exp_minus_1)
  then show "ARRAY_ADD always a x = Inl (Errx ''number too big'' [])"
    by (simp add: ARRAY_ADD_def ARRAY_ENSURE_def UINT_MAX_def)
qed

theorem array_add_refines_append_witness:
  "\<exists>a'. ARRAY_ADD always ARRAY_INITIALIZER (7 :: nat) = Inr a' \<and> carr_list a' = [7]"
  using array_add_refines_append [OF carr_inv_init, of "7 :: nat"] by auto

end
