(* ===== verification/ArrayOps.thy ===== *)
theory ArrayOps
  imports Carray
begin

text \<open>
  The macros of \<open>array.h\<close> that the program does not use: insertion, removal, expansion and
  concatenation. On arrays that satisfy the invariant they are the operations on lists.
\<close>

section \<open>The macros\<close>

text \<open>\<open>memmove\<close> of \<open>n\<close> items inside one object.\<close>

definition move_items :: "'c list \<Rightarrow> nat \<Rightarrow> nat \<Rightarrow> nat \<Rightarrow> halt + 'c list" where
  "move_items l dst src n =
    (if src + n \<le> length l \<and> dst + n \<le> length l
     then Inr (take dst l @ take n (drop src l) @ drop (dst + n) l)
     else Inl (Undefined ''access outside an object''))"

text \<open>\<open>memcpy\<close> of \<open>n\<close> items from the start of one object into another.\<close>

definition copy_items :: "'c list \<Rightarrow> nat \<Rightarrow> 'c list \<Rightarrow> nat \<Rightarrow> halt + 'c list" where
  "copy_items l dst l' n =
    (if n \<le> length l' \<and> dst + n \<le> length l
     then Inr (take dst l @ take n l' @ drop (dst + n) l)
     else Inl (Undefined ''access outside an object''))"

definition ARRAY_EMPTY :: "'a carr option \<Rightarrow> bool" where
  "ARRAY_EMPTY a = (case a of None \<Rightarrow> True | Some a \<Rightarrow> num a = 0)"

definition ARRAY_DATA :: "'a carr \<Rightarrow> 'a option list" where
  "ARRAY_DATA a = items a"

definition ARRAY_FIRST :: "'a carr \<Rightarrow> halt + 'a" where
  "ARRAY_FIRST a = ARRAY_ITEM a 0"

definition ARRAY_LAST :: "'a carr \<Rightarrow> halt + 'a" where
  "ARRAY_LAST a = ARRAY_ITEM a (num a - 1)"

definition ARRAY_INSERT :: "allocator \<Rightarrow> 'a carr \<Rightarrow> u32 \<Rightarrow> 'a \<Rightarrow> halt + 'a carr" where
  "ARRAY_INSERT ok a i s =
    ebind (ARRAY_ENSURE ok a 1) (\<lambda>a.
    ebind (if i < num a then move_items (items a) (unat i + 1) (unat i) (unat (num a - i)) else Inr (items a)) (\<lambda>l.
    ebind (wr l (unat i) (Some s)) (\<lambda>l.
    Inr (a\<lparr>items := l, num := num a + 1\<rparr>))))"

definition ARRAY_REMOVE :: "'a carr \<Rightarrow> u32 \<Rightarrow> halt + 'a carr" where
  "ARRAY_REMOVE a i =
    ebind (if i < num a - 1 then move_items (items a) (unat i) (unat i + 1) (unat (num a - i - 1)) else Inr (items a)) (\<lambda>l.
    let a = a\<lparr>items := l, num := num a - 1\<rparr> in
    Inr (if num a = 0 then ARRAY_FREE a else a))"

definition ARRAY_EXPAND :: "allocator \<Rightarrow> 'a carr \<Rightarrow> u32 \<Rightarrow> halt + 'a carr" where
  "ARRAY_EXPAND ok a n = ebind (ARRAY_ENSURE ok a n) (\<lambda>a. Inr (a\<lparr>num := num a + n\<rparr>))"

definition ARRAY_CONCAT :: "allocator \<Rightarrow> 'a carr \<Rightarrow> 'a carr \<Rightarrow> halt + 'a carr" where
  "ARRAY_CONCAT ok a b =
    ebind (ARRAY_ENSURE ok a (num b)) (\<lambda>a.
    ebind (copy_items (items a) (unat (num a)) (items b) (unat (num b))) (\<lambda>l.
    Inr (a\<lparr>items := l, num := num a + num b\<rparr>)))"

section \<open>Objects and lists\<close>

text \<open>An array is its list followed by free slots; what grows keeps the list.\<close>

definition sized :: "'a carr \<Rightarrow> nat \<Rightarrow> bool" where
  "sized a k \<longleftrightarrow> length (items a) = unat (space a) div 8 \<and> 80 \<le> unat (space a) \<and> 8 dvd unat (space a)
     \<and> k * 8 < unat (space a)"

lemma carr_split:
  assumes "carr_inv a"
  obtains rest where "items a = map Some (carr_list a) @ rest" "unat (num a) = length (carr_list a)"
proof
  have "take (unat (num a)) (items a) = map Some (carr_list a)"
    using assms carr_num_le [OF assms]
    by (auto simp: carr_inv_def carr_list_def intro!: nth_equalityI)
  then show "items a = map Some (carr_list a) @ drop (unat (num a)) (items a)"
    by (metis append_take_drop_id)
  show "unat (num a) = length (carr_list a)" using assms by (simp add: length_carr_list)
qed

lemma carr_build:
  assumes "items a = map Some xs @ rest" "unat (num a) = length xs" "sized a (length xs)"
  shows "carr_inv a \<and> carr_list a = xs"
proof
  show "carr_inv a" using assms by (auto simp: carr_inv_def sized_def nth_append)
  show "carr_list a = xs" using assms by (simp add: carr_list_def comp_def)
qed

lemma ensure_split:
  assumes "carr_inv a" "ARRAY_ENSURE ok a n = Inr b"
  obtains rest where "items b = map Some (carr_list a) @ rest" "unat n \<le> length rest" "num b = num a"
    "sized b (length (carr_list a) + unat n)" "length (carr_list a) + unat n < 2 ^ 32"
proof -
  note e = ensure_spec [OF assms]
  obtain r where r: "items a = map Some (carr_list a) @ r" "unat (num a) = length (carr_list a)"
    using carr_split [OF assms(1)] by blast
  from e have "items b = items a @ drop (length (items a)) (items b)"
    by (metis append_take_drop_id)
  then obtain rest where b: "items b = map Some (carr_list a) @ rest" using r by (metis append_assoc)
  have "length (items b) * 8 = unat (space b)" using e by (auto elim!: dvdE)
  then have "unat n \<le> length rest" using e b r by simp
  with b e r show ?thesis by (intro that) (auto simp: sized_def)
qed

lemma ensure_always:
  assumes "carr_inv a" "length (carr_list a) + unat n < 2 ^ 32" "0 < length (carr_list a) + unat n"
  obtains b where "ARRAY_ENSURE always a n = Inr b"
  using ensure_total [of a always n] assms by (auto simp: length_carr_list)

lemma sized_update [simp]:
  "length l = length (items a) \<Longrightarrow> sized (a\<lparr>items := l, num := n\<rparr>) k \<longleftrightarrow> sized a k"
  by (auto simp: sized_def)

section \<open>The operations on lists\<close>

lemma insert_list:
  assumes "carr_inv a" "i \<le> length (carr_list a)" "length (carr_list a) < 2 ^ 32 - 1"
  shows "\<exists>a'. ARRAY_INSERT always a (of_nat i) x = Inr a' \<and> carr_inv a'
    \<and> carr_list a' = take i (carr_list a) @ x # drop i (carr_list a)"
proof -
  let ?xs = "carr_list a"
  obtain b where b: "ARRAY_ENSURE always a 1 = Inr b"
    using ensure_always [OF assms(1), of 1] assms(3) by auto
  obtain rest where r: "items b = map Some ?xs @ rest" "unat (1 :: u32) \<le> length rest" "num b = num a"
      "sized b (length ?xs + unat (1 :: u32))"
    using ensure_split [OF assms(1) b] by metis
  then obtain v rest' where v: "rest = v # rest'" by (cases rest) auto
  have n: "unat (num a) = length ?xs" using assms(1) by (simp add: length_carr_list)
  have i: "unat (of_nat i :: u32) = i" using assms by (simp add: unat_of_nat)
  have lt: "of_nat i < num a \<longleftrightarrow> i < length ?xs" by (simp add: word_less_nat_alt i n)
  have d: "unat (num a - of_nat i) = length ?xs - i"
    using assms(2) by (simp add: unat_sub word_le_nat_alt i n)
  let ?ys = "take i ?xs @ x # drop i ?xs"
  define l where "l = (if i < length ?xs then take (i + 1) (items b) @ map Some (drop i ?xs) @ rest' else items b)"
  have mv: "(if of_nat i < num b then move_items (items b) (unat (of_nat i :: u32) + 1) (unat (of_nat i :: u32))
       (unat (num b - of_nat i)) else Inr (items b)) = Inr l"
    using assms(2) by (auto simp: l_def r v lt d i move_items_def drop_map take_map)
  have "i < length l" using assms(2) by (auto simp: l_def r v)
  moreover have "l[i := Some x] = map Some ?ys @ rest'"
    using assms(2)
    by (auto simp: l_def r v list_update_append take_map drop_map take_Suc_conv_app_nth split: if_splits)
  ultimately have wr: "wr l (unat (of_nat i :: u32)) (Some x) = Inr (map Some ?ys @ rest')"
    by (simp add: wr_def i)
  have e: "ARRAY_INSERT always a (of_nat i) x = Inr (b\<lparr>items := map Some ?ys @ rest', num := num a + 1\<rparr>)"
    unfolding ARRAY_INSERT_def b ebind_Inr r(3) mv [unfolded r(3)] wr ..
  have "unat (num a + 1) = length ?ys" using n assms by (simp add: unat_word_ariths)
  moreover have "sized (b\<lparr>items := map Some ?ys @ rest', num := num a + 1\<rparr>) (length ?ys)"
    using r(1,4) v assms(2) by (simp add: sized_def)
  ultimately show ?thesis
    using e carr_build [of "b\<lparr>items := map Some ?ys @ rest', num := num a + 1\<rparr>" ?ys rest'] by auto
qed

lemma remove_list:
  assumes "carr_inv a" "i < length (carr_list a)"
  shows "\<exists>a'. ARRAY_REMOVE a (of_nat i) = Inr a' \<and> carr_inv a'
    \<and> carr_list a' = take i (carr_list a) @ drop (Suc i) (carr_list a)"
proof -
  let ?xs = "carr_list a" let ?ys = "take i ?xs @ drop (Suc i) ?xs"
  obtain rest where r: "items a = map Some ?xs @ rest" "unat (num a) = length ?xs"
    using carr_split [OF assms(1)] by blast
  have "length ?xs < 2 ^ 32" using unat_u32_less [of "num a"] r(2) by simp
  then have i: "unat (of_nat i :: u32) = i" using assms(2) by (simp add: unat_of_nat)
  have m: "unat (num a - 1) = length ?xs - 1"
    using assms(2) r(2) by (subst unat_sub) (auto simp: word_le_nat_alt)
  have lt: "of_nat i < num a - 1 \<longleftrightarrow> i < length ?xs - 1" by (simp add: word_less_nat_alt i m)
  have d: "unat (num a - of_nat i - 1) = length ?xs - i - 1"
  proof -
    have "unat (num a - of_nat i) = length ?xs - i"
      using assms(2) r(2) i by (subst unat_sub) (auto simp: word_le_nat_alt)
    moreover from this have "(1 :: u32) \<le> num a - of_nat i" using assms(2) by (simp add: word_le_nat_alt)
    ultimately show ?thesis by (subst unat_sub) auto
  qed
  define l where "l = (if i < length ?xs - 1 then map Some ?ys @ drop (length ?xs - 1) (items a) else items a)"
  have mv: "(if of_nat i < num a - 1 then move_items (items a) (unat (of_nat i :: u32)) (unat (of_nat i :: u32) + 1)
       (unat (num a - of_nat i - 1)) else Inr (items a)) = Inr l"
    using assms(2) by (auto simp: l_def lt d i move_items_def r(1) drop_map take_map)
  have ll: "length l = length (items a)" using assms(2) by (auto simp: l_def r(1))
  consider "i < length ?xs - 1" | "i = length ?xs - 1" using assms(2) by linarith
  then have "take (length ?xs - 1) l = map Some ?ys"
    using assms(2) by cases (auto simp: l_def r(1) take_map drop_map)
  then have l: "l = map Some ?ys @ drop (length ?xs - 1) l" by (metis append_take_drop_id)
  have sz: "sized a (length ?ys)" using assms r(2) by (auto simp: sized_def carr_inv_def)
  have e: "ARRAY_REMOVE a (of_nat i) =
      Inr (if num a - 1 = 0 then ARRAY_FREE (a\<lparr>items := l, num := num a - 1\<rparr>) else a\<lparr>items := l, num := num a - 1\<rparr>)"
    unfolding ARRAY_REMOVE_def mv by simp
  have "num a - 1 = 0 \<longleftrightarrow> length ?xs = 1" using m assms(2) by (auto simp flip: unat_eq_zero)
  then consider (empty) "num a - 1 = 0" "?ys = []" | (more) "num a - 1 \<noteq> 0"
    using assms(2) by (cases "num a - 1 = 0") auto
  then show ?thesis
  proof cases
    case empty
    then show ?thesis using e
      by (simp add: ARRAY_FREE_def ARRAY_INIT_def carr_inv_def carr_list_def)
  next
    case more
    have "carr_inv (a\<lparr>items := l, num := num a - 1\<rparr>) \<and> carr_list (a\<lparr>items := l, num := num a - 1\<rparr>) = ?ys"
      using l m sz ll assms(2) by (intro carr_build [of _ _ "drop (length ?xs - 1) l"]) simp_all
    then show ?thesis using e more by auto
  qed
qed

lemma concat_list:
  assumes "carr_inv a" "carr_inv b" "length (carr_list a) + length (carr_list b) < 2 ^ 32"
    and "carr_list a @ carr_list b \<noteq> []"
  shows "\<exists>c. ARRAY_CONCAT always a b = Inr c \<and> carr_inv c \<and> carr_list c = carr_list a @ carr_list b"
proof -
  let ?zs = "carr_list a @ carr_list b"
  have n: "unat (num a) = length (carr_list a)" "unat (num b) = length (carr_list b)"
    using assms(1,2) by (simp_all add: length_carr_list)
  obtain e where e: "ARRAY_ENSURE always a (num b) = Inr e"
    using ensure_always [OF assms(1), of "num b"] assms(3,4) n by auto
  obtain rest where r: "items e = map Some (carr_list a) @ rest" "unat (num b) \<le> length rest" "num e = num a"
      "sized e (length (carr_list a) + unat (num b))"
    using ensure_split [OF assms(1) e] by metis
  obtain rb where b: "items b = map Some (carr_list b) @ rb" using carr_split [OF assms(2)] by blast
  have c: "copy_items (items e) (unat (num e)) (items b) (unat (num b)) =
      Inr (map Some ?zs @ drop (unat (num b)) rest)"
    using r(2) by (simp add: copy_items_def r(1,3) b n)
  let ?c = "e\<lparr>items := map Some ?zs @ drop (unat (num b)) rest, num := num a + num b\<rparr>"
  have "ARRAY_CONCAT always a b = Inr ?c"
    unfolding ARRAY_CONCAT_def e ebind_Inr c r(3) [symmetric] by (simp add: r(3))
  moreover have "unat (num a + num b) = length ?zs" using n assms(3) by (simp add: unat_word_ariths)
  then have "carr_inv ?c \<and> carr_list ?c = ?zs"
    using r(1,2,4) n by (intro carr_build [of _ _ "drop (unat (num b)) rest"]) (simp_all add: sized_def)
  ultimately show ?thesis by auto
qed

section \<open>Refinement of lists\<close>

text \<open>C26. The macros that change an array in the middle or by another array are the list operations, as
  long as memory is granted: insertion at any place, the end and an empty array included, removal
  of any item, the last one included, and concatenation of two arrays of which either may be empty,
  but not both. They keep the invariant through every growth.\<close>

theorem array_ops_refine_lists:
  assumes "carr_inv a" "carr_inv b" "length (carr_list a) + length (carr_list b) < 2 ^ 32 - 1"
  shows "(\<forall>i\<le>length (carr_list a). \<exists>a'. ARRAY_INSERT always a (of_nat i) x = Inr a' \<and> carr_inv a'
      \<and> carr_list a' = take i (carr_list a) @ x # drop i (carr_list a))
    \<and> (\<forall>i<length (carr_list a). \<exists>a'. ARRAY_REMOVE a (of_nat i) = Inr a' \<and> carr_inv a'
      \<and> carr_list a' = take i (carr_list a) @ drop (Suc i) (carr_list a))
    \<and> (carr_list a @ carr_list b \<noteq> [] \<longrightarrow>
        (\<exists>c. ARRAY_CONCAT always a b = Inr c \<and> carr_inv c \<and> carr_list c = carr_list a @ carr_list b))"
proof (intro conjI allI impI)
  show "\<exists>a'. ARRAY_INSERT always a (of_nat i) x = Inr a' \<and> carr_inv a'
      \<and> carr_list a' = take i (carr_list a) @ x # drop i (carr_list a)" if "i \<le> length (carr_list a)" for i
    using assms that by (intro insert_list) auto
  show "\<exists>a'. ARRAY_REMOVE a (of_nat i) = Inr a' \<and> carr_inv a'
      \<and> carr_list a' = take i (carr_list a) @ drop (Suc i) (carr_list a)" if "i < length (carr_list a)" for i
    using assms that by (intro remove_list) auto
  show "\<exists>c. ARRAY_CONCAT always a b = Inr c \<and> carr_inv c \<and> carr_list c = carr_list a @ carr_list b"
    if "carr_list a @ carr_list b \<noteq> []"
    using assms that by (intro concat_list) auto
qed

theorem array_ops_refine_lists_witness:
  "\<exists>a. ARRAY_ADD always ARRAY_INITIALIZER (7 :: nat) = Inr a
    \<and> (\<exists>a'. ARRAY_INSERT always a (of_nat 0) 5 = Inr a' \<and> carr_list a' = [5, 7])
    \<and> (\<exists>a'. ARRAY_INSERT always a (of_nat 1) 5 = Inr a' \<and> carr_list a' = [7, 5])
    \<and> (\<exists>a'. ARRAY_REMOVE a (of_nat 0) = Inr a' \<and> carr_list a' = [])
    \<and> (\<exists>c. ARRAY_CONCAT always a a = Inr c \<and> carr_list c = [7, 7])
    \<and> (\<exists>c. ARRAY_CONCAT always ARRAY_INITIALIZER a = Inr c \<and> carr_list c = [7])"
proof -
  obtain a where a: "ARRAY_ADD always ARRAY_INITIALIZER (7 :: nat) = Inr a"
    using carr_add_total [OF carr_inv_init, of always "7 :: nat"] by auto
  have l: "carr_inv a" "carr_list a = [7]" using carr_add [OF carr_inv_init a] by simp_all
  have e: "carr_list (ARRAY_INITIALIZER :: nat carr) = []" by (simp add: carr_list_def ARRAY_INITIALIZER_def)
  note n = array_ops_refine_lists [OF l(1) l(1), of 5] and c = array_ops_refine_lists [OF carr_inv_init l(1), of 5]
  have "\<exists>a'. ARRAY_INSERT always a (of_nat 0) 5 = Inr a' \<and> carr_list a' = [5, 7]"
    "\<exists>a'. ARRAY_INSERT always a (of_nat 1) 5 = Inr a' \<and> carr_list a' = [7, 5]"
    "\<exists>a'. ARRAY_REMOVE a (of_nat 0) = Inr a' \<and> carr_list a' = []"
    "\<exists>c. ARRAY_CONCAT always a a = Inr c \<and> carr_list c = [7, 7]"
    "\<exists>c. ARRAY_CONCAT always ARRAY_INITIALIZER a = Inr c \<and> carr_list c = [7]"
    using n c by (fastforce simp: l(2) e)+
  with a show ?thesis by blast
qed

end
