(* ===== verification/Unix.thy ===== *)
theory Unix
  imports Prelude
begin

text \<open>
  The operating system as mdp sees it: a file system with hard links, the environment, the
  messages printed, and system calls that can fail. A call fails when the file system says so
  (\<open>ENOENT\<close>, \<open>EEXIST\<close>, \<open>EPERM\<close>) or when the oracle \<open>faults\<close> says so: it holds one entry per
  call to come, \<open>None\<close> or the error, and no more errors when it is used up. \<open>KILL\<close> is no error of the
  system: the process is killed in place of the call. Path resolution is
  not modelled, a path is a name; a descriptor is the number of its inode.
\<close>

section \<open>The state\<close>

datatype errno = ENOENT | EEXIST | EPERM | EACCES | EXDEV | EIO | ESRCH | KILL

datatype kind = Reg | Dir | Special

record inode =
  kind :: kind
  mode :: u32
  owner :: nat
  contents :: string

datatype event =
    Printf string "arg list"            \<comment> \<open>to standard output\<close>
  | PrintW "wchar list option"          \<comment> \<open>\<open>printf ("%ls\n", s)\<close>\<close>
  | Warning string "arg list"           \<comment> \<open>to standard error\<close>
  | Debug string "arg list"
  | Curses string "arg list"            \<comment> \<open>a call of the curses library\<close>

record world =
  dir :: "string \<Rightarrow> nat option"
  node :: "nat \<Rightarrow> inode option"
  fresh :: nat
  umask :: u32
  my_uid :: nat
  my_pid :: nat
  environ :: "string \<Rightarrow> string option"
  faults :: "errno option list"
  tmp_names :: "string list"
  out :: "event list"

type_synonym 'a sys = "world \<Rightarrow> (errno + 'a) \<times> world"

text \<open>The next entry of the oracle.\<close>

definition next_fault :: "world \<Rightarrow> errno option \<times> world" where
  "next_fault w =
    (case faults w of [] \<Rightarrow> (None, w) | f # fs \<Rightarrow> (f, w\<lparr>faults := fs\<rparr>))"

definition syscall :: "(world \<Rightarrow> (errno + 'a) \<times> world) \<Rightarrow> 'a sys" where
  "syscall f w =
    (case next_fault w of
       (Some e, w) \<Rightarrow> (Inl e, w)
     | (None, w) \<Rightarrow> f w)"

text \<open>The next calls are not made to fail, and the process is not killed there.\<close>

definition passes :: "nat \<Rightarrow> world \<Rightarrow> bool" where
  "passes n w \<longleftrightarrow> set (take n (faults w)) \<subseteq> {None}"

lemma passes_syscall: "passes (Suc n) w \<Longrightarrow> syscall f w = f (w\<lparr>faults := tl (faults w)\<rparr>)"
proof (cases "faults w")
  case Nil
  then have "w\<lparr>faults := []\<rparr> = w" by (cases w) simp
  moreover have "syscall f w = f w" using Nil by (simp add: syscall_def next_fault_def)
  ultimately show ?thesis by (simp only: Nil list.sel)
qed (simp add: passes_def syscall_def next_fault_def)

lemma passes_next: "passes (Suc n) w \<Longrightarrow> faults w' = tl (faults w) \<Longrightarrow> passes n w'"
  by (cases "faults w") (simp_all add: passes_def)

definition emit :: "event \<Rightarrow> world \<Rightarrow> world" where
  "emit e w = w\<lparr>out := out w @ [e]\<rparr>"

section \<open>System calls\<close>

text \<open>The inode a path names.\<close>

definition lookup :: "world \<Rightarrow> string \<Rightarrow> inode option" where
  "lookup w p = (case dir w p of None \<Rightarrow> None | Some i \<Rightarrow> node w i)"

definition stat :: "string \<Rightarrow> inode sys" where
  "stat p = syscall (\<lambda>w. (case lookup w p of None \<Rightarrow> Inl ENOENT | Some n \<Rightarrow> Inr n, w))"

definition create :: "string \<Rightarrow> inode \<Rightarrow> world \<Rightarrow> world" where
  "create p n w =
    w\<lparr>dir := (dir w)(p := Some (fresh w)), node := (node w)(fresh w := Some n), fresh := Suc (fresh w)\<rparr>"

definition mkdir :: "string \<Rightarrow> u32 \<Rightarrow> unit sys" where
  "mkdir p m = syscall (\<lambda>w.
    if dir w p \<noteq> None then (Inl EEXIST, w)
    else (Inr (), create p \<lparr>kind = Dir, mode = m AND NOT (umask w), owner = my_uid w, contents = []\<rparr> w))"

text \<open>\<open>fopen (p, "w")\<close> truncates the file or creates it; the result is the descriptor.\<close>

definition fopen_w :: "string \<Rightarrow> nat sys" where
  "fopen_w p = syscall (\<lambda>w.
    case dir w p of
      Some i \<Rightarrow>
        (case node w i of
           None \<Rightarrow> (Inl EIO, w)
         | Some n \<Rightarrow>
             if kind n = Dir then (Inl EACCES, w)
             else (Inr i, w\<lparr>node := (node w)(i := Some (n\<lparr>contents := []\<rparr>))\<rparr>))
    | None \<Rightarrow>
        (Inr (fresh w), create p \<lparr>kind = Reg, mode = 0x1B6 AND NOT (umask w), owner = my_uid w, contents = []\<rparr> w))"

text \<open>\<open>fopen (p, "r")\<close> and reading to the end.\<close>

definition fopen_r :: "string \<Rightarrow> string sys" where
  "fopen_r p = syscall (\<lambda>w. (case lookup w p of None \<Rightarrow> Inl ENOENT | Some n \<Rightarrow> Inr (contents n), w))"

definition write_fd :: "nat \<Rightarrow> string \<Rightarrow> unit sys" where
  "write_fd fd s = syscall (\<lambda>w.
    case node w fd of
      None \<Rightarrow> (Inl EIO, w)
    | Some n \<Rightarrow> (Inr (), w\<lparr>node := (node w)(fd := Some (n\<lparr>contents := contents n @ s\<rparr>))\<rparr>))"

definition close_fd :: "nat \<Rightarrow> unit sys" where
  "close_fd fd = syscall (\<lambda>w. (Inr (), w))"

definition unlink :: "string \<Rightarrow> unit sys" where
  "unlink p = syscall (\<lambda>w.
    case lookup w p of
      None \<Rightarrow> (Inl ENOENT, w)
    | Some n \<Rightarrow> if kind n = Dir then (Inl EPERM, w) else (Inr (), w\<lparr>dir := (dir w)(p := None)\<rparr>))"

definition link :: "string \<Rightarrow> string \<Rightarrow> unit sys" where
  "link p q = syscall (\<lambda>w.
    case lookup w p of
      None \<Rightarrow> (Inl ENOENT, w)
    | Some n \<Rightarrow>
        if kind n = Dir then (Inl EPERM, w)
        else if dir w q \<noteq> None then (Inl EEXIST, w)
        else (Inr (), w\<lparr>dir := (dir w)(q := dir w p)\<rparr>))"

definition chmod :: "string \<Rightarrow> u32 \<Rightarrow> unit sys" where
  "chmod p m = syscall (\<lambda>w.
    case dir w p of
      None \<Rightarrow> (Inl ENOENT, w)
    | Some i \<Rightarrow>
        (case node w i of
           None \<Rightarrow> (Inl EIO, w)
         | Some n \<Rightarrow> (Inr (), w\<lparr>node := (node w)(i := Some (n\<lparr>mode := m\<rparr>))\<rparr>)))"

text \<open>
  \<open>mkstemp\<close> tries names until one does not exist; the names are the template with its last
  eight characters replaced by the strings of \<open>tmp_names\<close>. The result is the descriptor and
  the name, which the call stores over the template.
\<close>

fun pick_name :: "string \<Rightarrow> (string \<Rightarrow> nat option) \<Rightarrow> string list \<Rightarrow> (string \<times> string list) option" where
  "pick_name base d [] = None"
| "pick_name base d (x # xs) =
    (if d (base @ x) = None then Some (base @ x, xs) else pick_name base d xs)"

definition mkstemp :: "string \<Rightarrow> (nat \<times> string) sys" where
  "mkstemp template = syscall (\<lambda>w.
    case pick_name (take (length template - 8) template) (dir w) (tmp_names w) of
      None \<Rightarrow> (Inl EEXIST, w)
    | Some (p, ns) \<Rightarrow>
        (Inr (fresh w, p),
         create p \<lparr>kind = Reg, mode = 0x180, owner = my_uid w, contents = []\<rparr> (w\<lparr>tmp_names := ns\<rparr>)))"

text \<open>Calls without an effect of their own: they fail only when the oracle says so.\<close>

definition simple_call :: "unit sys" where
  "simple_call = syscall (\<lambda>w. (Inr (), w))"

section \<open>The file system stays well formed\<close>

text \<open>Every name leads to an inode, and the numbers still to be given out are unused.\<close>

definition world_inv :: "world \<Rightarrow> bool" where
  "world_inv w \<longleftrightarrow> (\<forall>p i. dir w p = Some i \<longrightarrow> node w i \<noteq> None) \<and> (\<forall>i\<ge>fresh w. node w i = None)"

lemma world_inv_fresh: "world_inv w \<Longrightarrow> dir w p = Some i \<Longrightarrow> i < fresh w"
  by (metis linorder_not_less world_inv_def)

lemma lookup_iff: "world_inv w \<Longrightarrow> lookup w p = None \<longleftrightarrow> dir w p = None"
  by (auto simp: lookup_def world_inv_def split: option.splits)

text \<open>A predicate that a call keeps, whatever the call returns.\<close>

definition keeps :: "(world \<Rightarrow> bool) \<Rightarrow> (world \<Rightarrow> 'b \<times> world) \<Rightarrow> bool" where
  "keeps R f \<longleftrightarrow> (\<forall>w. R w \<longrightarrow> R (snd (f w)))"

lemma keeps_conj: "keeps R f \<Longrightarrow> keeps S f \<Longrightarrow> keeps (\<lambda>w. R w \<and> S w) f"
  by (simp add: keeps_def)

lemma keeps_inv_syscall: "keeps world_inv f \<Longrightarrow> keeps world_inv (syscall f)"
  by (auto simp: keeps_def syscall_def next_fault_def world_inv_def split: list.splits option.splits prod.splits)

lemma create_inv: "world_inv w \<Longrightarrow> world_inv (create p n w)"
  by (auto simp: create_def world_inv_def)

lemma stat_inv: "keeps world_inv (stat p)"
  unfolding stat_def by (intro keeps_inv_syscall) (simp add: keeps_def)

lemma mkdir_inv: "keeps world_inv (mkdir p m)"
  unfolding mkdir_def by (intro keeps_inv_syscall) (simp add: keeps_def create_inv)

lemma fopen_w_inv: "keeps world_inv (fopen_w p)"
  unfolding fopen_w_def
  by (intro keeps_inv_syscall) (auto simp: keeps_def create_def world_inv_def split: option.splits)

lemma fopen_r_inv: "keeps world_inv (fopen_r p)"
  unfolding fopen_r_def by (intro keeps_inv_syscall) (simp add: keeps_def)

lemma write_inv: "keeps world_inv (write_fd fd s)"
  unfolding write_fd_def
  by (intro keeps_inv_syscall) (auto simp: keeps_def world_inv_def split: option.splits)

lemma close_inv: "keeps world_inv (close_fd fd)"
  unfolding close_fd_def by (intro keeps_inv_syscall) (simp add: keeps_def)

lemma unlink_inv: "keeps world_inv (unlink p)"
  unfolding unlink_def
  by (intro keeps_inv_syscall) (auto simp: keeps_def world_inv_def split: option.splits)

lemma link_inv: "keeps world_inv (link p q)"
  unfolding link_def
  by (intro keeps_inv_syscall) (auto simp: keeps_def world_inv_def split: option.splits)

lemma chmod_inv: "keeps world_inv (chmod p m)"
  unfolding chmod_def
  by (intro keeps_inv_syscall) (auto simp: keeps_def world_inv_def split: option.splits)

lemma mkstemp_inv: "keeps world_inv (mkstemp t)"
  unfolding mkstemp_def
  by (intro keeps_inv_syscall) (auto simp: keeps_def world_inv_def create_def split: option.splits)

lemma simple_call_inv: "keeps world_inv simple_call"
  unfolding simple_call_def by (intro keeps_inv_syscall) (simp add: keeps_def)

section \<open>Honest faults\<close>

text \<open>
  Without injected \<open>ENOENT\<close> faults a call says that a file does not exist only when it does not.
\<close>

definition honest :: "world \<Rightarrow> bool" where
  "honest w \<longleftrightarrow> Some ENOENT \<notin> set (faults w)"

lemma keeps_honest_syscall: "(\<And>w. faults (snd (f w)) = faults w) \<Longrightarrow> keeps honest (syscall f)"
  by (auto simp: keeps_def syscall_def next_fault_def honest_def split: list.splits option.splits prod.splits)

lemma calls_keep_honest:
  "keeps honest (stat p)" "keeps honest (mkdir p m)" "keeps honest (fopen_r p)" "keeps honest (fopen_w p)"
  "keeps honest (write_fd fd s)" "keeps honest (close_fd fd)" "keeps honest (unlink p)" "keeps honest (link p q)"
  "keeps honest (chmod p m)" "keeps honest (mkstemp t)" "keeps honest simple_call"
  unfolding stat_def mkdir_def fopen_r_def fopen_w_def write_fd_def close_fd_def unlink_def link_def chmod_def
    mkstemp_def simple_call_def
  by (rule keeps_honest_syscall; auto simp: create_def split: option.split)+

section \<open>Invariants of the operating system\<close>

text \<open>
  The contract between the operating system and the program's invariants. A predicate on the
  world that messages, \<open>stat\<close>, \<open>mkdir\<close>, reading a file and calls without effect keep is kept by everything the program
  does before it takes the lock; one that every call keeps is kept by the whole program. The
  lemmas for the operations are proved once inside the locales, in the theories that define the
  operations.
\<close>

named_theorems keeps_intros \<open>predicates that system calls keep\<close>

locale checks_invariant =
  fixes R :: "world \<Rightarrow> bool"
  assumes keeps_emit: "R w \<Longrightarrow> R (emit e w)"
    and keeps_stat: "keeps R (stat p)"
    and keeps_mkdir: "keeps R (mkdir p m)"
    and keeps_fopen_r: "keeps R (fopen_r p)"
    and keeps_simple_call: "keeps R simple_call"
begin

lemma keeps_emits: "R w \<Longrightarrow> R (fold emit es w)"
  by (induction es arbitrary: w) (simp_all add: keeps_emit)

lemmas checks_keep [keeps_intros] = keeps_stat keeps_mkdir keeps_fopen_r keeps_simple_call

end

locale os_invariant = checks_invariant +
  assumes keeps_fopen_w: "keeps R (fopen_w p)"
    and keeps_write: "keeps R (write_fd fd s)"
    and keeps_close: "keeps R (close_fd fd)"
    and keeps_unlink: "keeps R (unlink p)"
    and keeps_link: "keeps R (link p q)"
    and keeps_chmod: "keeps R (chmod p m)"
    and keeps_mkstemp: "keeps R (mkstemp t)"
begin

lemmas calls_keep [keeps_intros] = keeps_fopen_w keeps_write keeps_close keeps_unlink keeps_link keeps_chmod
  keeps_mkstemp

end

interpretation wf: os_invariant world_inv
  by unfold_locales (simp_all add: stat_inv mkdir_inv fopen_r_inv fopen_w_inv write_inv close_inv unlink_inv link_inv
      chmod_inv mkstemp_inv simple_call_inv emit_def world_inv_def)

interpretation hon: os_invariant honest
  by unfold_locales (simp_all add: calls_keep_honest, simp add: emit_def honest_def)

end
