(* ===== verification/Strlib.thy ===== *)
theory Strlib
  imports Xmalloc "HOL-Library.Sublist"
begin

text \<open>
  The string routines of \<open>str.c\<close> and the case-insensitive comparison of
  \<open>wcsncasecmp.c\<close>. Routines that work in place (\<open>join_list\<close>, the two
  \<open>strip_trailing_whitespaces\<close>) are modelled on objects, with their terminators. Routines
  that only read their arguments take C strings as the list of their elements without the
  terminator; reading one element past the end of such a list reads the terminator. The
  locale's \<open>towlower\<close> is the parameter \<open>lower\<close>.
\<close>

definition WHITESPACE :: string where
  "WHITESPACE = [CHR '' '', CHR 0x09, CHR 0x0D, CHR 0x0A]"

definition WCS_WHITESPACE :: "wchar list" where
  "WCS_WHITESPACE = [32, 9, 13, 10]"

section \<open>Joining\<close>

text \<open>
  The loop of \<open>join_list\<close>. \<open>buf\<close> is the pointer \<open>o\<close>, null before the first token, and
  \<open>len\<close> the size passed to the allocator; fresh bytes are indeterminate (\<open>junk\<close>).
\<close>

fun join_loop :: "allocator \<Rightarrow> (nat \<Rightarrow> char) \<Rightarrow> char \<Rightarrow> string list \<Rightarrow> string option \<Rightarrow> nat \<Rightarrow>
    halt + string option" where
  "join_loop ok junk sep [] buf len = Inr buf"
| "join_loop ok junk sep (c # cs) buf len =
    (let len = len + length c in
     case buf of
       None \<Rightarrow>
         ebind (xmalloc ok (of_nat len)) (\<lambda>_.
         ebind (wr (map junk [0..<len]) 0 NUL) (\<lambda>b.
         ebind (strlcat b (c @ [NUL]) len) (\<lambda>(b, _).
         join_loop ok junk sep cs (Some b) len)))
     | Some b \<Rightarrow>
         let len = len + 1 in
         ebind (xrealloc ok (of_nat len) 1) (\<lambda>_.
         ebind (strlcat (b @ map junk [length b..<len]) [sep, NUL] len) (\<lambda>(b, _).
         ebind (strlcat b (c @ [NUL]) len) (\<lambda>(b, _).
         join_loop ok junk sep cs (Some b) len))))"

definition join_list :: "allocator \<Rightarrow> (nat \<Rightarrow> char) \<Rightarrow> char \<Rightarrow> string list \<Rightarrow> halt + string option" where
  "join_list ok junk sep tokens =
    (let separator_count = int (length tokens) - 1 in
     join_loop ok junk sep tokens None (nat (separator_count + 1)))"

definition join :: "allocator \<Rightarrow> char \<Rightarrow> string \<Rightarrow> string \<Rightarrow> halt + string" where
  "join ok sep base tail = formatted ok (base @ [sep] @ tail)"

text \<open>
  \<open>swprintf\<close> into \<open>n\<close> wide characters fails when the text and its terminator do not fit.
\<close>

definition swprintf :: "nat \<Rightarrow> wchar list \<Rightarrow> int \<times> wchar list" where
  "swprintf n out = (if length out < n then (int (length out), out) else (-1, take (n - 1) out))"

text \<open>
  The length is a \<open>size_t\<close> stored in an \<open>int\<close>, and \<open>i + 1\<close> an \<open>int\<close> passed as a \<open>size_t\<close>; the result of
  \<open>calloc\<close> is not looked at.
\<close>

definition wcsjoin :: "allocator \<Rightarrow> wchar \<Rightarrow> wchar list \<Rightarrow> wchar list \<Rightarrow> halt + wchar list" where
  "wcsjoin ok sep base tail =
    (let i = sint (of_nat (length base + length tail + 1) :: u32) in
     ebind (int_succ ''the length in wcsjoin overflows'' i) (\<lambda>n.
     let n = (of_int n :: size_t) in
     if n \<noteq> 0 \<and> \<not> calloc ok n 4 then Inl (Undefined ''swprintf to a null pointer'')
     else
       let (r, s) = swprintf (unat n) (base @ [sep] @ tail)
       in if r < 0 then Inl (Err ''wsprintf failed'' []) else Inr s))"

section \<open>Stripping trailing whitespace\<close>

text \<open>
  \<open>for (len = strlen(s) - 1; len >= 0; len--)\<close>: the argument is \<open>len + 1\<close>. \<open>strchr\<close> also
  finds the terminator of the whitespace string, so a NUL counts as whitespace.
\<close>

fun strip_loop :: "'c \<Rightarrow> 'c list \<Rightarrow> 'c list \<Rightarrow> nat \<Rightarrow> 'c list" where
  "strip_loop nul ws s 0 = s"
| "strip_loop nul ws s (Suc len) =
    (if s ! len \<notin> set ws \<union> {nul} then s else strip_loop nul ws (s[len := nul]) len)"

definition wcs_strip_trailing_whitespaces :: "wchar list \<Rightarrow> wchar list" where
  "wcs_strip_trailing_whitespaces s = strip_loop 0 WCS_WHITESPACE s (strlen 0 s)"

definition strip_trailing_whitespaces :: "string \<Rightarrow> string" where
  "strip_trailing_whitespaces s = strip_loop NUL WHITESPACE s (strlen NUL s)"

section \<open>Case-insensitive search\<close>

definition wc_at :: "wchar list \<Rightarrow> wchar" where
  "wc_at s = (case s of [] \<Rightarrow> 0 | c # _ \<Rightarrow> c)"

fun wcsncasecmp_loop :: "(wchar \<Rightarrow> wchar) \<Rightarrow> wchar list \<Rightarrow> wchar list \<Rightarrow> nat \<Rightarrow> halt + int" where
  "wcsncasecmp_loop lower [] s2 n = Inr (- sint (wc_at s2))"
| "wcsncasecmp_loop lower (a # s1) s2 n =
    (let c1 = lower a; c2 = lower (wc_at s2) in
     if c1 \<noteq> c2 then Inr (sint c1 - sint c2)
     else if n - 1 = 0 then Inr 0
     else if s2 = [] then Inl (Undefined ''read past a terminator'')
     else wcsncasecmp_loop lower s1 (tl s2) (n - 1))"

definition wcsncasecmp :: "(wchar \<Rightarrow> wchar) \<Rightarrow> wchar list \<Rightarrow> wchar list \<Rightarrow> nat \<Rightarrow> halt + int" where
  "wcsncasecmp lower s1 s2 n = (if n = 0 then Inr 0 else wcsncasecmp_loop lower s1 s2 n)"

text \<open>
  The two nested loops of \<open>wcscasestr\<close>: read the next element, stop at the terminator, go on
  while it differs from the first one looked for or the comparison of the rest fails.
\<close>

fun wcscasestr_loop :: "(wchar \<Rightarrow> wchar) \<Rightarrow> wchar \<Rightarrow> wchar list \<Rightarrow> nat \<Rightarrow> wchar list \<Rightarrow>
    halt + wchar list option" where
  "wcscasestr_loop lower c needle len [] = Inr None"
| "wcscasestr_loop lower c needle len (sc # s) =
    (if lower sc \<noteq> c then wcscasestr_loop lower c needle len s
     else ebind (wcsncasecmp lower s needle len) (\<lambda>r.
       if r \<noteq> 0 then wcscasestr_loop lower c needle len s else Inr (Some (sc # s))))"

definition wcscasestr :: "(wchar \<Rightarrow> wchar) \<Rightarrow> wchar list \<Rightarrow> wchar list \<Rightarrow> halt + wchar list option" where
  "wcscasestr lower s needle =
    (case needle of
       [] \<Rightarrow> Inr (Some s)
     | c # needle \<Rightarrow> wcscasestr_loop lower (lower c) needle (length needle) s)"

definition streq :: "string \<Rightarrow> string \<Rightarrow> bool" where
  "streq a b = (if a = b then True else False)"

section \<open>join_list builds the separated list in a buffer that is always large enough\<close>

fun intercalate :: "'c \<Rightarrow> 'c list list \<Rightarrow> 'c list" where
  "intercalate sep [] = []"
| "intercalate sep [t] = t"
| "intercalate sep (t # ts) = t @ sep # intercalate sep ts"

lemma intercalate_acc:
  "ts \<noteq> [] \<Longrightarrow> intercalate sep (t # ts) = t @ sep # intercalate sep ts"
  by (cases ts) auto

fun join_tail :: "'c \<Rightarrow> 'c list list \<Rightarrow> 'c list" where
  "join_tail sep [] = []"
| "join_tail sep (t # ts) = sep # t @ join_tail sep ts"

lemma intercalate_tail: "intercalate sep (t # ts) = t @ join_tail sep ts"
  by (induction ts arbitrary: t) (auto simp: intercalate_acc)

lemma of_nat_size_t_unat: "n < 2 ^ 64 \<Longrightarrow> unat (of_nat n :: size_t) = n"
  by (simp add: unat_of_nat)

lemma of_nat_size_t_neq_0: "0 < n \<Longrightarrow> n < 2 ^ 64 \<Longrightarrow> (of_nat n :: size_t) \<noteq> 0"
  by (metis of_nat_size_t_unat unat_0 less_irrefl)

lemma xmalloc_of_nat: "0 < n \<Longrightarrow> n < 2 ^ 64 \<Longrightarrow> ok (of_nat n) \<Longrightarrow> xmalloc ok (of_nat n) = Inr (of_nat n)"
  by (simp add: xmalloc_def of_nat_size_t_neq_0)

lemma xrealloc_of_nat:
  "0 < n \<Longrightarrow> n < 2 ^ 64 \<Longrightarrow> ok (of_nat n) \<Longrightarrow> xrealloc ok (of_nat n) 1 = Inr (of_nat n)"
  by (simp add: xrealloc_iff of_nat_size_t_neq_0 of_nat_size_t_unat)

lemma join_loop_spec:
  assumes "length b = len" "cstr NUL b = acc" "length acc < len" "sep \<noteq> NUL"
    and "\<forall>t\<in>set ts. NUL \<notin> set t" "\<forall>n. ok n" "len + length (join_tail sep ts) < 2 ^ 64"
  shows "\<exists>b'. join_loop ok junk sep ts (Some b) len = Inr (Some b')
    \<and> cstr NUL b' = acc @ join_tail sep ts \<and> length b' = len + length (join_tail sep ts)"
  using assms
proof (induction ts arbitrary: b len acc)
  case Nil
  then show ?case by simp
next
  case (Cons t ts)
  define len' where "len' = len + length t + 1"
  define b1 where "b1 = b @ map junk [length b..<len']"
  have nul: "NUL \<in> set b"
    using Cons.prems(1-3) by (metis cstr_id less_irrefl)
  then have c1: "cstr NUL b1 = acc"
    using Cons.prems(2) by (metis append.assoc b1_def cstr_append_nul cstr_decomp cstr_no_nul append_Cons)
  have l1: "length b1 = len'" using Cons.prems(1) by (simp add: b1_def len'_def)
  obtain b2 where b2: "strlcat b1 [sep, NUL] len' = Inr (b2, length acc + 1)"
      "cstr NUL b2 = acc @ [sep]" "length b2 = len'"
    using strlcat_fits [of "[sep, NUL]" len' b1] Cons.prems c1 l1
    by (auto simp: cstr_Cons len'_def)
  obtain b3 where b3: "strlcat b2 (t @ [NUL]) len' = Inr (b3, length acc + 1 + length t)"
      "cstr NUL b3 = acc @ sep # t" "length b3 = len'"
    using strlcat_fits [of "t @ [NUL]" len' b2] Cons.prems b2
    by (auto simp: len'_def)
  have "xrealloc ok (of_nat len') 1 = Inr (of_nat len')"
    using Cons.prems by (intro xrealloc_of_nat) (auto simp: len'_def)
  then have step: "join_loop ok junk sep (t # ts) (Some b) len = join_loop ok junk sep ts (Some b3) len'"
    using b2(1) b3(1) by (simp add: Let_def b1_def len'_def)
  have "\<exists>b'. join_loop ok junk sep ts (Some b3) len' = Inr (Some b')
    \<and> cstr NUL b' = (acc @ sep # t) @ join_tail sep ts \<and> length b' = len' + length (join_tail sep ts)"
    using Cons.prems b3 by (intro Cons.IH) (auto simp: len'_def)
  then show ?case unfolding step by (auto simp: len'_def)
qed

lemma join_loop_first:
  assumes "m + length t = len" "0 < len" "xmalloc ok (of_nat len) = Inr z"
    "strlcat ((map junk [0..<len])[0 := NUL]) (t @ [NUL]) len = Inr (b, k)"
  shows "join_loop ok junk sep (t # ts) None m = join_loop ok junk sep ts (Some b) len"
  using assms by (simp add: Let_def del: upt_Suc)

theorem join_list_correct:
  assumes "tokens \<noteq> []" "\<forall>t\<in>set tokens. NUL \<notin> set t" "sep \<noteq> NUL"
    and "\<forall>n. ok n" "length tokens + length (intercalate sep tokens) < 2 ^ 64"
  shows "\<exists>b. join_list ok junk sep tokens = Inr (Some b) \<and> cstr NUL b = intercalate sep tokens"
proof -
  obtain t ts where tokens: "tokens = t # ts" using assms(1) by (cases tokens) auto
  define len where "len = length tokens + length t"
  define b0 where "b0 = (map junk [0..<len])[0 := NUL]"
  have pos: "0 < len" "length t < len" by (simp_all add: len_def tokens)
  have lt: "len + length (join_tail sep ts) < 2 ^ 64"
    using assms(5) by (simp add: len_def tokens intercalate_tail)
  have b0: "length b0 = len" "cstr NUL b0 = []"
    using pos by (auto simp: b0_def cstr_Cons upt_conv_Cons)
  obtain b1 where b1: "strlcat b0 (t @ [NUL]) len = Inr (b1, length t)"
      "cstr NUL b1 = t" "length b1 = len"
    using strlcat_fits [of "t @ [NUL]" len b0] assms(2) b0 pos by (auto simp: tokens)
  have "join_list ok junk sep tokens = join_loop ok junk sep (t # ts) None (length tokens)"
    unfolding join_list_def Let_def tokens [symmetric] by simp
  also have "\<dots> = join_loop ok junk sep ts (Some b1) len"
    using b1(1) pos lt assms(4)
    by (intro join_loop_first [where z = "of_nat len"] xmalloc_of_nat) (auto simp: b0_def len_def)
  finally have "join_list ok junk sep tokens = join_loop ok junk sep ts (Some b1) len" .
  then show ?thesis
    using join_loop_spec [of b1 len t sep ts ok junk] b1 pos lt assms
    by (auto simp: tokens intercalate_tail)
qed

lemma join_list_none: "join_list ok junk sep [] = Inr None"
  by (simp add: join_list_def)

lemma int_as_size:
  assumes "n < 2147483647"
  shows "sint (of_nat n :: u32) = int n" "unat (of_int (int n + 1) :: size_t) = n + 1"
proof -
  show "sint (of_nat n :: u32) = int n" using assms by (simp add: signed_of_nat signed_take_bit_int_eq_self)
  have "(of_int (int n + 1) :: size_t) = of_nat (n + 1)" by simp
  also have "unat \<dots> = n + 1" using assms by (subst unat_of_nat) (simp del: of_nat_add)
  finally show "unat (of_int (int n + 1) :: size_t) = n + 1" .
qed

lemma wcsjoin_ok:
  assumes "length base + length tail < 2147483646"
  shows "wcsjoin always sep base tail = Inr (base @ sep # tail)"
proof -
  define n where "n = length base + length tail + 1"
  have n: "n < 2147483647" using assms by (simp add: n_def)
  define m :: size_t where "m = of_int (int n + 1)"
  have m: "unat m = n + 1" using int_as_size(2) [OF n] by (simp only: m_def)
  then have "calloc always m 4" using n by (simp add: calloc_def)
  moreover have "swprintf (unat m) (base @ [sep] @ tail) = (int n, base @ [sep] @ tail)"
    by (simp add: swprintf_def m n_def)
  moreover have "int_succ what (sint (of_nat (length base + length tail + 1) :: u32)) = Inr (int n + 1)" for what
    using n by (simp only: n_def [symmetric] int_as_size(1) int_succ_ok)
  ultimately show ?thesis
    by (simp only: wcsjoin_def Let_def ebind_Inr m_def [symmetric] prod.case not_True_eq_False simp_thms if_False) simp
qed

section \<open>Stripping removes exactly the trailing whitespace\<close>

lemma strip_loop_spec:
  assumes "nul \<notin> set xs"
  shows "cstr nul (strip_loop nul ws (xs @ nul # ys) (length xs)) = strip_right (\<lambda>c. c \<in> set ws) xs
    \<and> nul \<in> set (strip_loop nul ws (xs @ nul # ys) (length xs))"
  using assms
proof (induction xs arbitrary: ys rule: rev_induct)
  case Nil
  then show ?case by (simp add: cstr_Cons)
next
  case (snoc x xs)
  have nx: "x \<noteq> nul" "nul \<notin> set xs" using snoc.prems by auto
  have n: "(xs @ x # nul # ys) ! length xs = x" by simp
  have u: "(xs @ x # nul # ys)[length xs := nul] = xs @ nul # nul # ys" by simp
  show ?case
  proof (cases "x \<in> set ws")
    case True
    then show ?thesis using snoc.IH [OF nx(2), of "nul # ys"] nx by (simp add: n u)
  next
    case False
    have "cstr nul (xs @ x # nul # ys) = xs @ [x]"
      using cstr_append_nul [OF snoc.prems, of ys] by simp
    then show ?thesis using False nx by simp
  qed
qed

definition is_space :: "char \<Rightarrow> bool" where
  "is_space c \<longleftrightarrow> c \<in> set WHITESPACE"

definition is_wspace :: "wchar \<Rightarrow> bool" where
  "is_wspace c \<longleftrightarrow> c \<in> set WCS_WHITESPACE"

lemma is_space_eq: "is_space = (\<lambda>c. c \<in> set WHITESPACE)"
  by (rule ext) (simp add: is_space_def)

lemma is_wspace_eq: "is_wspace = (\<lambda>c. c \<in> set WCS_WHITESPACE)"
  by (rule ext) (simp add: is_wspace_def)

theorem strip_trailing_spec:
  assumes "NUL \<in> set s"
  shows "cstr NUL (strip_trailing_whitespaces s) = strip_right is_space (cstr NUL s)"
proof -
  from assms obtain ys where s: "s = cstr NUL s @ NUL # ys" by (rule cstr_decomp)
  have "cstr NUL (strip_loop NUL WHITESPACE (cstr NUL s @ NUL # ys) (strlen NUL s))
      = strip_right is_space (cstr NUL s)"
    unfolding is_space_eq by (rule strip_loop_spec [THEN conjunct1]) simp
  then show ?thesis unfolding strip_trailing_whitespaces_def by (simp flip: s)
qed

theorem wcs_strip_trailing_spec:
  assumes "0 \<in> set s"
  shows "cstr 0 (wcs_strip_trailing_whitespaces s) = strip_right is_wspace (cstr 0 s)"
proof -
  from assms obtain ys where s: "s = cstr 0 s @ 0 # ys" by (rule cstr_decomp)
  have "cstr 0 (strip_loop 0 WCS_WHITESPACE (cstr 0 s @ 0 # ys) (strlen 0 s))
      = strip_right is_wspace (cstr 0 s)"
    unfolding is_wspace_eq by (rule strip_loop_spec [THEN conjunct1]) simp
  then show ?thesis unfolding wcs_strip_trailing_whitespaces_def by (simp flip: s)
qed

section \<open>The search finds the first case-insensitive occurrence\<close>

lemma wcsncasecmp_loop_spec:
  assumes "0 \<notin> set f" "f \<noteq> []"
  shows "\<exists>r. wcsncasecmp_loop lower s f (length f) = Inr r
    \<and> (r = 0 \<longleftrightarrow> prefix (map lower f) (map lower s))"
  using assms
proof (induction s arbitrary: f)
  case Nil
  then obtain c f' where "f = c # f'" "c \<noteq> 0" by (cases f) auto
  then show ?case by (simp add: wc_at_def signed_eq_0_iff)
next
  case (Cons a s)
  then obtain c f' where f: "f = c # f'" "c \<noteq> 0" "0 \<notin> set f'" by (cases f) auto
  show ?case
  proof (cases "lower a = lower c")
    case eq: True
    show ?thesis
    proof (cases "f' = []")
      case True
      then show ?thesis using f eq by (simp add: wc_at_def Let_def)
    next
      case False
      with Cons.IH [of f'] f eq show ?thesis by (simp add: wc_at_def Let_def)
    qed
  next
    case False
    then have "sint (lower a) - sint (lower c) \<noteq> 0" using signed_word_eqI by force
    then show ?thesis using f False by (auto simp: wc_at_def Let_def)
  qed
qed

lemma wcsncasecmp_spec:
  assumes "0 \<notin> set f"
  shows "\<exists>r. wcsncasecmp lower s f (length f) = Inr r
    \<and> (r = 0 \<longleftrightarrow> prefix (map lower f) (map lower s))"
  using wcsncasecmp_loop_spec [OF assms] by (cases "f = []") (auto simp: wcsncasecmp_def)

lemma wcscasestr_loop_spec:
  assumes "0 \<notin> set f"
  shows "\<exists>r. wcscasestr_loop lower (lower c) f (length f) s = Inr r
    \<and> (r = None \<longleftrightarrow> \<not> sublist (map lower (c # f)) (map lower s))
    \<and> (\<forall>t. r = Some t \<longrightarrow> suffix t s \<and> prefix (map lower (c # f)) (map lower t)
          \<and> (\<forall>u. suffix u s \<and> prefix (map lower (c # f)) (map lower u) \<longrightarrow> length u \<le> length t))"
proof (induction s)
  case Nil
  then show ?case by simp
next
  case (Cons a s)
  obtain r0 where r0: "wcsncasecmp lower s f (length f) = Inr r0"
      "r0 = 0 \<longleftrightarrow> prefix (map lower f) (map lower s)"
    using wcsncasecmp_spec [OF assms] by blast
  show ?case
  proof (cases "lower a = lower c \<and> r0 = 0")
    case True
    then show ?thesis using r0
      by (auto simp: sublist_Cons_right dest: suffix_length_le)
  next
    case False
    then have np: "\<not> prefix (map lower (c # f)) (map lower (a # s))" using r0 by auto
    have st: "wcscasestr_loop lower (lower c) f (length f) (a # s)
        = wcscasestr_loop lower (lower c) f (length f) s"
      using False r0 by auto
    have sl: "sublist (map lower (c # f)) (map lower (a # s))
        \<longleftrightarrow> sublist (map lower (c # f)) (map lower s)"
      using np by (auto simp: sublist_Cons_right)
    have sf: "suffix u (a # s) \<and> prefix (map lower (c # f)) (map lower u)
        \<longleftrightarrow> suffix u s \<and> prefix (map lower (c # f)) (map lower u)" for u
      using np by (auto simp: suffix_Cons)
    from Cons.IH show ?thesis unfolding st sl sf
      by (metis suffix_ConsI)
  qed
qed

theorem wcscasestr_spec:
  assumes "0 \<notin> set needle"
  shows "\<exists>r. wcscasestr lower s needle = Inr r
    \<and> (r = None \<longleftrightarrow> \<not> sublist (map lower needle) (map lower s))
    \<and> (\<forall>t. r = Some t \<longrightarrow> suffix t s \<and> prefix (map lower needle) (map lower t)
          \<and> (\<forall>u. suffix u s \<and> prefix (map lower needle) (map lower u) \<longrightarrow> length u \<le> length t))"
proof (cases needle)
  case Nil
  then show ?thesis by (auto simp: wcscasestr_def dest: suffix_length_le)
next
  case (Cons c f)
  then show ?thesis using wcscasestr_loop_spec [of f lower c s] assms
    by (simp add: wcscasestr_def)
qed

corollary wcscasestr_found_iff:
  assumes "0 \<notin> set needle"
  shows "(\<exists>t. wcscasestr lower s needle = Inr (Some t)) \<longleftrightarrow> sublist (map lower needle) (map lower s)"
proof -
  obtain r where "wcscasestr lower s needle = Inr r"
      "r = None \<longleftrightarrow> \<not> sublist (map lower needle) (map lower s)"
    using wcscasestr_spec [OF assms] by blast
  then show ?thesis by (cases r) auto
qed

section \<open>Searching\<close>

text \<open>The first suffix with a property: the reference for a search.\<close>

fun first_suffix :: "('a list \<Rightarrow> bool) \<Rightarrow> 'a list \<Rightarrow> 'a list option" where
  "first_suffix P s =
    (if P s then Some s else (case s of [] \<Rightarrow> None | c # t \<Rightarrow> first_suffix P t))"

declare first_suffix.simps [simp del]

lemma first_suffix_None: "first_suffix P s = None \<longleftrightarrow> (\<forall>t. suffix t s \<longrightarrow> \<not> P t)"
proof (induction s)
  case Nil
  then show ?case by (simp add: first_suffix.simps)
next
  case (Cons c s)
  then show ?case by (subst first_suffix.simps) (auto simp: suffix_Cons)
qed

lemma first_suffix_Some:
  "first_suffix P s = Some t \<Longrightarrow> suffix t s \<and> P t \<and> (\<forall>u. suffix u s \<and> P u \<longrightarrow> length u \<le> length t)"
proof (induction s)
  case Nil
  then show ?case by (simp add: first_suffix.simps split: if_splits)
next
  case (Cons c s)
  show ?case
  proof (cases "P (c # s)")
    case True
    then show ?thesis using Cons.prems by (auto simp: first_suffix.simps dest: suffix_length_le)
  next
    case False
    then have "first_suffix P s = Some t" using Cons.prems by (simp add: first_suffix.simps [of P "c # s"])
    then show ?thesis using Cons.IH False by (auto simp: suffix_Cons)
  qed
qed

text \<open>C33. \<open>wcscasestr\<close> is the search for the first place where the needle occurs when case is
  ignored: it returns the rest of the string from there, and null when there is none.\<close>

theorem wcscasestr_finds_first:
  assumes "0 \<notin> set needle"
  shows "wcscasestr lower s needle = Inr (first_suffix (\<lambda>t. prefix (map lower needle) (map lower t)) s)"
proof -
  let ?P = "\<lambda>t. prefix (map lower needle) (map lower t)"
  obtain r where r: "wcscasestr lower s needle = Inr r"
      "r = None \<longleftrightarrow> \<not> sublist (map lower needle) (map lower s)"
      "\<And>t. r = Some t \<Longrightarrow> suffix t s \<and> ?P t \<and> (\<forall>u. suffix u s \<and> ?P u \<longrightarrow> length u \<le> length t)"
    using wcscasestr_spec [OF assms] by blast
  have "r = first_suffix ?P s"
  proof (cases "first_suffix ?P s")
    case None
    then have "\<forall>t. suffix t s \<longrightarrow> \<not> ?P t" by (simp only: first_suffix_None)
    then have "r = None" using r(3) by (cases r) auto
    then show ?thesis using None by simp
  next
    case (Some u)
    note u = first_suffix_Some [OF Some]
    then obtain xs ys where s: "s = xs @ u" "map lower u = map lower needle @ ys"
      by (auto simp: suffix_def prefix_def)
    then have "sublist (map lower needle) (map lower s)" by (auto simp: sublist_def)
    then obtain t where t: "r = Some t" using r(2) by auto
    from r(3) [OF t] u have "length t = length u" "suffix t s" "suffix u s" by (auto intro: le_antisym)
    then have "t = u" by (metis suffix_length_suffix suffix_order.antisym order_refl)
    then show ?thesis using t Some by simp
  qed
  then show ?thesis using r(1) by simp
qed

theorem wcscasestr_finds_first_witness:
  "wcscasestr (\<lambda>c. if c = 65 then 97 else c) [98, 65, 98, 97, 98] [97, 98] = Inr (Some [65, 98, 97, 98])"
  by (subst wcscasestr_finds_first) (simp_all add: first_suffix.simps)

end
