(* ===== verification/Keywords.thy ===== *)
theory Keywords
  imports Carray
begin

text \<open>
  The search keywords of \<open>keywords.c\<close>: the global array \<open>keywords\<close> of heap strings. An item is
  the pointer \<open>strdup\<close> returned, which the code stores without a check, so it may be null.
  The array is used through the interface \<open>dyn_array\<close>.
\<close>

type_synonym kwlist = "string option carr"

definition keywords_initial :: kwlist where
  "keywords_initial = ARRAY_INITIALIZER"

definition keywords_count :: "kwlist \<Rightarrow> u32" where
  "keywords_count kws = ARRAY_LENGTH kws"

definition keywords_clear :: "kwlist \<Rightarrow> halt + kwlist" where
  "keywords_clear kws =
    ebind (for_items ARRAY_ITEM kws (unat (ARRAY_LENGTH kws)) 0 (\<lambda>p _. xfree p) ()) (\<lambda>_.
    Inr (ARRAY_CLEAR kws))"

definition strdup :: "allocator \<Rightarrow> string \<Rightarrow> string option" where
  "strdup ok s = (if ok (of_nat (length s + 1)) then Some s else None)"

fun argv_loop :: "allocator \<Rightarrow> string list \<Rightarrow> kwlist \<Rightarrow> halt + kwlist" where
  "argv_loop ok [] kws = Inr kws"
| "argv_loop ok (kw # av) kws =
    ebind (ARRAY_ADD ok kws (strdup ok kw)) (\<lambda>kws. argv_loop ok av kws)"

definition keywords_load_from_argv :: "allocator \<Rightarrow> string list \<Rightarrow> kwlist \<Rightarrow> halt + kwlist" where
  "keywords_load_from_argv ok av kws =
    ebind (keywords_clear kws) (\<lambda>kws. argv_loop ok av kws)"

text \<open>
  \<open>strtok_r\<close>: skip delimiters, take what comes before the next one, and step over that one.
  The second result is what the saved pointer refers to.
\<close>

definition strtok_r :: "string \<Rightarrow> string \<Rightarrow> (string \<times> string) option" where
  "strtok_r s delim =
    (let s = dropWhile (\<lambda>c. c \<in> set delim) s in
     if s = [] then None
     else Some (takeWhile (\<lambda>c. c \<notin> set delim) s, drop 1 (dropWhile (\<lambda>c. c \<notin> set delim) s)))"

lemma strtok_r_shorter: "strtok_r s delim = Some (tok, rest) \<Longrightarrow> length rest < length s"
proof -
  assume a: "strtok_r s delim = Some (tok, rest)"
  let ?d = "dropWhile (\<lambda>c. c \<in> set delim) s"
  have "?d \<noteq> []" "rest = drop 1 (dropWhile (\<lambda>c. c \<notin> set delim) ?d)"
    using a by (auto simp: strtok_r_def Let_def split: if_splits)
  moreover have "length ?d \<le> length s"
      "length (dropWhile (\<lambda>c. c \<notin> set delim) ?d) \<le> length ?d"
    by (rule length_dropWhile_le)+
  moreover have "0 < length ?d" using calculation(1) by blast
  ultimately show ?thesis by (simp only: length_drop)
qed

function char_loop :: "allocator \<Rightarrow> string \<Rightarrow> kwlist \<Rightarrow> halt + kwlist" where
  "char_loop ok kw kws =
    (case strtok_r kw '' '' of
       None \<Rightarrow> Inr kws
     | Some (p, rest) \<Rightarrow>
         ebind (ARRAY_ADD ok kws (strdup ok p)) (\<lambda>kws. char_loop ok rest kws))"
  by pat_completeness auto
termination
  by (relation "measure (\<lambda>(ok, kw, kws). length kw)") (auto dest: strtok_r_shorter)

declare char_loop.simps [simp del]

definition keywords_load_from_char :: "allocator \<Rightarrow> string \<Rightarrow> kwlist \<Rightarrow> halt + kwlist" where
  "keywords_load_from_char ok kw kws =
    ebind (keywords_clear kws) (\<lambda>kws. char_loop ok kw kws)"

section \<open>Clearing and loading\<close>

text \<open>The state the program keeps: the array invariant, and no null item.\<close>

definition keywords_inv :: "kwlist \<Rightarrow> bool" where
  "keywords_inv kws \<longleftrightarrow> carr_inv kws \<and> None \<notin> set (carr_list kws)"

definition keywords_abs :: "kwlist \<Rightarrow> string list" where
  "keywords_abs kws = map the (carr_list kws)"

lemma keywords_initial_inv: "keywords_inv keywords_initial"
  by (simp add: keywords_inv_def keywords_initial_def carr_inv_init)

lemma efold_xfree: "None \<notin> set ps \<Longrightarrow> efold (\<lambda>p _. xfree p) ps () = Inr ()"
proof (induction ps)
  case (Cons p ps)
  then show ?case by (cases p) (auto simp: xfree_def)
qed simp

lemma keywords_clear_ok:
  "keywords_inv kws \<Longrightarrow> keywords_clear kws = Inr (ARRAY_CLEAR kws)"
  unfolding keywords_clear_def keywords_inv_def
  using carr.for_items_drop [of kws 0 "unat (ARRAY_LENGTH kws)" "\<lambda>p _. xfree p" "()"]
  by (simp add: efold_xfree carr.len_abs)

lemma keywords_clear_null:
  assumes "carr_inv kws" "None \<in> set (carr_list kws)"
  shows "keywords_clear kws = Inl (Errx ''null pointer'' [])"
proof -
  have "efold (\<lambda>p _. xfree p) ps () = Inl (Errx ''null pointer'' [])" if "None \<in> set ps" for ps :: "string option list"
    using that by (induction ps) (auto simp: xfree_def split: option.splits)
  then show ?thesis
    unfolding keywords_clear_def using assms
      carr.for_items_drop [of kws 0 "unat (ARRAY_LENGTH kws)" "\<lambda>p _. xfree p" "()"]
    by (simp add: carr.len_abs)
qed

lemma argv_loop_add_all: "argv_loop ok av kws = add_all (ARRAY_ADD ok) (map (strdup ok) av) kws"
  by (induction av arbitrary: kws) (auto simp: ebind_def split: sum.splits)

text \<open>The words of a line: its non-empty parts between blanks.\<close>

function words :: "string \<Rightarrow> string list" where
  "words [] = []"
| "words (c # s) =
    (if c = CHR '' '' then words s
     else (c # takeWhile (\<lambda>c. c \<noteq> CHR '' '') s) # words (dropWhile (\<lambda>c. c \<noteq> CHR '' '') s))"
  by pat_completeness auto
termination
  by (relation "measure length") (auto simp: le_imp_less_Suc length_dropWhile_le)

lemma words_spec:
  "words s = filter (\<lambda>w. w \<noteq> []) (words s) \<and> (\<forall>w\<in>set (words s). CHR '' '' \<notin> set w)
    \<and> concat (words s) = filter (\<lambda>c. c \<noteq> CHR '' '') s"
proof (induction s rule: words.induct)
  case (2 c s)
  show ?case
  proof (cases "c = CHR '' ''")
    case True
    then show ?thesis using 2(1) by simp
  next
    case False
    let ?t = "takeWhile (\<lambda>c. c \<noteq> CHR '' '') s" and ?d = "dropWhile (\<lambda>c. c \<noteq> CHR '' '') s"
    have "filter (\<lambda>c. c \<noteq> CHR '' '') s = ?t @ filter (\<lambda>c. c \<noteq> CHR '' '') ?d"
      by (metis (mono_tags, lifting) filter_True filter_append set_takeWhileD takeWhile_dropWhile_id)
    then show ?thesis using False 2(2) [OF False] by (auto dest: set_takeWhileD)
  qed
qed simp

lemma words_strtok:
  "words s = (case strtok_r s '' '' of None \<Rightarrow> [] | Some (p, rest) \<Rightarrow> p # words rest)"
proof (induction s)
  case (Cons c s)
  show ?case
  proof (cases "c = CHR '' ''")
    case True
    then show ?thesis using Cons by (simp add: strtok_r_def)
  next
    case False
    have "words d = words (drop 1 d)" if "d = dropWhile (\<lambda>c. c \<noteq> CHR '' '') s" for d
    proof (cases d)
      case (Cons x xs)
      then have "x = CHR '' ''" using that hd_dropWhile [of "\<lambda>c. c \<noteq> CHR '' ''" s] by auto
      then show ?thesis using Cons by simp
    qed simp
    then show ?thesis using False by (simp add: strtok_r_def)
  qed
qed (simp add: strtok_r_def)

lemma char_loop_words: "char_loop ok kw kws = add_all (ARRAY_ADD ok) (map (strdup ok) (words kw)) kws"
proof (induction ok kw kws rule: char_loop.induct)
  case (1 ok kw kws)
  show ?case
    using 1 by (subst char_loop.simps, subst words_strtok)
      (auto split: option.splits simp: ebind_def split: sum.splits)
qed

lemma keywords_refill:
  assumes "keywords_inv kws" "length ws < 2 ^ 32"
  shows "\<exists>l. add_all (ARRAY_ADD always) (map (strdup always) ws) (ARRAY_CLEAR kws) = Inr l
    \<and> keywords_inv l \<and> keywords_abs l = ws"
proof -
  have inv: "carr_inv kws" using assms(1) by (simp add: keywords_inv_def)
  have "\<exists>l. add_all (ARRAY_ADD always) (map (strdup always) ws) (ARRAY_CLEAR kws) = Inr l"
    using assms(2) by (intro carr.add_all_total) (simp_all add: carr.clear_inv carr.clear_abs inv)
  then obtain l where k: "add_all (ARRAY_ADD always) (map (strdup always) ws) (ARRAY_CLEAR kws) = Inr l"
    by blast
  have "carr_inv l \<and> carr_list l = map (strdup always) ws"
    using carr.refill [OF inv k] .
  then show ?thesis using k
    by (auto simp: keywords_inv_def keywords_abs_def strdup_def o_def)
qed

lemma keywords_load_from_argv_ok:
  assumes "keywords_inv kws" "length av < 2 ^ 32"
  shows "\<exists>l. keywords_load_from_argv always av kws = Inr l
    \<and> keywords_inv l \<and> keywords_abs l = av"
  using keywords_refill [OF assms]
  by (simp add: keywords_load_from_argv_def keywords_clear_ok [OF assms(1)] argv_loop_add_all)

lemma keywords_load_from_char_ok:
  assumes "keywords_inv kws" "length (words kw) < 2 ^ 32"
  shows "\<exists>l. keywords_load_from_char always kw kws = Inr l
    \<and> keywords_inv l \<and> keywords_abs l = words kw"
  using keywords_refill [OF assms]
  by (simp add: keywords_load_from_char_def keywords_clear_ok [OF assms(1)] char_loop_words)

end
