(* ===== verification/Globals.thy ===== *)
theory Globals
  imports Strlib Keywords
begin

text \<open>
  The global variables of \<open>config.c\<close> and \<open>cmd.c\<close> with their initial values, the default
  character sets of \<open>profile.h\<close>, and the C library's conversion of decimal numbers, which both
  the configuration file and the command line use.
\<close>

definition wcs :: "string \<Rightarrow> wchar list" where
  "wcs s = map of_char s"

section \<open>Character sets\<close>

definition CHARSET_LOWERCASE :: "wchar list" where
  "CHARSET_LOWERCASE = wcs ''abcdefghijklmnopqrstuvwxyz''"

definition CHARSET_UPPERCASE :: "wchar list" where
  "CHARSET_UPPERCASE = wcs ''ABCDEFGHIJKLMNOPQRSTUVWXYZ''"

definition CHARSET_ALPHA :: "wchar list" where
  "CHARSET_ALPHA = CHARSET_LOWERCASE @ CHARSET_UPPERCASE"

definition CHARSET_DIGITS :: "wchar list" where
  "CHARSET_DIGITS = wcs ''1234567890''"

definition CHARSET_ALPHANUMERIC :: "wchar list" where
  "CHARSET_ALPHANUMERIC = CHARSET_ALPHA @ CHARSET_DIGITS"

definition CHARSET_SYMBOLS :: "wchar list" where
  "CHARSET_SYMBOLS =
    [0x7E, 0x60, 0x21, 0x40, 0x23, 0x24, 0x25, 0x5E, 0x26, 0x2A, 0x28, 0x29, 0x5F, 0x2B, 0x2D, 0x3D,
     0x5B, 0x5D, 0x5C, 0x7B, 0x7D, 0x7C, 0x3B, 0x27, 0x3A, 0x22, 0x2C, 0x2E, 0x2F, 0x3C, 0x3E, 0x3F]"

definition CHARSET_PRINTABLE :: "wchar list" where
  "CHARSET_PRINTABLE = CHARSET_ALPHANUMERIC @ CHARSET_SYMBOLS"

definition DEFAULT_CHARACTER_COUNT :: u32 where "DEFAULT_CHARACTER_COUNT = 16"

definition DEFAULT_PASSWORD_COUNT :: u32 where "DEFAULT_PASSWORD_COUNT = 4"

section \<open>The variables\<close>

text \<open>Strings are \<open>None\<close> for the null pointer.\<close>

record config =
  cfg_backup :: bool
  cfg_character_count :: u32
  cfg_character_set :: "wchar list option"
  cfg_editor :: "string option"
  cfg_gpg_path :: "string option"
  cfg_gpg_key_id :: "string option"
  cfg_gpg_timeout :: u32
  cfg_password_count :: u32
  cfg_password_file :: "string option"
  cfg_timeout :: u32

definition config_initial :: config where
  "config_initial =
    \<lparr>cfg_backup = True, cfg_character_count = DEFAULT_CHARACTER_COUNT, cfg_character_set = None,
     cfg_editor = None, cfg_gpg_path = None, cfg_gpg_key_id = None, cfg_gpg_timeout = 20,
     cfg_password_count = DEFAULT_PASSWORD_COUNT, cfg_password_file = None, cfg_timeout = 10\<rparr>"

record options =
  cmd_add_prefix :: "wchar list option"
  cmd_config_path :: "string option"
  cmd_gpg_key_id :: "string option"
  cmd_profile_name :: "string option"
  cmd_regex :: bool
  cmd_raw :: bool
  cmd_character_count :: u32
  cmd_password_count :: u32

definition options_initial :: options where
  "options_initial =
    \<lparr>cmd_add_prefix = None, cmd_config_path = None, cmd_gpg_key_id = None, cmd_profile_name = None,
     cmd_regex = False, cmd_raw = False, cmd_character_count = 0, cmd_password_count = 0\<rparr>"

section \<open>Decimal numbers\<close>

definition is_digit :: "char \<Rightarrow> bool" where
  "is_digit c = (48 \<le> (of_char c :: nat) \<and> (of_char c :: nat) \<le> 57)"

definition isspace :: "char \<Rightarrow> bool" where
  "isspace c = ((of_char c :: nat) = 32 \<or> 9 \<le> (of_char c :: nat) \<and> (of_char c :: nat) \<le> 13)"

definition digits_value :: "string \<Rightarrow> nat" where
  "digits_value ds = foldl (\<lambda>n c. 10 * n + (of_char c - 48)) 0 ds"

text \<open>
  \<open>strtoull (s, NULL, 10)\<close> and \<open>strtoumax\<close>: blanks, a sign, digits; the largest value on
  overflow, 0 without digits, negated modulo $2^{64}$ after a minus sign.
\<close>

definition strtoull :: "string \<Rightarrow> 64 word" where
  "strtoull s =
    (let s = dropWhile isspace s;
         neg = (s \<noteq> [] \<and> hd s = CHR ''-'');
         s = (if s \<noteq> [] \<and> (hd s = CHR ''-'' \<or> hd s = CHR ''+'') then tl s else s);
         n = digits_value (takeWhile is_digit s)
     in if 2 ^ 64 \<le> n then - 1 else if neg then - of_nat n else of_nat n)"

text \<open>An assignment to an \<open>unsigned int\<close> keeps the low 32 bits.\<close>

definition to_uint :: "64 word \<Rightarrow> u32" where
  "to_uint w = ucast w"

lemma of_char_digit: "n < 10 \<Longrightarrow> (of_char (char_of (48 + n) :: char) :: nat) = 48 + n"
  by (simp add: of_char_of)

section \<open>Keywords from both sources\<close>

lemma words_append: "CHR '' '' \<notin> set w \<Longrightarrow> w \<noteq> [] \<Longrightarrow> words (w @ CHR '' '' # s) = w # words s"
proof (cases w)
  case (Cons c t)
  assume "CHR '' '' \<notin> set w"
  then have t: "\<And>x. x \<in> set t \<Longrightarrow> x \<noteq> CHR '' ''" and c: "c \<noteq> CHR '' ''" using Cons by auto
  have "takeWhile (\<lambda>c. c \<noteq> CHR '' '') (t @ CHR '' '' # s) = t"
    by (subst takeWhile_append2 [OF t]) simp_all
  moreover have "dropWhile (\<lambda>c. c \<noteq> CHR '' '') (t @ CHR '' '' # s) = CHR '' '' # s"
    by (subst dropWhile_append2 [OF t]) simp_all
  ultimately show ?thesis using Cons c by simp
qed simp

lemma words_single:
  assumes "CHR '' '' \<notin> set w" "w \<noteq> []"
  shows "words w = [w]"
proof (cases w)
  case (Cons c t)
  then have t: "\<forall>x\<in>set t. x \<noteq> CHR '' ''" and c: "c \<noteq> CHR '' ''" using assms(1) by auto
  then have "dropWhile (\<lambda>c. c \<noteq> CHR '' '') t = []" "takeWhile (\<lambda>c. c \<noteq> CHR '' '') t = t"
    by (simp_all only: dropWhile_eq_Nil_conv takeWhile_eq_all_conv)
  then show ?thesis using Cons c by (simp del: dropWhile_eq_Nil_conv takeWhile_eq_all_conv)
qed (simp add: assms)

lemma words_tail:
  "\<forall>w\<in>set (v # ws). w \<noteq> [] \<and> CHR '' '' \<notin> set w \<Longrightarrow> words (v @ join_tail CHR '' '' ws) = v # ws"
  by (induction ws arbitrary: v) (simp_all add: words_single words_append)

lemma words_intercalate:
  assumes "\<forall>w\<in>set ws. w \<noteq> [] \<and> CHR '' '' \<notin> set w"
  shows "words (intercalate CHR '' '' ws) = ws"
  using assms words_tail by (cases ws) (auto simp: intercalate_tail)

text \<open>The prompt and the command line agree: words typed as one line, as \<open>join_list\<close> would
  put them together, give the same keywords as the words given as arguments, and these are the
  words themselves.\<close>

theorem typed_words_are_the_keywords:
  assumes "keywords_inv kws" "ws \<noteq> []" "\<forall>w\<in>set ws. w \<noteq> [] \<and> CHR '' '' \<notin> set w \<and> NUL \<notin> set w"
    and "length ws < 2 ^ 32" "length ws + length (intercalate CHR '' '' ws) < 2 ^ 64"
  shows "\<exists>line k1 k2. join_list always junk CHR '' '' ws = Inr (Some line)
    \<and> keywords_load_from_char always (cstr NUL line) kws = Inr k1
    \<and> keywords_load_from_argv always ws kws = Inr k2
    \<and> keywords_abs k1 = ws \<and> keywords_abs k2 = ws \<and> keywords_inv k1 \<and> keywords_inv k2"
proof -
  obtain line where l: "join_list always junk CHR '' '' ws = Inr (Some line)"
      "cstr NUL line = intercalate CHR '' '' ws"
    using join_list_correct [of ws "CHR '' ''" always junk] assms by auto
  have "words (intercalate CHR '' '' ws) = ws" using assms(3) by (intro words_intercalate) auto
  then show ?thesis
    using l keywords_load_from_char_ok [of kws "cstr NUL line"] keywords_load_from_argv_ok [of kws ws] assms
    by auto
qed

theorem typed_words_are_the_keywords_witness:
  "\<exists>line k1 k2. join_list always (\<lambda>i. NUL) CHR '' '' [''web'', ''mail''] = Inr (Some line)
    \<and> keywords_load_from_char always (cstr NUL line) keywords_initial = Inr k1
    \<and> keywords_load_from_argv always [''web'', ''mail''] keywords_initial = Inr k2
    \<and> keywords_abs k1 = [''web'', ''mail''] \<and> keywords_abs k2 = [''web'', ''mail'']
    \<and> keywords_inv k1 \<and> keywords_inv k2"
  by (rule typed_words_are_the_keywords) (simp_all add: keywords_initial_inv)

end
