(* ===== verification/Arc4random.thy ===== *)
theory Arc4random
  imports Prelude "HOL-Library.Multiset"
begin

text \<open>
  The random number generator of \<open>arc4random.c\<close>. The generator's static variables are one
  record. The bytes with which a stir mixes the state (\<open>/dev/urandom\<close>, or time, process id
  and whatever the stack held) come from the environment: \<open>rdat k\<close> is the content of the
  local \<open>rdat\<close> at the k-th stir, and the record counts the stirs.
\<close>

record arc4 =
  rs_i :: u8
  rs_j :: u8
  rs_s :: "u8 list"
  rs_initialized :: bool
  rs_stired :: bool
  arc4_count :: int
  stirs :: nat

definition KEYSIZE :: nat where "KEYSIZE = 128"

type_synonym entropy = "nat \<Rightarrow> u8 list"

definition arc4_init :: "arc4 \<Rightarrow> arc4" where
  "arc4_init g = g\<lparr>rs_s := map of_nat [0..<256], rs_i := 0, rs_j := 0\<rparr>"

text \<open>\<open>rs.s[rs.i] = rs.s[rs.j]; rs.s[rs.j] = si;\<close>\<close>

definition swap :: "u8 \<Rightarrow> u8 \<Rightarrow> u8 list \<Rightarrow> u8 list" where
  "swap i j s = s[unat i := s ! unat j, unat j := s ! unat i]"

text \<open>The body of the loop of \<open>arc4_addrandom\<close> for one \<open>n\<close>, then the loop from \<open>n\<close> up to 256.\<close>

definition addrandom_body :: "u8 list \<Rightarrow> nat \<Rightarrow> nat \<Rightarrow> arc4 \<Rightarrow> halt + arc4" where
  "addrandom_body dat datlen n g =
    (if datlen = 0 then Inl (Undefined ''division by zero'')
     else ebind (rd dat (n mod datlen)) (\<lambda>d.
       let i = rs_i g + 1;
           si = rs_s g ! unat i;
           j = rs_j g + si + d
       in Inr (g\<lparr>rs_i := i, rs_j := j, rs_s := swap i j (rs_s g)\<rparr>)))"

definition arc4_addrandom :: "u8 list \<Rightarrow> nat \<Rightarrow> arc4 \<Rightarrow> halt + arc4" where
  "arc4_addrandom dat datlen g =
    ebind (efold (addrandom_body dat datlen) [0..<256] (g\<lparr>rs_i := rs_i g - 1\<rparr>)) (\<lambda>g.
    Inr (g\<lparr>rs_j := rs_i g\<rparr>))"

definition arc4_getbyte :: "arc4 \<Rightarrow> u8 \<times> arc4" where
  "arc4_getbyte g =
    (let i = rs_i g + 1;
         si = rs_s g ! unat i;
         j = rs_j g + si;
         sj = rs_s g ! unat j;
         s = swap i j (rs_s g)
     in (s ! unat ((si + sj) AND 0xff), g\<lparr>rs_i := i, rs_j := j, rs_s := s\<rparr>))"

fun discard :: "nat \<Rightarrow> arc4 \<Rightarrow> arc4" where
  "discard 0 g = g"
| "discard (Suc n) g = discard n (snd (arc4_getbyte g))"

definition arc4_stir :: "entropy \<Rightarrow> arc4 \<Rightarrow> halt + arc4" where
  "arc4_stir rdat g =
    ebind (arc4_addrandom (rdat (stirs g)) KEYSIZE g) (\<lambda>g.
    let g = discard 1024 g in
    Inr (g\<lparr>arc4_count := 1600000, stirs := Suc (stirs g)\<rparr>))"

definition arc4_getword :: "arc4 \<Rightarrow> u32 \<times> arc4" where
  "arc4_getword g =
    (let (b1, g) = arc4_getbyte g; val = push_bit 24 (ucast b1);
         (b2, g) = arc4_getbyte g; val = val OR push_bit 16 (ucast b2);
         (b3, g) = arc4_getbyte g; val = val OR push_bit 8 (ucast b3);
         (b4, g) = arc4_getbyte g; val = val OR ucast b4
     in (val, g))"

definition arc4_check_init :: "arc4 \<Rightarrow> arc4" where
  "arc4_check_init g =
    (if \<not> rs_initialized g then (arc4_init g)\<lparr>rs_initialized := True\<rparr> else g)"

definition arc4_check_stir :: "entropy \<Rightarrow> arc4 \<Rightarrow> halt + arc4" where
  "arc4_check_stir rdat g =
    (if \<not> rs_stired g \<or> arc4_count g \<le> 0
     then ebind (arc4_stir rdat g) (\<lambda>g. Inr (g\<lparr>rs_stired := True\<rparr>))
     else Inr g)"

definition arc4random_stir :: "entropy \<Rightarrow> arc4 \<Rightarrow> halt + arc4" where
  "arc4random_stir rdat g =
    ebind (arc4_stir rdat (arc4_check_init g)) (\<lambda>g. Inr (g\<lparr>rs_stired := True\<rparr>))"

definition arc4random_addrandom :: "entropy \<Rightarrow> u8 list \<Rightarrow> nat \<Rightarrow> arc4 \<Rightarrow> halt + arc4" where
  "arc4random_addrandom rdat dat datlen g =
    ebind (arc4_check_stir rdat (arc4_check_init g)) (\<lambda>g.
    arc4_addrandom dat datlen g)"

definition arc4random :: "entropy \<Rightarrow> arc4 \<Rightarrow> halt + u32 \<times> arc4" where
  "arc4random rdat g =
    ebind (arc4_check_stir rdat (arc4_check_init g)) (\<lambda>g.
    let (rnd, g) = arc4_getword g in
    Inr (rnd, g\<lparr>arc4_count := arc4_count g - 4\<rparr>))"

text \<open>\<open>while (n--)\<close> fills the buffer from its end.\<close>

fun buf_loop :: "entropy \<Rightarrow> nat \<Rightarrow> u8 list \<Rightarrow> arc4 \<Rightarrow> halt + u8 list \<times> arc4" where
  "buf_loop rdat 0 buf g = Inr (buf, g)"
| "buf_loop rdat (Suc n) buf g =
    ebind (arc4_check_stir rdat g) (\<lambda>g.
    let (b, g) = arc4_getbyte g in
    ebind (wr buf n b) (\<lambda>buf.
    buf_loop rdat n buf (g\<lparr>arc4_count := arc4_count g - 1\<rparr>)))"

definition arc4random_buf :: "entropy \<Rightarrow> u8 list \<Rightarrow> nat \<Rightarrow> arc4 \<Rightarrow> halt + u8 list \<times> arc4" where
  "arc4random_buf rdat buf n g = buf_loop rdat n buf (arc4_check_init g)"

text \<open>
  Both ways of computing \<open>2**32 % upper_bound\<close>: with a 64-bit \<open>unsigned long\<close>, and the
  branch for 32-bit platforms.
\<close>

definition min_64 :: "u32 \<Rightarrow> u32" where
  "min_64 ub = ucast ((0x100000000 :: 64 word) mod ucast ub)"

definition min_32 :: "u32 \<Rightarrow> u32" where
  "min_32 ub =
    (if 0x80000000 < ub then 1 + NOT ub
     else ((0xffffffff - ub * 2) + 1) mod ub)"

text \<open>The rejection loop: \<open>None\<close> is a run that never returns.\<close>

partial_function (option) uniform_loop ::
    "entropy \<Rightarrow> u32 \<Rightarrow> arc4 \<Rightarrow> (halt + u32 \<times> arc4) option" where
  "uniform_loop rdat m g =
    (case arc4random rdat g of
       Inl e \<Rightarrow> Some (Inl e)
     | Inr (r, g) \<Rightarrow> if m \<le> r then Some (Inr (r, g)) else uniform_loop rdat m g)"

definition arc4random_uniform :: "entropy \<Rightarrow> u32 \<Rightarrow> arc4 \<Rightarrow> (halt + u32 \<times> arc4) option" where
  "arc4random_uniform rdat ub g =
    (if ub < 2 then Some (Inr (0, g))
     else map_option (\<lambda>x. case x of Inl e \<Rightarrow> Inl e | Inr (r, g) \<Rightarrow> Inr (r mod ub, g))
       (uniform_loop rdat (min_64 ub) g))"

section \<open>The state stays a permutation of the bytes\<close>

definition all_bytes :: "u8 multiset" where
  "all_bytes = mset (map of_nat [0..<256])"

definition arc4_perm :: "arc4 \<Rightarrow> bool" where
  "arc4_perm g \<longleftrightarrow> mset (rs_s g) = all_bytes"

lemma perm_length: "arc4_perm g \<Longrightarrow> length (rs_s g) = 256"
  unfolding arc4_perm_def all_bytes_def
  by (metis length_map length_upt diff_zero size_mset)

lemma swap_mset:
  assumes "length s = 256"
  shows "mset (swap i j s) = mset s"
proof -
  have "unat i < length s" "unat j < length s" using assms unat_u8_less by simp_all
  then show ?thesis unfolding swap_def by (intro mset_swap)
qed

lemma arc4_init_perm: "arc4_perm (arc4_init g)"
  by (simp add: arc4_perm_def arc4_init_def all_bytes_def)

lemma addrandom_body_perm:
  assumes "arc4_perm g" "addrandom_body dat datlen n g = Inr g'"
  shows "arc4_perm g'"
proof -
  obtain i j where "rs_s g' = swap i j (rs_s g)"
    using assms(2) by (auto simp: addrandom_body_def ebind_eq_Inr_iff Let_def split: if_splits)
  then show ?thesis using assms(1) perm_length [OF assms(1)] by (simp add: arc4_perm_def swap_mset)
qed

lemma efold_invariant:
  assumes "\<And>x a b. P a \<Longrightarrow> body x a = Inr b \<Longrightarrow> P b"
  shows "P a \<Longrightarrow> efold body xs a = Inr b \<Longrightarrow> P b"
  by (induction xs arbitrary: a) (auto simp: ebind_eq_Inr_iff intro: assms)

lemma arc4_addrandom_perm:
  assumes "arc4_perm g" "arc4_addrandom dat datlen g = Inr g'"
  shows "arc4_perm g'"
proof -
  obtain h where h: "efold (addrandom_body dat datlen) [0..<256] (g\<lparr>rs_i := rs_i g - 1\<rparr>) = Inr h"
      and g': "g' = h\<lparr>rs_j := rs_i h\<rparr>"
    using assms(2) by (auto simp: arc4_addrandom_def ebind_eq_Inr_iff simp del: efold.simps upt_Suc)
  have "arc4_perm (g\<lparr>rs_i := rs_i g - 1\<rparr>)" using assms(1) by (simp add: arc4_perm_def)
  then have "arc4_perm h" using h
    by (rule efold_invariant [where P = arc4_perm, rotated]) (erule (1) addrandom_body_perm)
  then show ?thesis by (simp add: g' arc4_perm_def)
qed

lemma arc4_getbyte_perm: "arc4_perm g \<Longrightarrow> arc4_perm (snd (arc4_getbyte g))"
  using perm_length [of g] by (simp add: arc4_getbyte_def Let_def arc4_perm_def swap_mset)

lemma discard_perm: "arc4_perm g \<Longrightarrow> arc4_perm (discard n g)"
  by (induction n arbitrary: g) (auto simp: arc4_getbyte_perm)

lemma arc4_stir_perm:
  assumes "arc4_perm g" "arc4_stir rdat g = Inr g'"
  shows "arc4_perm g' \<and> arc4_count g' = 1600000"
proof -
  obtain h where h: "arc4_addrandom (rdat (stirs g)) KEYSIZE g = Inr h"
      and g': "g' = (discard 1024 h)\<lparr>arc4_count := 1600000, stirs := Suc (stirs (discard 1024 h))\<rparr>"
    using assms(2) by (auto simp: arc4_stir_def ebind_eq_Inr_iff Let_def simp del: discard.simps)
  have "arc4_perm (discard 1024 h)"
    using arc4_addrandom_perm [OF assms(1) h] by (rule discard_perm)
  then show ?thesis by (simp add: g' arc4_perm_def del: discard.simps)
qed

text \<open>
  What every entry point of the generator relies on and keeps: an initialized generator
  holds a permutation, and a stirred one has a counter that the two ways of drawing output
  have not taken far below zero, so the signed counter cannot wrap.
\<close>

definition arc4_inv :: "arc4 \<Rightarrow> bool" where
  "arc4_inv g \<longleftrightarrow> (rs_initialized g \<longrightarrow> arc4_perm g) \<and>
     (rs_stired g \<longrightarrow> rs_initialized g \<and> -4 < arc4_count g \<and> arc4_count g \<le> 1600000)"

definition arc4_start :: arc4 where
  "arc4_start = \<lparr>rs_i = 0, rs_j = 0, rs_s = replicate 256 0, rs_initialized = False,
     rs_stired = False, arc4_count = 0, stirs = 0\<rparr>"

lemma arc4_inv_start: "arc4_inv arc4_start"
  by (simp add: arc4_inv_def arc4_start_def)

lemma check_init_inv: "arc4_inv g \<Longrightarrow> arc4_inv (arc4_check_init g) \<and> rs_initialized (arc4_check_init g)"
  using arc4_init_perm [of g]
  by (auto simp: arc4_inv_def arc4_check_init_def arc4_perm_def arc4_init_def)

lemma flags_addrandom:
  assumes "arc4_addrandom dat datlen g = Inr g'"
  shows "rs_initialized g' = rs_initialized g \<and> rs_stired g' = rs_stired g \<and> arc4_count g' = arc4_count g"
proof -
  let ?P = "\<lambda>h. rs_initialized h = rs_initialized g \<and> rs_stired h = rs_stired g \<and> arc4_count h = arc4_count g"
  obtain h where h: "efold (addrandom_body dat datlen) [0..<256] (g\<lparr>rs_i := rs_i g - 1\<rparr>) = Inr h"
      and g': "g' = h\<lparr>rs_j := rs_i h\<rparr>"
    using assms by (auto simp: arc4_addrandom_def ebind_eq_Inr_iff simp del: efold.simps upt_Suc)
  have "?P (g\<lparr>rs_i := rs_i g - 1\<rparr>)" by simp
  then have "?P h" using h
    by (rule efold_invariant [where P = ?P, rotated])
      (auto simp: addrandom_body_def ebind_eq_Inr_iff Let_def split: if_splits)
  then show ?thesis by (simp add: g')
qed

lemma flags_getbyte:
  "rs_initialized (snd (arc4_getbyte g)) = rs_initialized g"
  "rs_stired (snd (arc4_getbyte g)) = rs_stired g"
  "arc4_count (snd (arc4_getbyte g)) = arc4_count g"
  by (simp_all add: arc4_getbyte_def Let_def)

lemma flags_discard:
  "rs_initialized (discard n g) = rs_initialized g" "rs_stired (discard n g) = rs_stired g"
  by (induction n arbitrary: g) (simp_all add: flags_getbyte)

lemma flags_stir:
  "arc4_stir rdat g = Inr g' \<Longrightarrow> rs_initialized g' = rs_initialized g"
  by (auto simp: arc4_stir_def ebind_eq_Inr_iff Let_def flags_discard dest!: flags_addrandom
      simp del: discard.simps)

lemma check_stir_inv:
  assumes "arc4_inv g" "rs_initialized g" "arc4_check_stir rdat g = Inr g'"
  shows "arc4_perm g' \<and> rs_initialized g' \<and> rs_stired g' \<and> 0 < arc4_count g' \<and> arc4_count g' \<le> 1600000"
proof (cases "\<not> rs_stired g \<or> arc4_count g \<le> 0")
  case True
  then obtain h where "arc4_stir rdat g = Inr h" "g' = h\<lparr>rs_stired := True\<rparr>"
    using assms(3) by (auto simp: arc4_check_stir_def ebind_eq_Inr_iff split: if_splits)
  then show ?thesis using arc4_stir_perm [of g rdat h] flags_stir [of rdat g h] assms
    by (auto simp: arc4_inv_def arc4_perm_def)
next
  case False
  then show ?thesis using assms by (auto simp: arc4_check_stir_def arc4_inv_def)
qed

lemma getword_perm:
  "arc4_perm g \<Longrightarrow> arc4_perm (snd (arc4_getword g))"
  "rs_initialized (snd (arc4_getword g)) = rs_initialized g"
  "rs_stired (snd (arc4_getword g)) = rs_stired g"
  "arc4_count (snd (arc4_getword g)) = arc4_count g"
  by (simp_all add: arc4_getword_def Let_def case_prod_beta arc4_getbyte_perm flags_getbyte)

theorem arc4random_inv:
  assumes "arc4_inv g" "arc4random rdat g = Inr (r, g')"
  shows "arc4_inv g'"
proof -
  obtain h where h: "arc4_check_stir rdat (arc4_check_init g) = Inr h"
      and g': "g' = (snd (arc4_getword h))\<lparr>arc4_count := arc4_count (snd (arc4_getword h)) - 4\<rparr>"
    using assms(2) by (auto simp: arc4random_def ebind_eq_Inr_iff case_prod_beta)
  from check_stir_inv [OF _ _ h] check_init_inv [OF assms(1)]
  have i: "arc4_perm h" "rs_initialized h" "rs_stired h" "0 < arc4_count h" "arc4_count h \<le> 1600000"
    by auto
  then show ?thesis using getword_perm [of h]
    by (simp add: g' arc4_inv_def) (simp add: arc4_perm_def)
qed

text \<open>With 128 bytes of entropy at every stir the generator never stops the program.\<close>

lemma efold_total:
  assumes "\<And>x a. x \<in> set xs \<Longrightarrow> \<exists>b. body x a = Inr b"
  shows "\<exists>b. efold body xs a = Inr b"
  using assms
proof (induction xs arbitrary: a)
  case (Cons x xs)
  then obtain b where "body x a = Inr b" by fastforce
  with Cons show ?case by simp
qed simp

lemma arc4_addrandom_total:
  assumes "0 < datlen" "datlen \<le> length dat"
  shows "\<exists>g'. arc4_addrandom dat datlen g = Inr g'"
proof -
  have "\<exists>b. addrandom_body dat datlen n h = Inr b" for n h
  proof -
    have "n mod datlen < length dat" using assms by (meson less_le_trans mod_less_divisor)
    then show ?thesis using assms(1) by (simp add: addrandom_body_def Let_def)
  qed
  then obtain h where "efold (addrandom_body dat datlen) [0..<256] (g\<lparr>rs_i := rs_i g - 1\<rparr>) = Inr h"
    using efold_total by metis
  then show ?thesis by (simp add: arc4_addrandom_def)
qed

lemma check_stir_total:
  assumes "\<forall>k. length (rdat k) = KEYSIZE"
  shows "\<exists>g'. arc4_check_stir rdat g = Inr g'"
proof -
  obtain h where "arc4_addrandom (rdat (stirs g)) KEYSIZE g = Inr h"
    using arc4_addrandom_total [of KEYSIZE "rdat (stirs g)" g] assms by (auto simp: KEYSIZE_def)
  then show ?thesis by (simp add: arc4_check_stir_def arc4_stir_def Let_def del: discard.simps)
qed

lemma arc4random_total:
  assumes "\<forall>k. length (rdat k) = KEYSIZE"
  shows "\<exists>r g'. arc4random rdat g = Inr (r, g')"
proof -
  obtain h where "arc4_check_stir rdat (arc4_check_init g) = Inr h"
    using check_stir_total [OF assms] by blast
  then show ?thesis by (simp add: arc4random_def case_prod_beta)
qed

section \<open>The bound 2**32 mod upper_bound\<close>

lemma unat_neg_u32:
  fixes x :: u32
  assumes "x \<noteq> 0"
  shows "unat (- x) = 2 ^ 32 - unat x"
  using unat_sub_if_size [of 0 x] assms by (simp add: word_size unat_gt_0)

lemma unat_min_64:
  assumes "ub \<noteq> 0"
  shows "unat (min_64 ub) = 2 ^ 32 mod unat ub"
proof -
  have "unat ((0x100000000 :: 64 word) mod ucast ub) = 2 ^ 32 mod unat ub"
    by (simp add: unat_mod)
  moreover have "2 ^ 32 mod unat ub < 2 ^ 32"
    using assms unat_u32_less [of ub] by (intro less_trans [OF mod_less_divisor]) (auto simp: unat_gt_0)
  ultimately show ?thesis
    by (simp add: min_64_def unsigned_ucast_eq take_bit_nat_eq_self)
qed

text \<open>The branch for 32-bit platforms computes the same bound without 64-bit arithmetic.\<close>

theorem min_32_eq:
  assumes "ub \<noteq> 0"
  shows "min_32 ub = min_64 ub"
proof -
  let ?u = "unat ub"
  have u: "0 < ?u" "?u < 2 ^ 32" using assms unat_u32_less [of ub] by (simp_all add: unat_gt_0)
  have "unat (min_32 ub) = 2 ^ 32 mod ?u"
  proof (cases "0x80000000 < ub")
    case True
    then have big: "2 ^ 31 < ?u" by (simp add: word_less_nat_alt)
    have "1 + NOT ub = - ub" by (simp add: not_eq_complement)
    then have "unat (min_32 ub) = unat (- ub)" using True by (simp add: min_32_def)
    also have "\<dots> = 2 ^ 32 - ?u"
      using assms by (rule unat_neg_u32)
    also have "\<dots> = (2 ^ 32 - ?u) mod ?u" using big by simp
    also have "\<dots> = 2 ^ 32 mod ?u" using u by (simp add: le_mod_geq)
    finally show ?thesis .
  next
    case False
    then have small: "?u \<le> 2 ^ 31" by (simp add: word_less_nat_alt not_less)
    have e: "(0xffffffff - ub * 2) + 1 = - (ub * 2)" by simp
    have m: "min_32 ub = (- (ub * 2)) mod ub" using False by (simp only: min_32_def if_False e)
    have "unat (- (ub * 2)) = (2 ^ 32 - ?u * 2) mod 2 ^ 32"
    proof (cases "?u = 2 ^ 31")
      case True
      then have "ub = 0x80000000" by (simp add: word_unat_eq_iff)
      then show ?thesis by simp
    next
      case False
      then have "unat (ub * 2) = ?u * 2" using small by (simp add: unat_word_ariths)
      moreover from this u have "ub * 2 \<noteq> 0" by auto
      ultimately show ?thesis using unat_neg_u32 [of "ub * 2"] u by simp
    qed
    then have "unat (min_32 ub) = (2 ^ 32 - ?u * 2) mod 2 ^ 32 mod ?u" by (simp add: m unat_mod)
    also have "\<dots> = (2 ^ 32 - ?u * 2) mod ?u" using u small by simp
    also have "\<dots> = 2 ^ 32 mod ?u"
      using small le_mod_geq [of ?u "2 ^ 32"] le_mod_geq [of ?u "2 ^ 32 - ?u"] u by (simp add: mult_2_right)
    finally show ?thesis .
  qed
  then show ?thesis using assms by (simp add: word_unat_eq_iff unat_min_64)
qed

text \<open>More than half of all words are accepted, so a retry is needed with probability below 1/2.\<close>

theorem min_below_half:
  assumes "ub \<noteq> 0"
  shows "2 * unat (min_64 ub) < 2 ^ 32"
proof -
  let ?u = "unat ub"
  have u: "0 < ?u" "?u < 2 ^ 32" using assms unat_u32_less [of ub] by (simp_all add: unat_gt_0)
  have "2 ^ 32 mod ?u = (2 ^ 32 - ?u) mod ?u" using u by (simp add: le_mod_geq)
  then have "2 ^ 32 mod ?u \<le> 2 ^ 32 - ?u" by (metis mod_less_eq_dividend)
  moreover have "2 ^ 32 mod ?u < ?u" using u by simp
  ultimately have "2 * (2 ^ 32 mod ?u) < 2 ^ 32" using u(2) by linarith
  then show ?thesis using assms by (simp add: unat_min_64)
qed

section \<open>No modulo bias\<close>

lemma one_per_block:
  fixes u v m :: nat
  assumes "v < u"
  shows "card {r \<in> {m..<m + q * u}. r mod u = v} = q"
proof (induction q)
  case (Suc q)
  let ?B = "{r \<in> {m + q * u..<m + q * u + u}. r mod u = v}"
  define k where "k = m + q * u"
  define r0 where "r0 = k + (v + u - k mod u) mod u"
  have "r0 mod u = v"
  proof -
    have "r0 mod u = (k mod u + (v + u - k mod u)) mod u" by (simp add: r0_def mod_simps)
    also have "k mod u + (v + u - k mod u) = v + u" using assms by (simp add: less_imp_le trans_le_add2)
    finally show ?thesis using assms by simp
  qed
  moreover have "r0 \<in> {k..<k + u}" using assms by (auto simp: r0_def)
  moreover have "r = r0" if "r \<in> {k..<k + u}" "r mod u = v" for r
  proof -
    have "\<bar>int r - int r0\<bar> < int u" using that \<open>r0 \<in> _\<close> by auto
    moreover have "int u dvd int r - int r0"
      using that(2) \<open>r0 mod u = v\<close> by (metis mod_eq_dvd_iff zmod_int)
    ultimately show ?thesis
      using dvd_imp_le_int [of "int r - int r0" "int u"] by (cases "r = r0") auto
  qed
  ultimately have "?B = {r0}" unfolding k_def [symmetric] by blast
  then have B: "card ?B = 1" by simp
  have "{r \<in> {m..<m + Suc q * u}. r mod u = v} = {r \<in> {m..<m + q * u}. r mod u = v} \<union> ?B"
    by auto
  moreover have "{r \<in> {m..<m + q * u}. r mod u = v} \<inter> ?B = {}" by auto
  ultimately show ?case using Suc B by (simp add: card_Un_disjoint)
qed simp

theorem no_modulo_bias:
  assumes "2 \<le> ub" "v < ub"
  shows "card {r :: u32. min_64 ub \<le> r \<and> r mod ub = v} = (2 ^ 32 - unat (min_64 ub)) div unat ub"
proof -
  let ?u = "unat ub" and ?m = "unat (min_64 ub)"
  have u: "0 < ?u" "?u < 2 ^ 32" "ub \<noteq> 0"
    using assms unat_u32_less [of ub] by (auto simp: word_le_nat_alt)
  have m: "?m = 2 ^ 32 mod ?u" using u by (simp add: unat_min_64)
  define q where "q = 2 ^ 32 div ?u"
  have q: "2 ^ 32 = ?m + q * ?u" by (simp add: m q_def)
  have "bij_betw unat {r :: u32. min_64 ub \<le> r \<and> r mod ub = v}
      {r \<in> {?m..<?m + q * ?u}. r mod ?u = unat v}"
  proof (rule bij_betw_byWitness [where f' = of_nat])
    show "unat ` {r :: u32. min_64 ub \<le> r \<and> r mod ub = v} \<subseteq> {r \<in> {?m..<?m + q * ?u}. r mod ?u = unat v}"
      using unat_u32_less by (auto simp: word_le_nat_alt unat_mod simp flip: q)
    show "of_nat ` {r \<in> {?m..<?m + q * ?u}. r mod ?u = unat v} \<subseteq> {r :: u32. min_64 ub \<le> r \<and> r mod ub = v}"
      by (auto simp: word_le_nat_alt word_unat_eq_iff unat_mod unat_of_nat simp flip: q)
  qed (auto simp: unat_of_nat simp flip: q)
  then have "card {r :: u32. min_64 ub \<le> r \<and> r mod ub = v} = card {r \<in> {?m..<?m + q * ?u}. r mod ?u = unat v}"
    by (rule bij_betw_same_card)
  also have "\<dots> = q" using assms(2) by (intro one_per_block) (simp add: word_less_nat_alt)
  also have "\<dots> = (2 ^ 32 - ?m) div ?u" using q u by (metis diff_add_inverse nonzero_mult_div_cancel_right less_irrefl)
  finally show ?thesis .
qed

lemma card_below: "card {..<m :: u32} = unat m"
proof -
  have "unat ` {..<m} = {..<unat m}"
  proof (intro equalityI subsetI)
    fix n assume n: "n \<in> {..<unat m}"
    then have "unat (of_nat n :: u32) = n" using unat_u32_less [of m] by (simp add: unat_of_nat)
    then show "n \<in> unat ` {..<m}" using n by (intro image_eqI [of _ _ "of_nat n"]) (simp_all add: word_less_nat_alt)
  qed (auto simp: word_less_nat_alt)
  moreover have "inj_on unat {..<m}" by (simp add: inj_on_def word_unat_eq_iff)
  ultimately show ?thesis by (metis card_image card_lessThan)
qed

section \<open>The rejection loop\<close>

text \<open>The word drawn after \<open>k\<close> others.\<close>

fun nth_draw :: "entropy \<Rightarrow> nat \<Rightarrow> arc4 \<Rightarrow> halt + u32 \<times> arc4" where
  "nth_draw rdat 0 g = arc4random rdat g"
| "nth_draw rdat (Suc k) g = ebind (arc4random rdat g) (\<lambda>(r, g). nth_draw rdat k g)"

text \<open>The loop returns as soon as one of the words drawn is accepted.\<close>

lemma uniform_loop_returns:
  "nth_draw rdat k g = Inr (r, h) \<Longrightarrow> m \<le> r \<Longrightarrow> \<exists>x. uniform_loop rdat m g = Some x"
proof (induction k arbitrary: g)
  case 0
  then show ?case by (simp add: uniform_loop.simps [of rdat m g])
next
  case (Suc k)
  then obtain r' g' where d: "arc4random rdat g = Inr (r', g')" "nth_draw rdat k g' = Inr (r, h)"
    by (auto simp: ebind_eq_Inr_iff)
  with Suc have "\<exists>x. uniform_loop rdat m g' = Some x" by blast
  then show ?case using d by (simp add: uniform_loop.simps [of rdat m g])
qed

lemma uniform_loop_result:
  assumes "uniform_loop rdat m g = Some x"
  shows "case x of Inl e \<Rightarrow> True | Inr (r, h) \<Rightarrow> m \<le> r \<and> (arc4_inv g \<longrightarrow> arc4_inv h)"
proof (rule uniform_loop.raw_induct [where
      P = "\<lambda>rdat m g x. case x of Inl e \<Rightarrow> True | Inr (r, h) \<Rightarrow> m \<le> r \<and> (arc4_inv g \<longrightarrow> arc4_inv h)", OF _ assms])
  fix f rdat m g x
  assume IH: "\<And>rdat m g x. f rdat m g = Some x \<Longrightarrow>
      case x of Inl e \<Rightarrow> True | Inr (r, h) \<Rightarrow> m \<le> r \<and> (arc4_inv g \<longrightarrow> arc4_inv h)"
    and eq: "(case arc4random rdat g of Inl e \<Rightarrow> Some (Inl e)
       | Inr (r, g) \<Rightarrow> if m \<le> r then Some (Inr (r, g)) else f rdat m g) = Some x"
  show "case x of Inl e \<Rightarrow> True | Inr (r, h) \<Rightarrow> m \<le> r \<and> (arc4_inv g \<longrightarrow> arc4_inv h)"
  proof (cases "arc4random rdat g")
    case (Inl e)
    with eq show ?thesis by auto
  next
    case (Inr y)
    obtain r h where y: "y = (r, h)" by (cases y)
    show ?thesis
    proof (cases "m \<le> r")
      case True
      then show ?thesis using eq Inr y arc4random_inv [of g rdat r h] by auto
    next
      case False
      then have "f rdat m h = Some x" using eq Inr y by simp
      from IH [OF this] show ?thesis using Inr y arc4random_inv [of g rdat r h]
        by (auto split: sum.splits prod.splits)
    qed
  qed
qed

text \<open>The loop gives the first word that is not below \<open>m\<close>.\<close>

definition first_kept :: "entropy \<Rightarrow> (u32 \<Rightarrow> bool) \<Rightarrow> arc4 \<Rightarrow> u32 \<Rightarrow> arc4 \<Rightarrow> bool" where
  "first_kept rdat keep g r h \<longleftrightarrow> (\<exists>k. nth_draw rdat k g = Inr (r, h) \<and> keep r
     \<and> (\<forall>j<k. \<exists>r' h'. nth_draw rdat j g = Inr (r', h') \<and> \<not> keep r'))"

lemma first_kept_now: "arc4random rdat g = Inr (r, h) \<Longrightarrow> keep r \<Longrightarrow> first_kept rdat keep g r h"
  by (auto simp: first_kept_def intro!: exI [of _ 0])

lemma first_kept_later:
  assumes "arc4random rdat g = Inr (r', g')" "\<not> keep r'" "first_kept rdat keep g' r h"
  shows "first_kept rdat keep g r h"
proof -
  obtain k where k: "nth_draw rdat k g' = Inr (r, h)" "keep r" "\<forall>j<k. \<exists>r' h'. nth_draw rdat j g' = Inr (r', h') \<and> \<not> keep r'"
    using assms(3) by (auto simp: first_kept_def)
  have "\<exists>r' h'. nth_draw rdat j g = Inr (r', h') \<and> \<not> keep r'" if "j < Suc k" for j
    using assms(1,2) k(3) that by (cases j) auto
  then show ?thesis using k(1,2) assms(1) unfolding first_kept_def by (intro exI [of _ "Suc k"]) simp
qed

lemma uniform_loop_keeps:
  assumes "uniform_loop rdat m g = Some x"
  shows "case x of Inl e \<Rightarrow> True | Inr (r, h) \<Rightarrow> first_kept rdat (\<lambda>r. m \<le> r) g r h"
proof (rule uniform_loop.raw_induct [where
      P = "\<lambda>rdat m g x. case x of Inl e \<Rightarrow> True | Inr (r, h) \<Rightarrow> first_kept rdat (\<lambda>r. m \<le> r) g r h", OF _ assms])
  fix f rdat m g x
  assume IH: "\<And>rdat m g x. f rdat m g = Some x \<Longrightarrow>
      case x of Inl e \<Rightarrow> True | Inr (r, h) \<Rightarrow> first_kept rdat (\<lambda>r. m \<le> r) g r h"
    and eq: "(case arc4random rdat g of Inl e \<Rightarrow> Some (Inl e)
       | Inr (r, g) \<Rightarrow> if m \<le> r then Some (Inr (r, g)) else f rdat m g) = Some x"
  show "case x of Inl e \<Rightarrow> True | Inr (r, h) \<Rightarrow> first_kept rdat (\<lambda>r. m \<le> r) g r h"
  proof (cases "arc4random rdat g")
    case (Inr y)
    obtain r h where y: "y = (r, h)" by (cases y)
    show ?thesis
    proof (cases "m \<le> r")
      case True
      then show ?thesis using eq Inr y by (auto intro: first_kept_now)
    next
      case False
      then have "f rdat m h = Some x" using eq Inr y by simp
      from IH [OF this] show ?thesis using Inr y False first_kept_later [of rdat g r h "\<lambda>r. m \<le> r"]
        by (auto split: sum.splits prod.splits)
    qed
  next
    case (Inl e)
    with eq show ?thesis by auto
  qed
qed

lemma uniform_loop_iff: "uniform_loop rdat m g = Some (Inr (r, h)) \<longleftrightarrow> first_kept rdat (\<lambda>r. m \<le> r) g r h"
proof
  assume "first_kept rdat (\<lambda>r. m \<le> r) g r h"
  then obtain k where "nth_draw rdat k g = Inr (r, h)" "m \<le> r" "\<forall>j<k. \<exists>r' h'. nth_draw rdat j g = Inr (r', h') \<and> \<not> m \<le> r'"
    by (auto simp: first_kept_def)
  then show "uniform_loop rdat m g = Some (Inr (r, h))"
  proof (induction k arbitrary: g)
    case 0
    then show ?case by (simp add: uniform_loop.simps [of rdat m g])
  next
    case (Suc k)
    then obtain r' g' where d: "arc4random rdat g = Inr (r', g')" "nth_draw rdat k g' = Inr (r, h)"
      by (auto simp: ebind_eq_Inr_iff)
    have "\<not> m \<le> r'" using Suc.prems(3) d(1) by fastforce
    moreover have "\<exists>r' h'. nth_draw rdat j g' = Inr (r', h') \<and> \<not> m \<le> r'" if "j < k" for j
      using Suc.prems(3) [rule_format, of "Suc j"] d(1) that by simp
    ultimately show ?case using Suc.IH [OF d(2) Suc.prems(2)] d(1) by (simp add: uniform_loop.simps [of rdat m g])
  qed
qed (use uniform_loop_keeps in force)

theorem arc4random_uniform_bound:
  assumes "arc4random_uniform rdat ub g = Some (Inr (r, g'))" "0 < ub"
  shows "r < ub \<and> (arc4_inv g \<longrightarrow> arc4_inv g')"
proof (cases "ub < 2")
  case True
  then show ?thesis using assms by (simp add: arc4random_uniform_def)
next
  case False
  then obtain z where z: "uniform_loop rdat (min_64 ub) g = Some z"
      "(case z of Inl e \<Rightarrow> Inl e | Inr (r, g) \<Rightarrow> Inr (r mod ub, g)) = Inr (r, g')"
    using assms by (auto simp: arc4random_uniform_def)
  then obtain r0 where l: "uniform_loop rdat (min_64 ub) g = Some (Inr (r0, g'))" "r = r0 mod ub"
    by (cases z) auto
  have "r < ub" using assms(2) by (simp add: l(2) word_mod_less_divisor)
  then show ?thesis using uniform_loop_result [OF l(1)] by simp
qed

theorem arc4random_uniform_returns:
  assumes "nth_draw rdat k g = Inr (w, h)" "min_64 ub \<le> w"
  shows "\<exists>x. arc4random_uniform rdat ub g = Some x"
  using uniform_loop_returns [OF assms] by (auto simp: arc4random_uniform_def)

section \<open>The generator\<close>

text \<open>C31. With a device that delivers its \<open>KEYSIZE\<close> bytes the generator always returns a number, and
  its state stays a permutation of the 256 bytes with the counter of bytes before the next
  stirring in its range.\<close>

theorem generator_keeps_permutation:
  assumes "\<forall>k. length (rdat k) = KEYSIZE" "arc4_inv g"
  shows "\<exists>r g'. arc4random rdat g = Inr (r, g') \<and> arc4_inv g'"
  using arc4random_total [OF assms(1), of g] arc4random_inv [OF assms(2)] by blast

theorem generator_keeps_permutation_witness:
  "\<exists>r g'. arc4random (\<lambda>k. replicate 128 7) arc4_start = Inr (r, g') \<and> arc4_inv g'"
  by (rule generator_keeps_permutation) (simp_all add: KEYSIZE_def arc4_inv_start)

text \<open>C22. \<open>arc4random_uniform\<close> has no modulo bias: for a bound of at least two, its result is \<open>r mod ub\<close> for
  the first word \<open>r\<close> of the generator that it keeps, and for each \<open>v\<close> below the bound the same
  number of the words that it keeps, $2^{32}$ div \<open>ub\<close>, give \<open>v\<close>. More than half of all words are kept,
  and both ways of computing the least of them, on 64 and on 32 bits, agree.\<close>

theorem uniform_has_no_modulo_bias:
  assumes "2 \<le> ub"
  shows "(arc4random_uniform rdat ub g = Some (Inr (x, g')) \<longleftrightarrow>
        (\<exists>r. first_kept rdat (\<lambda>r. min_64 ub \<le> r) g r g' \<and> x = r mod ub))
    \<and> (\<forall>v<ub. card {r. min_64 ub \<le> r \<and> r mod ub = v} = 2 ^ 32 div unat ub)
    \<and> 2 * card {r. \<not> min_64 ub \<le> r} < 2 ^ 32 \<and> min_32 ub = min_64 ub"
proof (intro conjI allI impI)
  have ub: "ub \<noteq> 0" "\<not> ub < 2" "unat ub \<noteq> 0" using assms by (auto simp: unat_eq_0)
  show "arc4random_uniform rdat ub g = Some (Inr (x, g')) \<longleftrightarrow>
      (\<exists>r. first_kept rdat (\<lambda>r. min_64 ub \<le> r) g r g' \<and> x = r mod ub)"
    unfolding uniform_loop_iff [symmetric] using ub(2)
    by (cases "uniform_loop rdat (min_64 ub) g"; cases "the (uniform_loop rdat (min_64 ub) g)")
      (auto simp: arc4random_uniform_def)
  have m: "unat (min_64 ub) = 2 ^ 32 mod unat ub" using ub(1) by (rule unat_min_64)
  have "(2 ^ 32 - 2 ^ 32 mod unat ub) div unat ub = 2 ^ 32 div unat ub"
    using ub(3) by (simp only: minus_mod_eq_mult_div) (rule nonzero_mult_div_cancel_left)
  then show "card {r. min_64 ub \<le> r \<and> r mod ub = v} = 2 ^ 32 div unat ub" if "v < ub" for v
    using no_modulo_bias [OF assms that] m by simp
  have "{r. \<not> min_64 ub \<le> r} = {..<min_64 ub}" by auto
  then show "2 * card {r. \<not> min_64 ub \<le> r} < 2 ^ 32" using min_below_half [OF ub(1)] by (simp add: card_below)
  show "min_32 ub = min_64 ub" using min_32_eq [OF ub(1)] .
qed

theorem uniform_has_no_modulo_bias_witness:
  "(\<exists>r h. first_kept (\<lambda>k. replicate 128 7) (\<lambda>r. min_64 64 \<le> r) arc4_start r h
      \<and> arc4random_uniform (\<lambda>k. replicate 128 7) 64 arc4_start = Some (Inr (r mod 64, h)))
    \<and> card {r. min_64 94 \<le> r \<and> r mod 94 = 5} = 45691141 \<and> min_32 94 = min_64 94"
proof -
  obtain r h where d: "arc4random (\<lambda>k. replicate 128 7) arc4_start = Inr (r, h)"
    using arc4random_total [of "\<lambda>k. replicate 128 7" arc4_start] by (auto simp: KEYSIZE_def)
  have "first_kept (\<lambda>k. replicate 128 7) (\<lambda>r. min_64 64 \<le> r) arc4_start r h"
    by (rule first_kept_now [OF d]) (simp add: min_64_def)
  moreover from this have "arc4random_uniform (\<lambda>k. replicate 128 7) 64 arc4_start = Some (Inr (r mod 64, h))"
    using uniform_has_no_modulo_bias [of 64 "\<lambda>k. replicate 128 7" arc4_start "r mod 64" h] by auto
  ultimately show ?thesis using uniform_has_no_modulo_bias [of 94] by auto
qed



end
