(* ===== verification/Randpass.thy ===== *)
theory Randpass
  imports Arc4random Xmalloc
begin

text \<open>
  The password generator of \<open>randpass.c\<close>. It draws its numbers from \<open>arc4random_uniform\<close>,
  which is the one of \<open>arc4random.c\<close> or the C library's, as \<open>configure\<close> finds: the drawing
  function is a parameter, its contract is the locale \<open>uniform_source\<close>, and the contract is
  discharged for the generator of \<open>arc4random.c\<close>.
\<close>

definition MAX_PASSWORD_LENGTH :: int where "MAX_PASSWORD_LENGTH = 256"

type_synonym 's uniform = "u32 \<Rightarrow> 's \<Rightarrow> (halt + u32 \<times> 's) option"

text \<open>
  \<open>random_weight[j] = 1 + arc4random_uniform(20000)\<close> for all \<open>j\<close>: every weight is written
  before it is read, so the array is the list of the weights drawn.
\<close>

fun assign_weights :: "'s uniform \<Rightarrow> nat \<Rightarrow> 's \<Rightarrow> (halt + int list \<times> 's) option" where
  "assign_weights uniform 0 s = Some (Inr ([], s))"
| "assign_weights uniform (Suc k) s =
    tbind (uniform 20000 s) (\<lambda>(r, s).
    tbind (assign_weights uniform k s) (\<lambda>(ws, s).
    Some (Inr (uint (1 + r) # ws, s))))"

text \<open>The scan for the largest weight from index \<open>j\<close> on; ties keep the earlier element.\<close>

fun max_scan :: "int list \<Rightarrow> nat \<Rightarrow> int \<Rightarrow> nat \<Rightarrow> nat" where
  "max_scan [] j max_weight elt = elt"
| "max_scan (w # ws) j max_weight elt =
    (if w > max_weight then max_scan ws (Suc j) w j else max_scan ws (Suc j) max_weight elt)"

fun password_loop :: "'s uniform \<Rightarrow> wchar list \<Rightarrow> nat \<Rightarrow> nat \<Rightarrow> nat \<Rightarrow> wchar list \<Rightarrow> 's \<Rightarrow>
    (halt + wchar list \<times> 's) option" where
  "password_loop uniform cset setlen 0 i pw s = Some (Inr (pw, s))"
| "password_loop uniform cset setlen (Suc k) i pw s =
    tbind (assign_weights uniform setlen s) (\<lambda>(ws, s).
    tbind (Some (rd cset (max_scan ws 0 0 0))) (\<lambda>c.
    tbind (Some (wr pw i c)) (\<lambda>pw.
    password_loop uniform cset setlen k (Suc i) pw s)))"

text \<open>The result is the return code with the password buffer and the source's new state.\<close>

definition generate_password_from_set :: "allocator \<Rightarrow> 's uniform \<Rightarrow> wchar list \<Rightarrow> int \<Rightarrow> wchar list \<Rightarrow> 's \<Rightarrow>
    (halt + int \<times> wchar list \<times> 's) option" where
  "generate_password_from_set ok uniform password_string len cset s =
    (let setlen = strlen 0 cset in
     if len > MAX_PASSWORD_LENGTH \<or> len < 1 then Some (Inr (-1, password_string, s))
     else
       tbind (Some (xcalloc ok (of_nat setlen) 4)) (\<lambda>_.
       tbind (password_loop uniform cset setlen (nat len) 0 password_string s) (\<lambda>(pw, s).
       tbind (Some (wr pw (nat len) 0)) (\<lambda>pw.
       Some (Inr (0, pw, s))))))"

section \<open>The scan finds the first largest weight\<close>

lemma max_scan_spec:
  assumes "\<forall>i < length ws. 0 < ws ! i" "0 \<le> m"
  shows "(m < Max (insert 0 (set ws)) \<longrightarrow>
      (\<exists>i < length ws. max_scan ws j m elt = j + i \<and> ws ! i = Max (insert 0 (set ws)) \<and>
         (\<forall>k < i. ws ! k < ws ! i))) \<and>
    (Max (insert 0 (set ws)) \<le> m \<longrightarrow> max_scan ws j m elt = elt)"
  using assms
proof (induction ws arbitrary: j m elt)
  case (Cons w ws)
  define M where "M = Max (insert 0 (set ws))"
  have pos: "\<forall>i < length ws. 0 < ws ! i" "0 < w" using Cons.prems(1) by (force, force)
  have mx: "Max (insert 0 (set (w # ws))) = max w M"
    unfolding list.set insert_commute [of 0 w] M_def by (subst Max_insert) auto
  note IH = Cons.IH [OF pos(1), folded M_def]
  have up: "\<exists>i < length (w # ws). Suc j + k = j + i \<and> (w # ws) ! i = max w M \<and>
      (\<forall>k < i. (w # ws) ! k < (w # ws) ! i)"
    if "k < length ws" "ws ! k = M" "\<forall>i < k. ws ! i < M" "w < M" for k
    using that by (intro exI [of _ "Suc k"]) (auto simp: nth_Cons split: nat.splits)
  show ?case
  proof (cases "w > m")
    case True
    show ?thesis
    proof (cases "w < M")
      case lt: True
      then obtain i where i: "i < length ws" "max_scan ws (Suc j) w j = Suc j + i"
          "ws ! i = M" "\<forall>k < i. ws ! k < ws ! i"
        using IH [of w "Suc j" j] pos(2) by auto
      from up [OF i(1,3) _ lt] i(3,4) show ?thesis
        unfolding mx using True lt i(2) by simp
    next
      case False
      then have "max_scan ws (Suc j) w j = j"
        using IH [OF less_imp_le [OF pos(2)], of "Suc j" j] by (meson leI)
      then show ?thesis unfolding mx using True False by (intro conjI impI exI [of _ 0]) auto
    qed
  next
    case False
    show ?thesis
    proof (cases "m < M")
      case lt: True
      then obtain i where i: "i < length ws" "max_scan ws (Suc j) m elt = Suc j + i"
          "ws ! i = M" "\<forall>k < i. ws ! k < ws ! i"
        using IH [OF Cons.prems(2), of "Suc j" elt] by auto
      have "w < M" using False lt by simp
      from up [OF i(1,3) _ this] i(3,4) show ?thesis
        unfolding mx using False lt i(2) by simp
    next
      case ge: False
      then have "\<not> m < max w M" using False by simp
      moreover have "max_scan ws (Suc j) m elt = elt"
        using ge IH [OF Cons.prems(2), of "Suc j" elt] by simp
      ultimately show ?thesis unfolding mx using False by simp
    qed
  qed
qed simp

text \<open>With positive weights, as drawn, the chosen index is the first one of the largest weight.\<close>

theorem max_scan_first_max:
  assumes "ws \<noteq> []" "\<forall>w\<in>set ws. 0 < w"
  defines "i \<equiv> max_scan ws 0 0 0"
  shows "i < length ws \<and> (\<forall>k < length ws. ws ! k \<le> ws ! i) \<and> (\<forall>k < i. ws ! k < ws ! i)"
proof -
  have "0 < Max (insert 0 (set ws))"
    using assms(1,2) by (cases ws) (auto simp: Max_gr_iff)
  then obtain i' where "i' < length ws" "max_scan ws 0 0 0 = i'" "ws ! i' = Max (insert 0 (set ws))"
      "\<forall>k < i'. ws ! k < ws ! i'"
    using max_scan_spec [of ws 0 0 0] assms(2) by auto
  then show ?thesis by (auto simp: i_def)
qed

section \<open>The contract of the source of random numbers\<close>

locale uniform_source =
  fixes uniform :: "'s uniform"
    and source_inv :: "'s \<Rightarrow> bool"
  assumes uniform_less: "0 < ub \<Longrightarrow> uniform ub s = Some (Inr (r, s')) \<Longrightarrow> r < ub"
    and uniform_inv: "0 < ub \<Longrightarrow> source_inv s \<Longrightarrow> uniform ub s = Some (Inr (r, s')) \<Longrightarrow> source_inv s'"
begin

lemma assign_weights_spec:
  "assign_weights uniform k s = Some (Inr (ws, s')) \<Longrightarrow>
   length ws = k \<and> (\<forall>w\<in>set ws. 1 \<le> w \<and> w \<le> 20000) \<and> (source_inv s \<longrightarrow> source_inv s')"
proof (induction k arbitrary: s ws)
  case (Suc k)
  then obtain r s1 ws1 where d: "uniform 20000 s = Some (Inr (r, s1))"
      "assign_weights uniform k s1 = Some (Inr (ws1, s'))" "ws = uint (1 + r) # ws1"
    by (auto simp: tbind_eq_Inr_iff)
  have "r < 20000" using uniform_less [OF _ d(1)] by simp
  then have "uint r < 20000" by (simp add: word_less_def)
  then have "uint (1 + r) = 1 + uint r"
    by (simp add: uint_word_ariths)
  moreover have "0 \<le> uint r" by simp
  ultimately show ?case
    using Suc.IH [OF d(2)] uniform_inv [OF _ _ d(1)] \<open>uint r < 20000\<close> d(3) by auto
qed simp

lemma password_loop_spec:
  assumes "password_loop uniform cset n k i pw s = Some (Inr (pw', s'))"
    "0 < n" "n < length cset" "i + k < length pw"
  shows "length pw' = length pw \<and> take i pw' = take i pw \<and>
    (\<forall>j. i \<le> j \<and> j < i + k \<longrightarrow> pw' ! j \<in> set (take n cset)) \<and> (source_inv s \<longrightarrow> source_inv s')"
  using assms
proof (induction k arbitrary: i pw s)
  case (Suc k)
  then obtain ws s1 c pw1 where d: "assign_weights uniform n s = Some (Inr (ws, s1))"
      "rd cset (max_scan ws 0 0 0) = Inr c" "wr pw i c = Inr pw1"
      "password_loop uniform cset n k (Suc i) pw1 s1 = Some (Inr (pw', s'))"
    by (auto simp: tbind_eq_Inr_iff)
  note w = assign_weights_spec [OF d(1)]
  then have "ws \<noteq> []" "\<forall>w\<in>set ws. 0 < w" using Suc.prems(2) by auto
  from max_scan_first_max [OF this] have m: "max_scan ws 0 0 0 < n" using w by simp
  then have c: "c \<in> set (take n cset)"
    using d(2) Suc.prems(3) by (auto simp: in_set_conv_nth intro!: exI [of _ "max_scan ws 0 0 0"])
  have pw1: "pw1 = pw[i := c]" using d(3) Suc.prems(4) by simp
  have IH: "length pw' = length pw1 \<and> take (Suc i) pw' = take (Suc i) pw1 \<and>
    (\<forall>j. Suc i \<le> j \<and> j < Suc i + k \<longrightarrow> pw' ! j \<in> set (take n cset)) \<and> (source_inv s1 \<longrightarrow> source_inv s')"
    using d(4) Suc.prems by (intro Suc.IH) (auto simp: pw1)
  then have "take i pw' = take i pw"
    by (metis pw1 le_SucI min.absorb1 order.refl take_take take_update_cancel)
  moreover have "pw' ! i = c"
  proof -
    have "pw' ! i = take (Suc i) pw' ! i" by simp
    also have "\<dots> = c" using IH Suc.prems(4) by (simp add: pw1)
    finally show ?thesis .
  qed
  moreover have "pw' ! j \<in> set (take n cset)" if "i \<le> j" "j < i + Suc k" for j
    using that IH c \<open>pw' ! i = c\<close> by (cases "j = i") auto
  ultimately show ?case using IH w pw1 by auto
next
  case 0
  then show ?case by auto
qed

theorem generate_password:
  assumes "generate_password_from_set ok uniform pw len cset s = Some (Inr (rc, pw', s'))"
    "0 \<in> set cset" "len < int (length pw)"
  shows "(if len < 1 \<or> 256 < len then rc = -1 \<and> pw' = pw \<and> s' = s
    else rc = 0 \<and> pw' ! nat len = 0 \<and> cset \<noteq> [] \<and> length (cstr 0 pw') = nat len
      \<and> set (cstr 0 pw') \<subseteq> set (cstr 0 cset) \<and> (source_inv s \<longrightarrow> source_inv s'))"
proof (cases "len < 1 \<or> 256 < len")
  case True
  then show ?thesis using assms(1)
    by (auto simp: generate_password_from_set_def MAX_PASSWORD_LENGTH_def)
next
  case False
  let ?n = "strlen 0 cset"
  obtain b pw1 where d: "xcalloc ok (of_nat ?n) 4 = Inr b"
      "password_loop uniform cset ?n (nat len) 0 pw s = Some (Inr (pw1, s'))"
      "wr pw1 (nat len) 0 = Inr pw'" "rc = 0"
    using assms(1) False
    by (auto simp: generate_password_from_set_def MAX_PASSWORD_LENGTH_def tbind_eq_Inr_iff Let_def)
  have n: "0 < ?n" using d(1) by (cases ?n) (auto simp: xcalloc_def)
  have lt: "?n < length cset" using assms(2) by (rule strlen_less)
  have ln: "nat len < length pw" using assms(3) False by linarith
  from password_loop_spec [OF d(2) n lt] ln
  have p: "length pw1 = length pw" "\<forall>j < nat len. pw1 ! j \<in> set (take ?n cset)"
      "source_inv s \<longrightarrow> source_inv s'" by auto
  have tk: "take ?n cset = cstr 0 cset"
    by (simp add: cstr_def takeWhile_eq_take [symmetric])
  have pw': "pw' = pw1[nat len := 0]" using d(3) ln p(1) by simp
  have e: "pw' = take (nat len) pw1 @ 0 # drop (Suc (nat len)) pw1"
    unfolding pw' using ln p(1) by (intro upd_conv_take_nth_drop) simp
  have s: "set (take (nat len) pw1) \<subseteq> set (cstr 0 cset)"
  proof
    fix c assume "c \<in> set (take (nat len) pw1)"
    then obtain j where "j < nat len" "c = pw1 ! j" by (auto simp: in_set_conv_nth)
    then show "c \<in> set (cstr 0 cset)" using p(2) unfolding tk by simp
  qed
  then have "0 \<notin> set (take (nat len) pw1)" using cstr_no_nul [of 0 cset] by blast
  then have c: "cstr 0 pw' = take (nat len) pw1" by (simp add: e)
  have "pw' ! nat len = 0" "length (cstr 0 pw') = nat len" unfolding c using ln p(1) pw' by auto
  moreover have "cset \<noteq> []" using n by (auto simp: cstr_def)
  ultimately show ?thesis using False d(4) s p(3) c by simp
qed

end

interpretation arc4: uniform_source "arc4random_uniform rdat" arc4_inv
  by unfold_locales (auto dest: arc4random_uniform_bound)

section \<open>A source that always answers\<close>

text \<open>
  What the C library documents for its own \<open>arc4random_uniform\<close>: a call returns a number below
  the bound. With it the generator always returns.
\<close>

definition serves :: "'s uniform \<Rightarrow> bool" where
  "serves uniform \<longleftrightarrow> (\<forall>ub s. 0 < ub \<longrightarrow> (\<exists>r s'. uniform ub s = Some (Inr (r, s')) \<and> r < ub))"

lemma serves_source: "serves uniform \<Longrightarrow> uniform_source uniform (\<lambda>s. True)"
proof unfold_locales
  fix ub s r s'
  assume "serves uniform" "0 < ub" "uniform ub s = Some (Inr (r, s'))"
  moreover from this obtain q t where "uniform ub s = Some (Inr (q, t))" "q < ub"
    unfolding serves_def by blast
  ultimately show "r < ub" by simp
qed simp

lemma assign_weights_total:
  "serves uniform \<Longrightarrow> \<exists>ws s'. assign_weights uniform k s = Some (Inr (ws, s'))"
proof (induction k arbitrary: s)
  case (Suc k)
  obtain r s1 where r: "uniform 20000 s = Some (Inr (r, s1))"
  proof -
    have "(0 :: u32) < 20000" by simp
    then show thesis using Suc.prems that unfolding serves_def by blast
  qed
  then show ?case using Suc.IH [OF Suc.prems, of s1] by auto
qed simp

lemma password_loop_total:
  assumes "serves uniform" "0 < n" "n < length cset" "i + k < length pw"
  shows "\<exists>pw' s'. password_loop uniform cset n k i pw s = Some (Inr (pw', s'))"
  using assms
proof (induction k arbitrary: i pw s)
  case (Suc k)
  obtain ws s1 where a: "assign_weights uniform n s = Some (Inr (ws, s1))"
    using assign_weights_total [OF Suc.prems(1)] by blast
  note w = uniform_source.assign_weights_spec [OF serves_source [OF Suc.prems(1)] a]
  then have "ws \<noteq> []" "\<forall>w\<in>set ws. 0 < w" using Suc.prems(2) by auto
  from max_scan_first_max [OF this] have m: "max_scan ws 0 0 0 < n" using w by simp
  obtain pw' s' where "password_loop uniform cset n k (Suc i) (pw[i := cset ! max_scan ws 0 0 0]) s1 = Some (Inr (pw', s'))"
    using Suc.IH [OF Suc.prems(1-3), of "Suc i" "pw[i := cset ! max_scan ws 0 0 0]" s1] Suc.prems(4) by auto
  then show ?case using a m Suc.prems(3,4) by simp
qed simp

lemma generate_password_total:
  assumes "serves uniform" "0 \<in> set cset" "cstr 0 cset \<noteq> []" "length cset < 2 ^ 61" "\<forall>n. ok n"
    and "1 \<le> len" "len \<le> 256" "len < int (length pw)"
  shows "\<exists>pw' s'. generate_password_from_set ok uniform pw len cset s = Some (Inr (0, pw', s'))
    \<and> length (cstr 0 pw') = nat len \<and> set (cstr 0 pw') \<subseteq> set (cstr 0 cset)"
proof -
  let ?n = "strlen 0 cset"
  have n: "0 < ?n" "?n < length cset" using assms(3) strlen_less [OF assms(2)] by auto
  have u: "unat (of_nat ?n :: size_t) = ?n"
    using n(2) assms(4) by (simp add: unat_of_nat)
  then have "of_nat ?n \<noteq> (0 :: size_t)" using n(1) by auto
  then have x: "xcalloc ok (of_nat ?n) 4 = Inr (of_nat ?n * 4)"
    unfolding xcalloc_iff using assms(4,5) n(2) unat_mult_size_t [of "of_nat ?n" 4] u by simp
  have l: "0 + nat len < length pw" using assms(6,8) by linarith
  obtain pw1 s1 where p: "password_loop uniform cset ?n (nat len) 0 pw s = Some (Inr (pw1, s1))"
    using password_loop_total [OF assms(1) n l] by blast
  have "length pw1 = length pw"
    using uniform_source.password_loop_spec [OF serves_source [OF assms(1)] p n l] by simp
  then have g: "generate_password_from_set ok uniform pw len cset s = Some (Inr (0, pw1[nat len := 0], s1))"
    using assms(6,7) x p l by (simp add: generate_password_from_set_def MAX_PASSWORD_LENGTH_def Let_def)
  then show ?thesis
    using uniform_source.generate_password [OF serves_source [OF assms(1)] g assms(2,8)] assms(6,7) by simp
qed

section \<open>Lengths and sets that are refused\<close>

lemma generate_password_bad_length:
  "len < 1 \<or> 256 < len \<Longrightarrow>
   generate_password_from_set ok uniform pw len cset s = Some (Inr (-1, pw, s))"
  by (auto simp: generate_password_from_set_def MAX_PASSWORD_LENGTH_def)

lemma generate_password_empty_set:
  "1 \<le> len \<Longrightarrow> len \<le> 256 \<Longrightarrow>
   generate_password_from_set ok uniform pw len (0 # cset) s = Some (Inl (Errx ''zero size'' []))"
  by (simp add: generate_password_from_set_def MAX_PASSWORD_LENGTH_def cstr_Cons xcalloc_def)

section \<open>Ties favour the front of the set\<close>

text \<open>
  Counting the weight vectors for a set of two characters with weights up to \<open>N\<close>: the \<open>N\<close>
  ties all go to the first one.
\<close>

lemma pick_two: "0 < a \<Longrightarrow> 0 < b \<Longrightarrow> max_scan [a, b] 0 0 0 = (if b > a then 1 else 0)"
  by simp

end
