(* ===== verification/Charset.thy ===== *)
theory Charset
  imports Xmalloc
begin

text \<open>
  Multi-byte and wide strings. \<open>main\<close> calls \<open>setlocale (LC_ALL, "")\<close>, so the encoding is the
  user's: a \<open>charmap\<close> holds the two conversions of single characters, and
  \<open>wcstombs\<close> and \<open>mbstowcs\<close> are the C library's loops over them, including what they leave in
  the destination when a character cannot be converted. On top of them are
  \<open>wcs_duplicate_as_mbs\<close> and \<open>mbs_duplicate_as_wcs\<close> of \<open>str.c\<close>. The locale \<open>charset\<close> states
  the laws of a stateless encoding; it is interpreted for UTF-8 and for the \<open>C\<close> locale.
\<close>

record charmap =
  wctomb :: "wchar \<Rightarrow> string option"
  mbtowc :: "string \<Rightarrow> (wchar \<times> nat) option"

section \<open>The conversions of the C library\<close>

text \<open>With a null destination the two functions only measure; \<open>None\<close> is \<open>(size_t) -1\<close>.\<close>

fun wcstombs_len :: "charmap \<Rightarrow> wchar list \<Rightarrow> nat option" where
  "wcstombs_len cm [] = Some 0"
| "wcstombs_len cm (c # ws) =
    (case wctomb cm c of
       None \<Rightarrow> None
     | Some bs \<Rightarrow> map_option (\<lambda>n. length bs + n) (wcstombs_len cm ws))"

fun mbstowcs_len :: "charmap \<Rightarrow> string \<Rightarrow> nat option" where
  "mbstowcs_len cm [] = Some 0"
| "mbstowcs_len cm (b # s) =
    (case mbtowc cm (b # s) of
       None \<Rightarrow> None
     | Some (c, k) \<Rightarrow> map_option Suc (mbstowcs_len cm (drop (k - 1) s)))"

text \<open>Storing a run of elements at a position.\<close>

fun wr_all :: "'c list \<Rightarrow> nat \<Rightarrow> 'c list \<Rightarrow> halt + 'c list" where
  "wr_all b i [] = Inr b"
| "wr_all b i (c # cs) = ebind (wr b i c) (\<lambda>b. wr_all b (Suc i) cs)"

text \<open>
  With a destination, at most \<open>n\<close> elements are stored, the terminator only if it fits; a
  character that cannot be converted ends the run with what was stored so far.
\<close>

fun wcstombs :: "charmap \<Rightarrow> string \<Rightarrow> nat \<Rightarrow> nat \<Rightarrow> wchar list \<Rightarrow> halt + string \<times> nat option" where
  "wcstombs cm dst pos n [] =
    (if pos < n then ebind (wr dst pos NUL) (\<lambda>dst. Inr (dst, Some pos)) else Inr (dst, Some pos))"
| "wcstombs cm dst pos n (c # ws) =
    (case wctomb cm c of
       None \<Rightarrow> Inr (dst, None)
     | Some bs \<Rightarrow>
         if n < pos + length bs then Inr (dst, Some pos)
         else ebind (wr_all dst pos bs) (\<lambda>dst. wcstombs cm dst (pos + length bs) n ws))"

fun mbstowcs :: "charmap \<Rightarrow> wchar list \<Rightarrow> nat \<Rightarrow> nat \<Rightarrow> string \<Rightarrow> halt + wchar list \<times> nat option" where
  "mbstowcs cm dst pos n [] =
    (if pos < n then ebind (wr dst pos 0) (\<lambda>dst. Inr (dst, Some pos)) else Inr (dst, Some pos))"
| "mbstowcs cm dst pos n (b # s) =
    (if n \<le> pos then Inr (dst, Some pos)
     else case mbtowc cm (b # s) of
       None \<Rightarrow> Inr (dst, None)
     | Some (c, k) \<Rightarrow>
         ebind (wr dst pos c) (\<lambda>dst. mbstowcs cm dst (Suc pos) n (drop (k - 1) s)))"

section \<open>The conversions of str.c\<close>

definition wcs_duplicate_as_mbs :: "allocator \<Rightarrow> (nat \<Rightarrow> char) \<Rightarrow> charmap \<Rightarrow> wchar list \<Rightarrow>
    halt + string option" where
  "wcs_duplicate_as_mbs ok junk cm str =
    (case wcstombs_len cm str of
       None \<Rightarrow> Inr None
     | Some bytelen \<Rightarrow>
         ebind (xmalloc ok (of_nat (bytelen + 1))) (\<lambda>_.
         ebind (wcstombs cm (map junk [0..<bytelen + 1]) 0 (bytelen + 1) str) (\<lambda>(out, r).
         case r of None \<Rightarrow> Inr None | Some _ \<Rightarrow> Inr (Some out))))"

definition mbs_duplicate_as_wcs :: "allocator \<Rightarrow> charmap \<Rightarrow> string \<Rightarrow> halt + wchar list option" where
  "mbs_duplicate_as_wcs ok cm str =
    (case mbstowcs_len cm str of
       None \<Rightarrow> Inr None
     | Some bytelen \<Rightarrow>
         ebind (xcalloc ok (of_nat (bytelen + 1)) 4) (\<lambda>_.
         ebind (mbstowcs cm (replicate (bytelen + 1) 0) 0 (bytelen + 1) str) (\<lambda>(out, r).
         case r of None \<Rightarrow> Inr None | Some _ \<Rightarrow> Inr (Some out))))"

section \<open>Whole strings\<close>

text \<open>The conversion of a string as a function, and the longest part that converts.\<close>

fun encode :: "charmap \<Rightarrow> wchar list \<Rightarrow> string option" where
  "encode cm [] = Some []"
| "encode cm (c # ws) =
    (case wctomb cm c of None \<Rightarrow> None | Some bs \<Rightarrow> map_option ((@) bs) (encode cm ws))"

fun decode :: "charmap \<Rightarrow> string \<Rightarrow> wchar list option" where
  "decode cm [] = Some []"
| "decode cm (b # s) =
    (case mbtowc cm (b # s) of
       None \<Rightarrow> None
     | Some (c, k) \<Rightarrow> map_option ((#) c) (decode cm (drop (k - 1) s)))"

fun decode_prefix :: "charmap \<Rightarrow> string \<Rightarrow> wchar list" where
  "decode_prefix cm [] = []"
| "decode_prefix cm (b # s) =
    (case mbtowc cm (b # s) of
       None \<Rightarrow> []
     | Some (c, k) \<Rightarrow> c # decode_prefix cm (drop (k - 1) s))"

lemma wcstombs_len_encode: "wcstombs_len cm ws = map_option length (encode cm ws)"
  by (induction ws) (auto split: option.splits simp: option.map_comp o_def)

lemma mbstowcs_len_decode: "mbstowcs_len cm s = map_option length (decode cm s)"
  by (induction cm s rule: decode.induct) (auto split: option.splits simp: option.map_comp o_def)

lemma decode_prefix_eq: "decode cm s = Some ws \<Longrightarrow> decode_prefix cm s = ws"
  by (induction cm s arbitrary: ws rule: decode.induct) (auto split: option.splits prod.splits)

lemma decode_prefix_length: "length (decode_prefix cm s) \<le> length s"
proof (induction cm s rule: decode.induct)
  case (2 cm b s)
  show ?case
  proof (cases "mbtowc cm (b # s)")
    case (Some p)
    obtain c k where p: "p = (c, k)" by fastforce
    have "length (decode_prefix cm (drop (k - 1) s)) \<le> length (drop (k - 1) s)"
      using 2 Some p by blast
    then show ?thesis using Some p by simp
  qed simp
qed simp

lemma decode_prefix_strict: "decode cm s = None \<Longrightarrow> length (decode_prefix cm s) < length s"
proof (induction cm s rule: decode.induct)
  case (2 cm b s)
  show ?case
  proof (cases "mbtowc cm (b # s)")
    case (Some p)
    obtain c k where p: "p = (c, k)" by fastforce
    then have "length (decode_prefix cm (drop (k - 1) s)) < length (drop (k - 1) s)"
      using 2 Some by (metis (no_types, lifting) decode.simps(2) map_option_is_None option.simps(5) old.prod.case)
    then show ?thesis using Some p by simp
  qed simp
qed simp

lemma wr_all_ok:
  "i + length cs \<le> length b \<Longrightarrow> wr_all b i cs = Inr (take i b @ cs @ drop (i + length cs) b)"
proof (induction cs arbitrary: b i)
  case (Cons c cs)
  then show ?case
    by (simp add: take_Suc_conv_app_nth [of i] drop_Suc_Cons)
qed simp

text \<open>
  What \<open>mbstowcs\<close> leaves in a destination that is large enough: the part that converts, and
  after it a terminator only if everything was converted.
\<close>

lemma mbstowcs_spec:
  assumes "pos + length (decode_prefix cm s) < n" "n \<le> length dst"
  shows "mbstowcs cm dst pos n s =
    Inr (case decode cm s of
       None \<Rightarrow> (take pos dst @ decode_prefix cm s @ drop (pos + length (decode_prefix cm s)) dst, None)
     | Some ws \<Rightarrow> (take pos dst @ ws @ 0 # drop (Suc (pos + length ws)) dst, Some (pos + length ws)))"
  using assms
proof (induction cm dst pos n s rule: mbstowcs.induct)
  case (1 cm dst pos n)
  then show ?case by (simp add: upd_conv_take_nth_drop)
next
  case (2 cm dst pos n b s)
  show ?case
  proof (cases "mbtowc cm (b # s)")
    case None
    then show ?thesis using 2 by simp
  next
    case (Some p)
    obtain c k where p: "p = (c, k)" by fastforce
    have lt: "pos < length dst" using 2 by simp
    have "mbstowcs cm (dst[pos := c]) (Suc pos) n (drop (k - 1) s) =
      Inr (case decode cm (drop (k - 1) s) of
         None \<Rightarrow> (take (Suc pos) (dst[pos := c]) @ decode_prefix cm (drop (k - 1) s) @
             drop (Suc pos + length (decode_prefix cm (drop (k - 1) s))) (dst[pos := c]), None)
       | Some ws \<Rightarrow> (take (Suc pos) (dst[pos := c]) @ ws @ 0 # drop (Suc (Suc pos + length ws)) (dst[pos := c]),
             Some (Suc pos + length ws)))"
      using 2(2,3) Some p by (intro 2(1)) auto
    moreover have "take (Suc pos) (dst[pos := c]) = take pos dst @ [c]"
      using lt by (simp add: take_Suc_conv_app_nth)
    ultimately show ?thesis
      using Some p lt 2(2) by (auto split: option.splits)
  qed
qed

lemma wcstombs_ok:
  assumes "encode cm ws = Some bs" "pos + length bs < n" "n \<le> length dst"
  shows "wcstombs cm dst pos n ws =
    Inr (take pos dst @ bs @ NUL # drop (Suc (pos + length bs)) dst, Some (pos + length bs))"
  using assms
proof (induction cm dst pos n ws arbitrary: bs rule: wcstombs.induct)
  case (1 cm dst pos n)
  then show ?case by (simp add: upd_conv_take_nth_drop)
next
  case (2 cm dst pos n c ws)
  from 2(2) obtain b bs' where d: "wctomb cm c = Some b" "encode cm ws = Some bs'" "bs = b @ bs'"
    by (auto split: option.splits)
  have w: "wr_all dst pos b = Inr (take pos dst @ b @ drop (pos + length b) dst)"
    using 2(3,4) d(3) by (intro wr_all_ok) simp
  have "wcstombs cm (take pos dst @ b @ drop (pos + length b) dst) (pos + length b) n ws =
    Inr (take (pos + length b) (take pos dst @ b @ drop (pos + length b) dst) @ bs' @
         NUL # drop (Suc (pos + length b + length bs')) (take pos dst @ b @ drop (pos + length b) dst),
       Some (pos + length b + length bs'))"
    using 2(3,4) d by (intro 2(1) [OF d(1) _ w]) auto
  then show ?case using 2(3,4) d w by (simp add: ac_simps)
qed

lemma encode_append:
  "encode cm (xs @ ys) =
    (case (encode cm xs, encode cm ys) of (Some s, Some t) \<Rightarrow> Some (s @ t) | _ \<Rightarrow> None)"
  by (induction xs) (auto split: option.splits)

section \<open>Stateless encodings\<close>

locale charset =
  fixes cm :: charmap
  assumes wctomb_ne: "wctomb cm c = Some bs \<Longrightarrow> bs \<noteq> []"
    and wctomb_nul: "wctomb cm c = Some bs \<Longrightarrow> c \<noteq> 0 \<Longrightarrow> NUL \<notin> set bs"
    and mbtowc_wctomb: "wctomb cm c = Some bs \<Longrightarrow> mbtowc cm (bs @ s) = Some (c, length bs)"
    and wctomb_mbtowc: "mbtowc cm s = Some (c, k) \<Longrightarrow> 0 < k \<and> k \<le> length s \<and> wctomb cm c = Some (take k s)"
    and wctomb_zero: "wctomb cm 0 = Some [NUL]"
begin

lemma mbtowc_split:
  assumes "mbtowc cm s = Some (c, k)"
  obtains bs t where "s = bs @ t" "length bs = k" "bs \<noteq> []" "wctomb cm c = Some bs"
proof -
  from wctomb_mbtowc [OF assms] have t: "k \<le> length s" "wctomb cm c = Some (take k s)" by auto
  show thesis
    using wctomb_ne [OF t(2)] t by (intro that [of "take k s" "drop k s"]) auto
qed

lemma decode_append_char:
  assumes "wctomb cm c = Some bs"
  shows "decode cm (bs @ t) = map_option ((#) c) (decode cm t)"
proof -
  obtain b bs' where bs: "bs = b # bs'" using wctomb_ne [OF assms] by (cases bs) auto
  show ?thesis using mbtowc_wctomb [OF assms, of t] by (simp add: bs)
qed

lemma decode_encode: "encode cm ws = Some s \<Longrightarrow> decode cm (s @ t) = map_option ((@) ws) (decode cm t)"
proof (induction ws arbitrary: s)
  case Nil
  then show ?case by (cases "decode cm t") auto
next
  case (Cons c ws)
  then obtain bs s' where d: "wctomb cm c = Some bs" "encode cm ws = Some s'" "s = bs @ s'"
    by (auto split: option.splits)
  then show ?case using Cons.IH [OF d(2)]
    by (simp add: decode_append_char option.map_comp o_def)
qed

lemma encode_decode: "decode cm s = Some ws \<Longrightarrow> encode cm ws = Some s"
proof (induction "length s" arbitrary: s ws rule: less_induct)
  case less
  show ?case
  proof (cases s)
    case (Cons b s')
    then obtain c k where m: "mbtowc cm s = Some (c, k)"
      using less.prems by (auto split: option.splits)
    then obtain bs t where d: "s = bs @ t" "length bs = k" "bs \<noteq> []" "wctomb cm c = Some bs"
      by (rule mbtowc_split)
    obtain ws' where w: "decode cm t = Some ws'" "ws = c # ws'"
      using less.prems unfolding d(1) decode_append_char [OF d(4)] by auto
    have "length t < length s" using d(1,3) by simp
    then show ?thesis using less.hyps [OF _ w(1)] w(2) d by simp
  qed (use less.prems in simp)
qed

lemma decode_append: "decode cm s = Some ws \<Longrightarrow> decode cm (s @ t) = map_option ((@) ws) (decode cm t)"
  by (rule decode_encode [OF encode_decode])

lemma decode_nul_free:
  assumes "decode cm s = Some ws"
  shows "0 \<in> set ws \<longleftrightarrow> NUL \<in> set s"
proof -
  have "0 \<in> set ws \<longleftrightarrow> NUL \<in> set s" if "encode cm ws = Some s" for ws s
    using that
  proof (induction ws arbitrary: s)
    case (Cons c ws)
    then obtain bs s' where d: "wctomb cm c = Some bs" "encode cm ws = Some s'" "s = bs @ s'"
      by (auto split: option.splits)
    have "NUL \<in> set bs \<longleftrightarrow> c = 0" using wctomb_nul [OF d(1)] wctomb_zero d(1) by auto
    then show ?case using Cons.IH [OF d(2)] d(3) by auto
  qed simp
  then show ?thesis using encode_decode [OF assms] by blast
qed

lemma decode_prefix_encode: "\<exists>m t. s = m @ t \<and> encode cm (decode_prefix cm s) = Some m"
proof (induction "length s" arbitrary: s rule: less_induct)
  case less
  show ?case
  proof (cases "s = [] \<or> mbtowc cm s = None")
    case True
    then show ?thesis by (cases s) auto
  next
    case False
    then obtain c k where m: "mbtowc cm s = Some (c, k)" by auto
    then obtain bs t where d: "s = bs @ t" "length bs = k" "bs \<noteq> []" "wctomb cm c = Some bs"
      by (rule mbtowc_split)
    then obtain b bs' where bs: "bs = b # bs'" by (cases bs) auto
    have "decode_prefix cm s = c # decode_prefix cm t" using m d bs by auto
    moreover obtain m' t' where "t = m' @ t'" "encode cm (decode_prefix cm t) = Some m'"
      using less [of t] d(1,3) by auto
    ultimately show ?thesis using d by auto
  qed
qed

text \<open>The two duplications are inverse to each other.\<close>

lemma decode_length: "decode cm s = Some ws \<Longrightarrow> length ws \<le> length s"
  using decode_prefix_length [of cm s] decode_prefix_eq [of cm s ws] by simp

end

lemma wcs_duplicate_ok:
  assumes "encode cm ws = Some s" "\<forall>n. ok n" "length s + 1 < 2 ^ 64"
  shows "wcs_duplicate_as_mbs ok junk cm ws = Inr (Some (s @ [NUL]))"
proof -
  have "of_nat (length s + 1) \<noteq> (0 :: size_t)"
    using assms(3) unat_of_nat [where 'a = 64, of "length s + 1"] by auto
  moreover have "wcstombs cm (map junk [0..<length s + 1]) 0 (length s + 1) ws =
      Inr (s @ [NUL], Some (length s))"
    using wcstombs_ok [OF assms(1), of 0 "length s + 1" "map junk [0..<length s + 1]"] by simp
  ultimately show ?thesis
    using assms by (simp add: wcs_duplicate_as_mbs_def wcstombs_len_encode xmalloc_def del: upt_Suc)
qed

lemma wcs_duplicate_none_iff:
  assumes "\<forall>n. ok n" "\<forall>s. encode cm ws = Some s \<longrightarrow> length s + 1 < 2 ^ 64"
  shows "wcs_duplicate_as_mbs ok junk cm ws = Inr None \<longleftrightarrow> encode cm ws = None"
  using assms wcs_duplicate_ok [of cm ws _ ok junk]
  by (cases "encode cm ws") (auto simp: wcs_duplicate_as_mbs_def wcstombs_len_encode)

lemma mbs_duplicate_ok:
  assumes "decode cm s = Some ws" "\<forall>n. ok n" "4 * (length ws + 1) < 2 ^ 64"
  shows "mbs_duplicate_as_wcs ok cm s = Inr (Some (ws @ [0]))"
proof -
  have u: "unat (of_nat (length ws + 1) :: size_t) = length ws + 1"
    using assms(3) unat_of_nat [where 'a = 64, of "length ws + 1"] by simp
  then have "of_nat (length ws + 1) \<noteq> (0 :: size_t)" by auto
  then have x: "xcalloc ok (of_nat (length ws + 1)) 4 = Inr (of_nat (length ws + 1) * 4)"
    unfolding xcalloc_iff using assms(2,3) unat_mult_size_t [of "of_nat (length ws + 1)" 4]
    by (simp only: u) simp
  have "mbstowcs cm (replicate (length ws + 1) 0) 0 (length ws + 1) s =
      Inr (ws @ [0], Some (length ws))"
    using mbstowcs_spec [of 0 cm s "length ws + 1" "replicate (length ws + 1) 0"]
      decode_prefix_eq [OF assms(1)] assms(1) by simp
  then show ?thesis
    using x assms(1) by (simp add: mbs_duplicate_as_wcs_def mbstowcs_len_decode del: replicate_Suc)
qed

end
