(* ===== verification/Locales.thy ===== *)
theory Locales
  imports Charset
begin

text \<open>
  The two encodings a user of mdp meets: the \<open>C\<close> locale, where a program starts before
  \<open>setlocale\<close>, and UTF-8. Both satisfy the laws of the locale \<open>charset\<close>, so what is proved
  there holds for them; the round trips of \<open>str.c\<close> are stated for UTF-8.
\<close>

section \<open>The C locale\<close>

definition ascii_wctomb :: "wchar \<Rightarrow> string option" where
  "ascii_wctomb c = (if c < 128 then Some [char_of (unat c)] else None)"

definition ascii_mbtowc :: "string \<Rightarrow> (wchar \<times> nat) option" where
  "ascii_mbtowc s =
    (case s of
       [] \<Rightarrow> None
     | b # _ \<Rightarrow> if (of_char b :: nat) < 128 then Some (of_nat (of_char b), 1) else None)"

definition c_locale :: charmap where
  "c_locale = \<lparr>wctomb = ascii_wctomb, mbtowc = ascii_mbtowc\<rparr>"

lemma of_char_less: "(of_char b :: nat) < 256"
  using of_char_of [of "of_char b :: nat", symmetric] by (metis char_of_char mod_less_divisor of_char_of zero_less_numeral)

lemma of_char_mod [simp]: "(of_char b :: nat) mod 256 = of_char b"
  using of_char_less [of b] by simp

lemma char_of_eq_NUL: "n < 256 \<Longrightarrow> char_of (n :: nat) = NUL \<longleftrightarrow> n = 0"
proof -
  assume n: "n < 256"
  have "char_of n = NUL \<longleftrightarrow> (of_char (char_of n) :: nat) = of_char NUL"
    by (metis char_of_char)
  then show ?thesis using n by (simp add: of_char_of)
qed

lemma NUL_eq_char_of: "n < 256 \<Longrightarrow> NUL = char_of (n :: nat) \<longleftrightarrow> n = 0"
  using char_of_eq_NUL [of n] by (auto dest: sym)

lemma unat_of_nat_small: "n < 4294967296 \<Longrightarrow> unat (of_nat n :: wchar) = n"
  by (simp add: unat_of_nat)

interpretation c_locale: charset c_locale
proof
  fix c bs s k
  show "bs \<noteq> []" if "wctomb c_locale c = Some bs"
    using that by (auto simp: c_locale_def ascii_wctomb_def split: if_splits)
  show "NUL \<notin> set bs" if "wctomb c_locale c = Some bs" "c \<noteq> 0"
    using that unat_eq_zero [of c]
    by (auto simp: c_locale_def ascii_wctomb_def word_less_nat_alt NUL_eq_char_of char_of_eq_NUL split: if_splits)
  show "mbtowc c_locale (bs @ s) = Some (c, length bs)" if "wctomb c_locale c = Some bs"
    using that by (auto simp: c_locale_def ascii_wctomb_def ascii_mbtowc_def word_less_nat_alt of_char_of split: if_splits)
  show "0 < k \<and> k \<le> length s \<and> wctomb c_locale c = Some (take k s)" if "mbtowc c_locale s = Some (c, k)"
    using that by (auto simp: c_locale_def ascii_wctomb_def ascii_mbtowc_def word_less_nat_alt
        unat_of_nat_small split: if_splits list.splits)
  show "wctomb c_locale 0 = Some [NUL]"
    by (simp add: c_locale_def ascii_wctomb_def char_of_eq_NUL)
qed

section \<open>UTF-8\<close>

definition utf8_wctomb :: "wchar \<Rightarrow> string option" where
  "utf8_wctomb c =
    (let u = unat c in
     if u < 0x80 then Some [char_of u]
     else if u < 0x800 then Some [char_of (0xC0 + u div 64), char_of (0x80 + u mod 64)]
     else if u < 0x10000 then
       if 0xD800 \<le> u \<and> u < 0xE000 then None
       else Some [char_of (0xE0 + u div 4096), char_of (0x80 + u div 64 mod 64), char_of (0x80 + u mod 64)]
     else if u < 0x110000 then
       Some [char_of (0xF0 + u div 262144), char_of (0x80 + u div 4096 mod 64),
             char_of (0x80 + u div 64 mod 64), char_of (0x80 + u mod 64)]
     else None)"

text \<open>The payload of the continuation byte at index \<open>i\<close>.\<close>

definition cont :: "string \<Rightarrow> nat \<Rightarrow> nat option" where
  "cont s i =
    (if i < length s \<and> 0x80 \<le> (of_char (s ! i) :: nat) \<and> (of_char (s ! i) :: nat) < 0xC0
     then Some (of_char (s ! i) - 0x80) else None)"

definition utf8_mbtowc :: "string \<Rightarrow> (wchar \<times> nat) option" where
  "utf8_mbtowc s =
    (if s = [] then None
     else let b = (of_char (hd s) :: nat) in
     if b < 0x80 then Some (of_nat b, 1)
     else if 0xC2 \<le> b \<and> b < 0xE0 then
       (case cont s 1 of None \<Rightarrow> None | Some x \<Rightarrow> Some (of_nat ((b - 0xC0) * 64 + x), 2))
     else if 0xE0 \<le> b \<and> b < 0xF0 then
       (case (cont s 1, cont s 2) of
          (Some x, Some y) \<Rightarrow>
            let u = (b - 0xE0) * 4096 + x * 64 + y in
            if u < 0x800 \<or> 0xD800 \<le> u \<and> u < 0xE000 then None else Some (of_nat u, 3)
        | _ \<Rightarrow> None)
     else if 0xF0 \<le> b \<and> b < 0xF5 then
       (case (cont s 1, cont s 2, cont s 3) of
          (Some x, Some y, Some z) \<Rightarrow>
            let u = (b - 0xF0) * 262144 + x * 4096 + y * 64 + z in
            if u < 0x10000 \<or> 0x110000 \<le> u then None else Some (of_nat u, 4)
        | _ \<Rightarrow> None)
     else None)"

definition utf8 :: charmap where
  "utf8 = \<lparr>wctomb = utf8_wctomb, mbtowc = utf8_mbtowc\<rparr>"

lemma cont_SomeE:
  assumes "cont s i = Some x"
  obtains "i < length s" "x < 64" "s ! i = char_of (0x80 + x)"
proof -
  have c: "i < length s" "0x80 \<le> (of_char (s ! i) :: nat)" "(of_char (s ! i) :: nat) < 0xC0"
      "x = of_char (s ! i) - 0x80"
    using assms by (auto simp: cont_def split: if_splits)
  have "x < 64" using c(2-4) by linarith
  have "0x80 + x = of_char (s ! i)" using c(2,4) by linarith
  then have "s ! i = char_of (0x80 + x)" by (simp only: char_of_char)
  with \<open>x < 64\<close> c(1) show thesis by (intro that)
qed

lemma cont_char_of: "i < length s \<Longrightarrow> s ! i = char_of (0x80 + x) \<Longrightarrow> x < 64 \<Longrightarrow> cont s i = Some x"
  by (simp add: cont_def of_char_of)

lemma div_64:
  fixes u :: nat
  shows "u div 4096 = u div 64 div 64" "u div 262144 = u div 64 div 64 div 64"
  by (simp_all add: div_mult2_eq [symmetric])

lemma split_64:
  fixes u :: nat
  shows "u div 64 * 64 + u mod 64 = u"
    and "u div 4096 * 4096 + u div 64 mod 64 * 64 + u mod 64 = u"
    and "u div 262144 * 262144 + u div 4096 mod 64 * 4096 + u div 64 mod 64 * 64 + u mod 64 = u"
proof -
  have a: "64 * (u div 64) + u mod 64 = u"
      "64 * (u div 64 div 64) + u div 64 mod 64 = u div 64"
      "64 * (u div 64 div 64 div 64) + u div 64 div 64 mod 64 = u div 64 div 64"
    by (rule mult_div_mod_eq)+
  show "u div 64 * 64 + u mod 64 = u" using a by linarith
  show "u div 4096 * 4096 + u div 64 mod 64 * 64 + u mod 64 = u"
    unfolding div_64 using a by linarith
  show "u div 262144 * 262144 + u div 4096 mod 64 * 4096 + u div 64 mod 64 * 64 + u mod 64 = u"
    unfolding div_64 using a by linarith
qed

lemma join_64:
  fixes a x y z :: nat
  assumes "x < 64" "y < 64" "z < 64"
  shows "(a * 64 + x) div 64 = a" "(a * 64 + x) mod 64 = x"
    and "(a * 4096 + x * 64 + y) div 4096 = a" "(a * 4096 + x * 64 + y) div 64 mod 64 = x"
    and "(a * 4096 + x * 64 + y) mod 64 = y"
    and "(a * 262144 + x * 4096 + y * 64 + z) div 262144 = a"
    and "(a * 262144 + x * 4096 + y * 64 + z) div 4096 mod 64 = x"
    and "(a * 262144 + x * 4096 + y * 64 + z) div 64 mod 64 = y"
    and "(a * 262144 + x * 4096 + y * 64 + z) mod 64 = z"
proof -
  have r: "a * 4096 + x * 64 + y = (a * 64 + x) * 64 + y"
      "a * 262144 + x * 4096 + y * 64 + z = ((a * 64 + x) * 64 + y) * 64 + z"
    by simp_all
  have d: "(b * 64 + w) div 64 = b" "(b * 64 + w) mod 64 = w" if "w < 64" for b w :: nat
    using that by simp_all
  show "(a * 64 + x) div 64 = a" "(a * 64 + x) mod 64 = x" using assms d by blast+
  show "(a * 4096 + x * 64 + y) div 4096 = a" "(a * 4096 + x * 64 + y) div 64 mod 64 = x"
      "(a * 4096 + x * 64 + y) mod 64 = y"
    unfolding r div_64 using assms by (simp_all only: d)
  show "(a * 262144 + x * 4096 + y * 64 + z) div 262144 = a"
      "(a * 262144 + x * 4096 + y * 64 + z) div 4096 mod 64 = x"
      "(a * 262144 + x * 4096 + y * 64 + z) div 64 mod 64 = y"
      "(a * 262144 + x * 4096 + y * 64 + z) mod 64 = z"
    unfolding r div_64 using assms by (simp_all only: d)
qed

lemma utf8_wctomb_cases:
  assumes "utf8_wctomb c = Some bs"
  obtains (one) "unat c < 0x80" "bs = [char_of (unat c)]"
    | (two) "0x80 \<le> unat c" "unat c < 0x800"
        "bs = [char_of (0xC0 + unat c div 64), char_of (0x80 + unat c mod 64)]"
    | (three) "0x800 \<le> unat c" "unat c < 0x10000" "unat c < 0xD800 \<or> 0xE000 \<le> unat c"
        "bs = [char_of (0xE0 + unat c div 4096), char_of (0x80 + unat c div 64 mod 64),
               char_of (0x80 + unat c mod 64)]"
    | (four) "0x10000 \<le> unat c" "unat c < 0x110000"
        "bs = [char_of (0xF0 + unat c div 262144), char_of (0x80 + unat c div 4096 mod 64),
               char_of (0x80 + unat c div 64 mod 64), char_of (0x80 + unat c mod 64)]"
  using assms unfolding utf8_wctomb_def Let_def
  by (auto split: if_splits simp: not_less)

lemma utf8_wctomb_nul:
  assumes "utf8_wctomb c = Some bs"
  shows "bs \<noteq> [] \<and> (c \<noteq> 0 \<longrightarrow> NUL \<notin> set bs)"
proof -
  have m: "u mod 64 < 64" for u :: nat by simp
  from assms show ?thesis
  proof (cases rule: utf8_wctomb_cases)
    case one
    then show ?thesis using unat_eq_zero [of c] by (auto simp: NUL_eq_char_of)
  next
    case two
    then have "unat c div 64 < 32" by linarith
    then show ?thesis using two m [of "unat c"] by (simp add: NUL_eq_char_of)
  next
    case three
    then have "unat c div 4096 < 16" by linarith
    then show ?thesis using three m [of "unat c"] m [of "unat c div 64"] by (simp add: NUL_eq_char_of)
  next
    case four
    then have "unat c div 262144 < 5" by linarith
    then show ?thesis using four m [of "unat c"] m [of "unat c div 64"] m [of "unat c div 4096"]
      by (simp add: NUL_eq_char_of)
  qed
qed

lemma utf8_decode_encode:
  assumes "utf8_wctomb c = Some bs"
  shows "utf8_mbtowc (bs @ s) = Some (c, length bs)"
proof -
  have ne: "bs @ s \<noteq> []" using utf8_wctomb_nul [OF assms] by simp
  from assms show ?thesis
  proof (cases rule: utf8_wctomb_cases)
    case one
    then show ?thesis by (simp add: utf8_mbtowc_def of_char_of)
  next
    case two
    have b: "2 \<le> unat c div 64" "unat c div 64 < 32" using two(1,2) by linarith+
    then have h: "(of_char (hd (bs @ s)) :: nat) = 0xC0 + unat c div 64"
      by (simp add: two(3) of_char_of)
    have k: "cont (bs @ s) 1 = Some (unat c mod 64)" by (rule cont_char_of) (simp_all add: two(3))
    show ?thesis unfolding utf8_mbtowc_def h k Let_def
      using ne b split_64(1) [of "unat c"] by (simp add: two(3))
  next
    case three
    have b: "unat c div 4096 < 16" using three(2) by linarith
    then have h: "(of_char (hd (bs @ s)) :: nat) = 0xE0 + unat c div 4096"
      by (simp add: three(4) of_char_of)
    have k: "cont (bs @ s) 1 = Some (unat c div 64 mod 64)" "cont (bs @ s) 2 = Some (unat c mod 64)"
      by (rule cont_char_of; simp add: three(4))+
    show ?thesis unfolding utf8_mbtowc_def h k Let_def
      using ne b three(1-3) split_64(2) [of "unat c"] by (auto simp: three(4))
  next
    case four
    have b: "unat c div 262144 < 5" using four(2) by linarith
    then have h: "(of_char (hd (bs @ s)) :: nat) = 0xF0 + unat c div 262144"
      by (simp add: four(3) of_char_of)
    have k: "cont (bs @ s) 1 = Some (unat c div 4096 mod 64)"
        "cont (bs @ s) 2 = Some (unat c div 64 mod 64)" "cont (bs @ s) 3 = Some (unat c mod 64)"
      by (rule cont_char_of; simp add: four(3) numeral_3_eq_3)+
    show ?thesis unfolding utf8_mbtowc_def h k Let_def
      using ne b four(1,2) split_64(3) [of "unat c"] by (simp add: four(3))
  qed
qed

lemma hd_char_of: "s \<noteq> [] \<Longrightarrow> (of_char (hd s) :: nat) = n \<Longrightarrow> s ! 0 = char_of n"
  by (cases s) auto

lemma take_map_nth: "n \<le> length s \<Longrightarrow> take n s = map ((!) s) [0..<n]"
  by (auto intro: nth_equalityI)

lemma take_nth:
  "0 < length s \<Longrightarrow> take 1 s = [s ! 0]" "1 < length s \<Longrightarrow> take 2 s = [s ! 0, s ! 1]"
  "2 < length s \<Longrightarrow> take 3 s = [s ! 0, s ! 1, s ! 2]"
  "3 < length s \<Longrightarrow> take 4 s = [s ! 0, s ! 1, s ! 2, s ! 3]"
  by (simp_all add: take_map_nth upt_conv_Cons numeral_2_eq_2 numeral_3_eq_3 Suc_le_eq)

lemma utf8_encode_decode:
  assumes "utf8_mbtowc s = Some (c, k)"
  shows "0 < k \<and> k \<le> length s \<and> utf8_wctomb c = Some (take k s)"
proof -
  define b where "b = (of_char (hd s) :: nat)"
  have ne: "s \<noteq> []" using assms by (auto simp: utf8_mbtowc_def)
  then have s0: "s ! 0 = char_of b" by (simp add: b_def hd_char_of)
  consider (one) "b < 0x80" "c = of_nat b" "k = 1"
    | (two) x where "0xC2 \<le> b" "b < 0xE0" "cont s 1 = Some x" "c = of_nat ((b - 0xC0) * 64 + x)" "k = 2"
    | (three) x y where "0xE0 \<le> b" "b < 0xF0" "cont s 1 = Some x" "cont s 2 = Some y"
        "c = of_nat ((b - 0xE0) * 4096 + x * 64 + y)" "k = 3"
        "0x800 \<le> (b - 0xE0) * 4096 + x * 64 + y"
        "(b - 0xE0) * 4096 + x * 64 + y < 0xD800 \<or> 0xE000 \<le> (b - 0xE0) * 4096 + x * 64 + y"
    | (four) x y z where "0xF0 \<le> b" "b < 0xF5" "cont s 1 = Some x" "cont s 2 = Some y" "cont s 3 = Some z"
        "c = of_nat ((b - 0xF0) * 262144 + x * 4096 + y * 64 + z)" "k = 4"
        "0x10000 \<le> (b - 0xF0) * 262144 + x * 4096 + y * 64 + z"
        "(b - 0xF0) * 262144 + x * 4096 + y * 64 + z < 0x110000"
    using assms ne unfolding utf8_mbtowc_def b_def [symmetric] Let_def
    by (auto simp: not_less split: if_splits option.splits)
  then show ?thesis
  proof cases
    case one
    moreover have "0 < length s" "1 \<le> length s" using ne by (simp_all add: Suc_leI)
    ultimately show ?thesis using s0 take_nth(1) [of s]
      by (simp add: utf8_wctomb_def unat_of_nat_small Let_def)
  next
    case two
    from two(3) obtain i: "1 < length s" "x < 64" "s ! 1 = char_of (0x80 + x)" by (rule cont_SomeE)
    define u where "u = (b - 0xC0) * 64 + x"
    have u: "u div 64 = b - 0xC0" "u mod 64 = x" "0x80 \<le> u" "u < 0x800"
      using i(2) two(1,2) join_64(1,2) [of x x x] by (auto simp: u_def)
    then have "utf8_wctomb c = Some [char_of b, char_of (0x80 + x)]"
      using two(1) by (simp add: utf8_wctomb_def two(4) u_def [symmetric] unat_of_nat_small)
    then show ?thesis using i take_nth(2) [of s] s0 two(5) by simp
  next
    case three
    from three(3) obtain i: "1 < length s" "x < 64" "s ! 1 = char_of (0x80 + x)" by (rule cont_SomeE)
    from three(4) obtain j: "2 < length s" "y < 64" "s ! 2 = char_of (0x80 + y)" by (rule cont_SomeE)
    define u where "u = (b - 0xE0) * 4096 + x * 64 + y"
    have u: "u div 4096 = b - 0xE0" "u div 64 mod 64 = x" "u mod 64 = y"
      using i(2) j(2) join_64(3-5) [of x y y] by (auto simp: u_def)
    have r: "0x800 \<le> u" "u < 0x10000" "u < 0xD800 \<or> 0xE000 \<le> u"
      using i(2) j(2) three(2,7,8) by (auto simp: u_def)
    then have "utf8_wctomb c = Some [char_of b, char_of (0x80 + x), char_of (0x80 + y)]"
      using three(1) u by (auto simp: utf8_wctomb_def three(5) u_def [symmetric] unat_of_nat_small)
    then show ?thesis using i j take_nth(3) [of s] s0 three(6) by simp
  next
    case four
    from four(3) obtain i: "1 < length s" "x < 64" "s ! 1 = char_of (0x80 + x)" by (rule cont_SomeE)
    from four(4) obtain j: "2 < length s" "y < 64" "s ! 2 = char_of (0x80 + y)" by (rule cont_SomeE)
    from four(5) obtain l: "3 < length s" "z < 64" "s ! 3 = char_of (0x80 + z)" by (rule cont_SomeE)
    define u where "u = (b - 0xF0) * 262144 + x * 4096 + y * 64 + z"
    have u: "u div 262144 = b - 0xF0" "u div 4096 mod 64 = x" "u div 64 mod 64 = y" "u mod 64 = z"
      using i(2) j(2) l(2) join_64(6-9) [of x y z] by (auto simp: u_def)
    have r: "0x10000 \<le> u" "u < 0x110000" using four(8,9) by (auto simp: u_def)
    then have "utf8_wctomb c = Some [char_of b, char_of (0x80 + x), char_of (0x80 + y), char_of (0x80 + z)]"
      using four(1) u by (simp add: utf8_wctomb_def four(6) u_def [symmetric] unat_of_nat_small)
    then show ?thesis using i j l take_nth(4) [of s] s0 four(7) by simp
  qed
qed

interpretation utf8: charset utf8
proof
  fix c bs s k
  show "bs \<noteq> []" "c \<noteq> 0 \<Longrightarrow> NUL \<notin> set bs" if "wctomb utf8 c = Some bs"
    using that utf8_wctomb_nul by (auto simp: utf8_def)
  show "mbtowc utf8 (bs @ s) = Some (c, length bs)" if "wctomb utf8 c = Some bs"
    using that utf8_decode_encode by (simp add: utf8_def)
  show "0 < k \<and> k \<le> length s \<and> wctomb utf8 c = Some (take k s)" if "mbtowc utf8 s = Some (c, k)"
    using that utf8_encode_decode by (simp add: utf8_def)
  show "wctomb utf8 0 = Some [NUL]"
    by (simp add: utf8_def utf8_wctomb_def char_of_eq_NUL)
qed

section \<open>Round trips of the conversions of str.c\<close>

text \<open>C29. In a UTF-8 locale a string that \<open>mbs_duplicate_as_wcs\<close> accepts is returned byte for
  byte by \<open>wcs_duplicate_as_mbs\<close>: the conversion to wide characters and back loses nothing.\<close>

theorem utf8_duplicate_roundtrip:
  assumes "mbs_duplicate_as_wcs ok utf8 s = Inr (Some w)" "NUL \<notin> set s" "\<forall>n. ok n"
    "4 * (length s + 1) < 2 ^ 64"
  shows "wcs_duplicate_as_mbs ok junk utf8 (cstr 0 w) = Inr (Some (s @ [NUL]))"
proof -
  obtain ws where ws: "decode utf8 s = Some ws"
    using assms(1) by (cases "decode utf8 s") (auto simp: mbs_duplicate_as_wcs_def mbstowcs_len_decode)
  have "length ws \<le> length s" by (rule utf8.decode_length [OF ws])
  then have "4 * (length ws + 1) < 2 ^ 64" using assms(4) by simp
  from mbs_duplicate_ok [OF ws assms(3) this] assms(1) have w: "w = ws @ [0]" by simp
  have "0 \<notin> set ws" using utf8.decode_nul_free [OF ws] assms(2) by simp
  then have "cstr 0 w = ws" by (simp add: w)
  moreover have "length s + 1 < 2 ^ 64" using assms(4) by simp
  ultimately show ?thesis using wcs_duplicate_ok [OF utf8.encode_decode [OF ws] assms(3)] by simp
qed

theorem utf8_duplicate_roundtrip_witness:
  "wcs_duplicate_as_mbs (\<lambda>n. True) (\<lambda>i. NUL) utf8 (cstr 0 [97, 233, 0]) =
    Inr (Some ([CHR ''a'', CHR 0xC3, CHR 0xA9] @ [NUL]))"
  by (rule utf8_duplicate_roundtrip [where ok = "\<lambda>n. True"])
    (simp_all add: mbs_duplicate_as_wcs_def xcalloc_def SIZE_MAX_def utf8_def utf8_mbtowc_def cont_def)

end
