(* ===== verification/Crc.thy ===== *)
theory Crc
  imports Prelude
begin

text \<open>
  The checksum of \<open>crc.c\<close>: the table, \<open>UPDATE\<close>, and \<open>CKSUM_Init\<close>, \<open>CKSUM_Update\<close>,
  \<open>CKSUM_Final\<close>, \<open>CKSUM_End\<close>. The lemmas relate the table-driven step to the bit-by-bit
  division by the polynomial of POSIX 1003.2, show which changes of a file the checksum
  cannot miss, and when the length loop of \<open>CKSUM_Final\<close> ends.
\<close>

section \<open>The code\<close>

definition crc32tab :: "u32 list" where
  "crc32tab = [
    0x00000000, 0x04c11db7, 0x09823b6e, 0x0d4326d9, 0x130476dc,
    0x17c56b6b, 0x1a864db2, 0x1e475005, 0x2608edb8, 0x22c9f00f,
    0x2f8ad6d6, 0x2b4bcb61, 0x350c9b64, 0x31cd86d3, 0x3c8ea00a,
    0x384fbdbd, 0x4c11db70, 0x48d0c6c7, 0x4593e01e, 0x4152fda9,
    0x5f15adac, 0x5bd4b01b, 0x569796c2, 0x52568b75, 0x6a1936c8,
    0x6ed82b7f, 0x639b0da6, 0x675a1011, 0x791d4014, 0x7ddc5da3,
    0x709f7b7a, 0x745e66cd, 0x9823b6e0, 0x9ce2ab57, 0x91a18d8e,
    0x95609039, 0x8b27c03c, 0x8fe6dd8b, 0x82a5fb52, 0x8664e6e5,
    0xbe2b5b58, 0xbaea46ef, 0xb7a96036, 0xb3687d81, 0xad2f2d84,
    0xa9ee3033, 0xa4ad16ea, 0xa06c0b5d, 0xd4326d90, 0xd0f37027,
    0xddb056fe, 0xd9714b49, 0xc7361b4c, 0xc3f706fb, 0xceb42022,
    0xca753d95, 0xf23a8028, 0xf6fb9d9f, 0xfbb8bb46, 0xff79a6f1,
    0xe13ef6f4, 0xe5ffeb43, 0xe8bccd9a, 0xec7dd02d, 0x34867077,
    0x30476dc0, 0x3d044b19, 0x39c556ae, 0x278206ab, 0x23431b1c,
    0x2e003dc5, 0x2ac12072, 0x128e9dcf, 0x164f8078, 0x1b0ca6a1,
    0x1fcdbb16, 0x018aeb13, 0x054bf6a4, 0x0808d07d, 0x0cc9cdca,
    0x7897ab07, 0x7c56b6b0, 0x71159069, 0x75d48dde, 0x6b93dddb,
    0x6f52c06c, 0x6211e6b5, 0x66d0fb02, 0x5e9f46bf, 0x5a5e5b08,
    0x571d7dd1, 0x53dc6066, 0x4d9b3063, 0x495a2dd4, 0x44190b0d,
    0x40d816ba, 0xaca5c697, 0xa864db20, 0xa527fdf9, 0xa1e6e04e,
    0xbfa1b04b, 0xbb60adfc, 0xb6238b25, 0xb2e29692, 0x8aad2b2f,
    0x8e6c3698, 0x832f1041, 0x87ee0df6, 0x99a95df3, 0x9d684044,
    0x902b669d, 0x94ea7b2a, 0xe0b41de7, 0xe4750050, 0xe9362689,
    0xedf73b3e, 0xf3b06b3b, 0xf771768c, 0xfa325055, 0xfef34de2,
    0xc6bcf05f, 0xc27dede8, 0xcf3ecb31, 0xcbffd686, 0xd5b88683,
    0xd1799b34, 0xdc3abded, 0xd8fba05a, 0x690ce0ee, 0x6dcdfd59,
    0x608edb80, 0x644fc637, 0x7a089632, 0x7ec98b85, 0x738aad5c,
    0x774bb0eb, 0x4f040d56, 0x4bc510e1, 0x46863638, 0x42472b8f,
    0x5c007b8a, 0x58c1663d, 0x558240e4, 0x51435d53, 0x251d3b9e,
    0x21dc2629, 0x2c9f00f0, 0x285e1d47, 0x36194d42, 0x32d850f5,
    0x3f9b762c, 0x3b5a6b9b, 0x0315d626, 0x07d4cb91, 0x0a97ed48,
    0x0e56f0ff, 0x1011a0fa, 0x14d0bd4d, 0x19939b94, 0x1d528623,
    0xf12f560e, 0xf5ee4bb9, 0xf8ad6d60, 0xfc6c70d7, 0xe22b20d2,
    0xe6ea3d65, 0xeba91bbc, 0xef68060b, 0xd727bbb6, 0xd3e6a601,
    0xdea580d8, 0xda649d6f, 0xc423cd6a, 0xc0e2d0dd, 0xcda1f604,
    0xc960ebb3, 0xbd3e8d7e, 0xb9ff90c9, 0xb4bcb610, 0xb07daba7,
    0xae3afba2, 0xaafbe615, 0xa7b8c0cc, 0xa379dd7b, 0x9b3660c6,
    0x9ff77d71, 0x92b45ba8, 0x9675461f, 0x8832161a, 0x8cf30bad,
    0x81b02d74, 0x857130c3, 0x5d8a9099, 0x594b8d2e, 0x5408abf7,
    0x50c9b640, 0x4e8ee645, 0x4a4ffbf2, 0x470cdd2b, 0x43cdc09c,
    0x7b827d21, 0x7f436096, 0x7200464f, 0x76c15bf8, 0x68860bfd,
    0x6c47164a, 0x61043093, 0x65c52d24, 0x119b4be9, 0x155a565e,
    0x18197087, 0x1cd86d30, 0x029f3d35, 0x065e2082, 0x0b1d065b,
    0x0fdc1bec, 0x3793a651, 0x3352bbe6, 0x3e119d3f, 0x3ad08088,
    0x2497d08d, 0x2056cd3a, 0x2d15ebe3, 0x29d4f654, 0xc5a92679,
    0xc1683bce, 0xcc2b1d17, 0xc8ea00a0, 0xd6ad50a5, 0xd26c4d12,
    0xdf2f6bcb, 0xdbee767c, 0xe3a1cbc1, 0xe760d676, 0xea23f0af,
    0xeee2ed18, 0xf0a5bd1d, 0xf464a0aa, 0xf9278673, 0xfde69bc4,
    0x89b8fd09, 0x8d79e0be, 0x803ac667, 0x84fbdbd0, 0x9abc8bd5,
    0x9e7d9662, 0x933eb0bb, 0x97ffad0c, 0xafb010b1, 0xab710d06,
    0xa6322bdf, 0xa2f33668, 0xbcb4666d, 0xb8757bda, 0xb5365d03,
    0xb1f740b4]"

type_synonym off_t = "64 word"   \<comment> \<open>signed: read with \<open>sint\<close>\<close>

record CKSUM_CTX =
  crc :: u32
  len :: off_t

definition CKSUM_DIGEST_STRING_LENGTH :: nat where
  "CKSUM_DIGEST_STRING_LENGTH = 10 + 1 + 19"

definition CKSUM_Init :: "CKSUM_CTX \<Rightarrow> CKSUM_CTX" where
  "CKSUM_Init ctx = ctx\<lparr>crc := 0, len := 0\<rparr>"

definition UPDATE :: "u32 \<Rightarrow> u32 \<Rightarrow> u32" where
  "UPDATE c byte = push_bit 8 c XOR crc32tab ! unat (drop_bit 24 c XOR byte)"

fun update_loop :: "u32 \<Rightarrow> u8 list \<Rightarrow> u32" where
  "update_loop c [] = c"
| "update_loop c (b # buf) = update_loop (UPDATE c (ucast b)) buf"

definition CKSUM_Update :: "CKSUM_CTX \<Rightarrow> u8 list \<Rightarrow> nat \<Rightarrow> CKSUM_CTX" where
  "CKSUM_Update ctx buf n =
    ctx\<lparr>crc := update_loop (crc ctx) (take n buf), len := len ctx + of_nat n\<rparr>"

text \<open>\<open>len >>= 8\<close> on a signed value is an arithmetic shift; the loop may run forever.\<close>

partial_function (option) final_loop :: "u32 \<Rightarrow> off_t \<Rightarrow> u32 option" where
  "final_loop c l =
    (if l = 0 then Some c
     else final_loop (UPDATE c (ucast (l AND 0xff))) (signed_drop_bit 8 l))"

definition CKSUM_Final :: "CKSUM_CTX \<Rightarrow> CKSUM_CTX option" where
  "CKSUM_Final ctx =
    (case final_loop (crc ctx) (len ctx) of
       None \<Rightarrow> None
     | Some c \<Rightarrow> Some (ctx\<lparr>crc := NOT c\<rparr>))"

text \<open>Decimal digits, as \<open>%u\<close> and \<open>%lld\<close> print them.\<close>

fun dec_digits :: "nat \<Rightarrow> string" where
  "dec_digits n =
    (if n < 10 then [char_of (48 + n)] else dec_digits (n div 10) @ [char_of (48 + n mod 10)])"

declare dec_digits.simps [simp del]

definition dec_int :: "int \<Rightarrow> string" where
  "dec_int i = (if i < 0 then CHR ''-'' # dec_digits (nat (- i)) else dec_digits (nat i))"

text \<open>
  \<open>CKSUM_End\<close>: with a null \<open>outstr\<close> the whole text is allocated (\<open>ok\<close> says whether
  \<open>asprintf\<close> succeeds), otherwise \<open>snprintf\<close> cuts it to the given size.
\<close>

definition CKSUM_End :: "bool \<Rightarrow> CKSUM_CTX \<Rightarrow> bool \<Rightarrow> (CKSUM_CTX \<times> string option) option" where
  "CKSUM_End ok ctx outstr_is_null =
    (case CKSUM_Final ctx of
       None \<Rightarrow> None
     | Some ctx \<Rightarrow>
       let text = dec_digits (unat (crc ctx)) @ '' '' @ dec_int (sint (len ctx)) in
       if outstr_is_null then Some (ctx, if ok then Some text else None)
       else Some (ctx, Some (take (CKSUM_DIGEST_STRING_LENGTH - 1) text)))"

text \<open>The checksum of a whole file, as the callers compute it.\<close>

definition cksum :: "u8 list \<Rightarrow> u32 option" where
  "cksum buf =
    map_option crc (CKSUM_Final (CKSUM_Update (CKSUM_Init \<lparr>crc = 0, len = 0\<rparr>) buf (length buf)))"

section \<open>Division by the polynomial, bit by bit\<close>

definition crc_bit :: "u32 \<Rightarrow> u32" where
  "crc_bit x = (if bit x 31 then push_bit 1 x XOR 0x04C11DB7 else push_bit 1 x)"

definition crc_byte :: "u32 \<Rightarrow> u32" where
  "crc_byte x = crc_bit (crc_bit (crc_bit (crc_bit (crc_bit (crc_bit (crc_bit (crc_bit x)))))))"

text \<open>The 256 leading bytes, written out so that the division below runs on numerals.\<close>

lemma leading_bytes: "map (\<lambda>i. push_bit 24 (of_nat i)) [0..<256] =
    ([0x00000000, 0x01000000, 0x02000000, 0x03000000, 0x04000000, 0x05000000, 0x06000000,
     0x07000000, 0x08000000, 0x09000000, 0x0a000000, 0x0b000000, 0x0c000000, 0x0d000000,
     0x0e000000, 0x0f000000, 0x10000000, 0x11000000, 0x12000000, 0x13000000, 0x14000000,
     0x15000000, 0x16000000, 0x17000000, 0x18000000, 0x19000000, 0x1a000000, 0x1b000000,
     0x1c000000, 0x1d000000, 0x1e000000, 0x1f000000, 0x20000000, 0x21000000, 0x22000000,
     0x23000000, 0x24000000, 0x25000000, 0x26000000, 0x27000000, 0x28000000, 0x29000000,
     0x2a000000, 0x2b000000, 0x2c000000, 0x2d000000, 0x2e000000, 0x2f000000, 0x30000000,
     0x31000000, 0x32000000, 0x33000000, 0x34000000, 0x35000000, 0x36000000, 0x37000000,
     0x38000000, 0x39000000, 0x3a000000, 0x3b000000, 0x3c000000, 0x3d000000, 0x3e000000,
     0x3f000000, 0x40000000, 0x41000000, 0x42000000, 0x43000000, 0x44000000, 0x45000000,
     0x46000000, 0x47000000, 0x48000000, 0x49000000, 0x4a000000, 0x4b000000, 0x4c000000,
     0x4d000000, 0x4e000000, 0x4f000000, 0x50000000, 0x51000000, 0x52000000, 0x53000000,
     0x54000000, 0x55000000, 0x56000000, 0x57000000, 0x58000000, 0x59000000, 0x5a000000,
     0x5b000000, 0x5c000000, 0x5d000000, 0x5e000000, 0x5f000000, 0x60000000, 0x61000000,
     0x62000000, 0x63000000, 0x64000000, 0x65000000, 0x66000000, 0x67000000, 0x68000000,
     0x69000000, 0x6a000000, 0x6b000000, 0x6c000000, 0x6d000000, 0x6e000000, 0x6f000000,
     0x70000000, 0x71000000, 0x72000000, 0x73000000, 0x74000000, 0x75000000, 0x76000000,
     0x77000000, 0x78000000, 0x79000000, 0x7a000000, 0x7b000000, 0x7c000000, 0x7d000000,
     0x7e000000, 0x7f000000, 0x80000000, 0x81000000, 0x82000000, 0x83000000, 0x84000000,
     0x85000000, 0x86000000, 0x87000000, 0x88000000, 0x89000000, 0x8a000000, 0x8b000000,
     0x8c000000, 0x8d000000, 0x8e000000, 0x8f000000, 0x90000000, 0x91000000, 0x92000000,
     0x93000000, 0x94000000, 0x95000000, 0x96000000, 0x97000000, 0x98000000, 0x99000000,
     0x9a000000, 0x9b000000, 0x9c000000, 0x9d000000, 0x9e000000, 0x9f000000, 0xa0000000,
     0xa1000000, 0xa2000000, 0xa3000000, 0xa4000000, 0xa5000000, 0xa6000000, 0xa7000000,
     0xa8000000, 0xa9000000, 0xaa000000, 0xab000000, 0xac000000, 0xad000000, 0xae000000,
     0xaf000000, 0xb0000000, 0xb1000000, 0xb2000000, 0xb3000000, 0xb4000000, 0xb5000000,
     0xb6000000, 0xb7000000, 0xb8000000, 0xb9000000, 0xba000000, 0xbb000000, 0xbc000000,
     0xbd000000, 0xbe000000, 0xbf000000, 0xc0000000, 0xc1000000, 0xc2000000, 0xc3000000,
     0xc4000000, 0xc5000000, 0xc6000000, 0xc7000000, 0xc8000000, 0xc9000000, 0xca000000,
     0xcb000000, 0xcc000000, 0xcd000000, 0xce000000, 0xcf000000, 0xd0000000, 0xd1000000,
     0xd2000000, 0xd3000000, 0xd4000000, 0xd5000000, 0xd6000000, 0xd7000000, 0xd8000000,
     0xd9000000, 0xda000000, 0xdb000000, 0xdc000000, 0xdd000000, 0xde000000, 0xdf000000,
     0xe0000000, 0xe1000000, 0xe2000000, 0xe3000000, 0xe4000000, 0xe5000000, 0xe6000000,
     0xe7000000, 0xe8000000, 0xe9000000, 0xea000000, 0xeb000000, 0xec000000, 0xed000000,
     0xee000000, 0xef000000, 0xf0000000, 0xf1000000, 0xf2000000, 0xf3000000, 0xf4000000,
     0xf5000000, 0xf6000000, 0xf7000000, 0xf8000000, 0xf9000000, 0xfa000000, 0xfb000000,
     0xfc000000, 0xfd000000, 0xfe000000, 0xff000000] :: u32 list)"
  by (simp add: upt_conv_Cons)

theorem crc32tab_is_division:
  "crc32tab = map crc_byte (map (\<lambda>i. push_bit 24 (of_nat i)) [0..<256])"
  unfolding leading_bytes crc32tab_def by (simp add: crc_byte_def crc_bit_def)

section \<open>The table-driven step is eight division steps\<close>

lemma len32: "LENGTH(32) = 32"
  by simp

lemma bit32_bound: "bit (w :: u32) n \<Longrightarrow> n < 32"
  using bit_imp_le_length [of w n] by simp

lemma bit_crc_bit: "bit (crc_bit z) n \<longleftrightarrow>
    n < 32 \<and> ((1 \<le> n \<and> bit z (n - 1)) \<noteq> (bit z 31 \<and> bit (0x04C11DB7 :: u32) n))"
proof -
  have p: "bit (push_bit 1 z) n \<longleftrightarrow> n < 32 \<and> 1 \<le> n \<and> bit z (n - 1)"
    by (auto simp only: bit_push_bit_iff possible_bit_word len32)
  show ?thesis
    by (auto simp only: crc_bit_def if_True if_False bit_xor_iff p dest: bit32_bound split: if_splits)
qed

lemma crc_bit_xor: "crc_bit (x XOR y) = crc_bit x XOR crc_bit y"
  by (rule bit_word_eqI) (auto simp only: bit_crc_bit bit_xor_iff)

lemma crc_bit_inj:
  assumes "crc_bit x = crc_bit y"
  shows "x = y"
proof -
  have "bit (crc_bit z) 0 = bit z 31" for z
    by (simp add: bit_crc_bit)
  then have top: "bit x 31 = bit y 31" using assms by metis
  have low: "bit x n = bit y n" if "n < 31" for n
  proof -
    have "bit (crc_bit x) (Suc n) = bit (crc_bit y) (Suc n)" using assms by simp
    then show ?thesis using that top by (simp add: bit_crc_bit) blast
  qed
  show ?thesis
  proof (rule bit_word_eqI)
    fix n assume "n < LENGTH(32)"
    then have "n < 31 \<or> n = 31" by auto
    then show "bit x n = bit y n" using low top by auto
  qed
qed

lemma crc_byte_xor: "crc_byte (x XOR y) = crc_byte x XOR crc_byte y"
  by (simp add: crc_byte_def crc_bit_xor)

lemma crc_byte_inj: "crc_byte x = crc_byte y \<Longrightarrow> x = y"
  unfolding crc_byte_def by (auto dest!: crc_bit_inj)

lemma crc_bit_small: "\<not> bit x 31 \<Longrightarrow> crc_bit x = push_bit 1 x"
  by (simp add: crc_bit_def)

definition low_bits :: "nat \<Rightarrow> u32 \<Rightarrow> bool" where
  "low_bits k x \<longleftrightarrow> (\<forall>n\<ge>k. \<not> bit x n)"

lemma crc_bit_shift:
  assumes "low_bits k x" "k < 32"
  shows "crc_bit x = push_bit 1 x" "low_bits (Suc k) (push_bit 1 x)"
  using assms 
  by (auto simp only: low_bits_def crc_bit_def bit_push_bit_iff possible_bit_word len32 split: if_splits)

lemma crc_bit_push:
  assumes "low_bits 24 x" "j < 8"
  shows "crc_bit (push_bit j x) = push_bit (Suc j) x"
proof -
  have "low_bits (24 + j) (push_bit j x)"
    using assms(1) by (auto simp only: low_bits_def bit_push_bit_iff possible_bit_word len32)
  then have "crc_bit (push_bit j x) = push_bit 1 (push_bit j x)"
    using assms(2) by (intro crc_bit_shift(1)) auto
  then show ?thesis by (simp only: push_bit_push_bit plus_1_eq_Suc)
qed

lemma crc_byte_small: "low_bits 24 x \<Longrightarrow> crc_byte x = push_bit 8 x"
  using crc_bit_push [of x 0] crc_bit_push [of x 1] crc_bit_push [of x 2] crc_bit_push [of x 3]
    crc_bit_push [of x 4] crc_bit_push [of x 5] crc_bit_push [of x 6] crc_bit_push [of x 7]
  by (simp only: crc_byte_def push_bit_0_id id_apply) (simp add: eval_nat_numeral)

lemma low_bitsD: "low_bits k x \<Longrightarrow> bit x n \<Longrightarrow> n < k"
  by (metis low_bits_def not_le)

lemma low_bits_unat:
  assumes "low_bits k x"
  shows "unat x < 2 ^ k"
proof -
  have "take_bit k x = x"
    by (rule bit_word_eqI) (use low_bitsD [OF assms] in \<open>auto simp: bit_take_bit_iff\<close>)
  then have "unat x = take_bit k (unat x)" by (metis unsigned_take_bit_eq)
  then show ?thesis by (metis take_bit_nat_less_exp)
qed

lemma xor_left_cancel: "(a :: u32) XOR b = a XOR c \<Longrightarrow> b = c"
proof -
  assume "a XOR b = a XOR c"
  then have "a XOR (a XOR b) = a XOR (a XOR c)" by simp
  then show "b = c" by (simp flip: xor.assoc)
qed

lemma low_bits_byte: "low_bits 8 (ucast (b :: u8) :: u32)"
  using bit_imp_le_length [of b] by (fastforce simp: low_bits_def bit_ucast_iff)

lemma crc32tab_nth: "i < 256 \<Longrightarrow> crc32tab ! i = crc_byte (push_bit 24 (of_nat i))"
  by (simp add: crc32tab_is_division)

theorem UPDATE_is_division:
  assumes "low_bits 8 byte"
  shows "UPDATE c byte = crc_byte (c XOR push_bit 24 byte)"
proof -
  define i where "i = drop_bit 24 c XOR byte"
  have "low_bits 8 i"
    using assms by (auto simp: i_def low_bits_def bit_xor_iff bit_drop_bit_eq dest!: bit32_bound)
  then have tab: "crc32tab ! unat i = crc_byte (push_bit 24 i)"
    using low_bits_unat [of 8 i] by (simp add: crc32tab_nth)
  have split: "c XOR push_bit 24 byte = push_bit 24 i XOR take_bit 24 c"
    by (rule bit_word_eqI)
      (auto simp only: i_def bit_xor_iff bit_push_bit_iff possible_bit_word len32 bit_drop_bit_eq
        bit_take_bit_iff comp_apply le_add_diff_inverse not_less)
  have "low_bits 24 (take_bit 24 c)" by (simp add: low_bits_def bit_take_bit_iff)
  then have "crc_byte (take_bit 24 c) = push_bit 8 (take_bit 24 c)" by (rule crc_byte_small)
  also have "\<dots> = push_bit 8 c"
    by (rule bit_word_eqI) (auto simp only: bit_push_bit_iff possible_bit_word len32 bit_take_bit_iff)
  finally show ?thesis
    unfolding split crc_byte_xor by (simp add: UPDATE_def tab flip: i_def) (simp add: xor.commute)
qed

lemma update_step: "update_loop c (b # buf) = update_loop (crc_byte (c XOR push_bit 24 (ucast b))) buf"
  by (simp add: UPDATE_is_division low_bits_byte)

lemma update_loop_append: "update_loop c (xs @ ys) = update_loop (update_loop c xs) ys"
  by (induction xs arbitrary: c) auto

lemma update_loop_inj: "update_loop c buf = update_loop d buf \<Longrightarrow> c = d"
proof (induction buf arbitrary: c d)
  case (Cons b buf)
  then have "crc_byte (c XOR push_bit 24 (ucast b)) = crc_byte (d XOR push_bit 24 (ucast b))"
    unfolding update_step by blast
  then have "c XOR push_bit 24 (ucast b) = d XOR push_bit 24 (ucast b)" by (rule crc_byte_inj)
  then show ?case by (metis xor_left_cancel xor.commute)
qed simp

section \<open>Bursts\<close>

fun pack :: "u8 list \<Rightarrow> u32" where
  "pack [] = 0"
| "pack (b # bs) = push_bit 24 (ucast b) XOR drop_bit 8 (pack bs)"

lemma pack_low: "n + 8 * length bs < 32 \<Longrightarrow> \<not> bit (pack bs) n"
proof (induction bs arbitrary: n)
  case (Cons b bs)
  then show ?case
    by (auto simp: bit_xor_iff bit_push_bit_iff bit_drop_bit_eq)
qed simp


lemma update_loop_pack:
  "length bs \<le> 4 \<Longrightarrow> update_loop c bs = (crc_byte ^^ length bs) (c XOR pack bs)"
proof (induction bs arbitrary: c)
  case (Cons b bs)
  have ge: "8 \<le> n" if "bit (pack bs) n" for n
    using pack_low [of n bs] Cons.prems that by (cases "8 \<le> n") auto
  have "low_bits 24 (drop_bit 8 (pack bs))"
    using bit32_bound by (fastforce simp: low_bits_def bit_drop_bit_eq)
  then have "crc_byte (drop_bit 8 (pack bs)) = push_bit 8 (drop_bit 8 (pack bs))"
    by (rule crc_byte_small)
  also have "\<dots> = pack bs"
    by (rule bit_word_eqI) (auto simp: bit_push_bit_iff bit_drop_bit_eq ge le_add_diff_inverse)
  finally have d: "crc_byte (drop_bit 8 (pack bs)) = pack bs" .
  have "update_loop c (b # bs) = (crc_byte ^^ length bs) (crc_byte (c XOR push_bit 24 (ucast b)) XOR pack bs)"
    using Cons by (simp add: update_step del: update_loop.simps)
  also have "crc_byte (c XOR push_bit 24 (ucast b)) XOR pack bs = crc_byte (c XOR pack (b # bs))"
    by (simp add: crc_byte_xor d xor.assoc)
  finally show ?case by (simp add: funpow_swap1)
qed simp

lemma pack_inj:
  "length xs = length ys \<Longrightarrow> length xs \<le> 4 \<Longrightarrow> pack xs = pack ys \<Longrightarrow> xs = ys"
proof (induction xs ys rule: list_induct2)
  case (Cons x xs y ys)
  have hi: "bit (pack (z # zs)) (24 + n) = bit z n" if "n < 8" for z zs n
    using that bit32_bound [of "pack zs"] by (auto simp: bit_xor_iff bit_push_bit_iff bit_drop_bit_eq bit_ucast_iff)
  have lo: "bit (pack (z # zs)) n = bit (pack zs) (8 + n)" if "n < 24" for z zs n
    using that by (auto simp: bit_xor_iff bit_push_bit_iff bit_drop_bit_eq)
  have "x = y"
  proof (rule bit_word_eqI)
    fix n assume "n < LENGTH(8)"
    then show "bit x n = bit y n" using hi [of n x xs] hi [of n y ys] Cons.prems(2) by simp
  qed
  moreover have "pack xs = pack ys"
  proof (rule bit_word_eqI)
    fix n assume n: "n < LENGTH(32)"
    show "bit (pack xs) n = bit (pack ys) n"
    proof (cases "n < 8")
      case True
      then show ?thesis using pack_low [of n xs] pack_low [of n ys] Cons.hyps Cons.prems(1) by simp
    next
      case False
      then show ?thesis using n lo [of "n - 8" x xs] lo [of "n - 8" y ys] Cons.prems(2) by simp
    qed
  qed
  ultimately show ?case using Cons by simp
qed simp

lemma crc_byte_pow_inj: "(crc_byte ^^ n) x = (crc_byte ^^ n) y \<Longrightarrow> x = y"
  by (induction n) (auto dest: crc_byte_inj)

theorem burst_changes_state:
  assumes "length ds = length es" "length ds \<le> 4"
    "update_loop c (xs @ ds @ ys) = update_loop c (xs @ es @ ys)"
  shows "ds = es"
proof -
  have "update_loop (update_loop c xs) ds = update_loop (update_loop c xs) es"
    using assms(3) unfolding update_loop_append by (rule update_loop_inj)
  then have "update_loop c xs XOR pack ds = update_loop c xs XOR pack es"
    using assms(1,2) by (simp add: update_loop_pack crc_byte_pow_inj)
  then have "pack ds = pack es"
    by (rule xor_left_cancel)
  then show ?thesis using assms(1,2) by (intro pack_inj)
qed

section \<open>The length loop\<close>

text \<open>The bytes of a length, least significant first, without leading zero bytes.\<close>

fun len_bytes :: "nat \<Rightarrow> u8 list" where
  "len_bytes n = (if n = 0 then [] else of_nat n # len_bytes (n div 256))"

declare len_bytes.simps [simp del]

lemma sint_nonneg: "unat (l :: off_t) < 2 ^ 63 \<Longrightarrow> sint l = int (unat l)"
proof -
  assume "unat l < 2 ^ 63"
  then have "int (unat l) < int (2 ^ 63)" by (simp only: of_nat_less_iff)
  then have "uint l < 2 ^ 63" by simp
  then have "signed_take_bit 63 (uint l) = uint l"
    by (intro signed_take_bit_int_eq_self) (simp_all add: order.trans [OF _ uint_nonnegative])
  then show ?thesis by (simp add: sint_uint)
qed

lemma shift_nonneg:
  fixes l :: off_t
  assumes "unat l < 2 ^ 63"
  shows "unat (signed_drop_bit 8 l) = unat l div 256"
proof -
  have s: "sint (signed_drop_bit 8 l) = int (unat l div 256)"
    using assms by (simp add: sint_signed_drop_bit_eq sint_nonneg drop_bit_eq_div zdiv_int)
  have "signed_drop_bit 8 l = word_of_int (sint (signed_drop_bit 8 l))" by simp
  also have "\<dots> = of_nat (unat l div 256)" by (simp only: s of_int_of_nat_eq)
  finally have "signed_drop_bit 8 l = of_nat (unat l div 256)" .
  moreover have "unat l div 256 < 2 ^ 64" using assms by simp
  ultimately show ?thesis by (simp add: unat_of_nat)
qed

lemma low_byte: "(ucast (l AND 0xff) :: u32) = ucast (of_nat (unat (l :: off_t)) :: u8)"
proof (rule bit_word_eqI)
  fix n assume "n < LENGTH(32)"
  have "(0xff :: off_t) = mask 8" by (simp add: mask_eq_exp_minus_1)
  then have "bit (0xff :: off_t) k \<longleftrightarrow> k < 8" for k
    by (simp only: bit_mask_iff possible_bit_word) auto
  then show "bit (ucast (l AND 0xff) :: u32) n = bit (ucast (of_nat (unat l) :: u8) :: u32) n"
    by (auto simp: bit_ucast_iff bit_and_iff bit_mask_iff of_nat_unat)
qed

theorem final_loop_nonneg:
  "unat l < 2 ^ 63 \<Longrightarrow> final_loop c l = Some (update_loop c (len_bytes (unat l)))"
proof (induction "unat l" arbitrary: l c rule: less_induct)
  case less
  show ?case
  proof (cases "l = 0")
    case True
    then show ?thesis by (simp add: final_loop.simps [of c 0] len_bytes.simps)
  next
    case False
    then have pos: "0 < unat l" by (simp add: unat_gt_0)
    let ?l = "signed_drop_bit 8 l"
    have u: "unat ?l = unat l div 256" using less.prems by (rule shift_nonneg)
    have "final_loop c l = final_loop (UPDATE c (ucast (l AND 0xff))) ?l"
      using False by (simp add: final_loop.simps [of c l])
    also have "\<dots> = Some (update_loop (UPDATE c (ucast (l AND 0xff))) (len_bytes (unat ?l)))"
      using pos less.prems by (intro less.hyps) (auto simp: u)
    also have "\<dots> = Some (update_loop c (len_bytes (unat l)))"
      unfolding u low_byte using pos by (simp add: len_bytes.simps [of "unat l"])
    finally show ?thesis .
  qed
qed

theorem final_loop_negative:
  assumes "sint l < 0"
  shows "final_loop c l = None"
proof -
  have "0 \<le> sint l" if r: "final_loop c l = Some r" for c l r
  proof (rule final_loop.raw_induct [where P = "\<lambda>c l r. 0 \<le> sint l", OF _ r])
    fix f c l r
    assume IH: "\<And>c l r. f c l = Some r \<Longrightarrow> 0 \<le> sint l"
      and eq: "(if l = 0 then Some c else f (UPDATE c (ucast (l AND 0xff))) (signed_drop_bit 8 l)) = Some r"
    show "0 \<le> sint l"
    proof (cases "l = 0")
      case False
      with eq have "0 \<le> sint (signed_drop_bit 8 l)" by (auto intro: IH)
      then show ?thesis by (simp add: sint_signed_drop_bit_eq)
    qed simp
  qed
  with assms show ?thesis by (cases "final_loop c l") (auto simp: not_le [symmetric])
qed

section \<open>Checksums of files\<close>

lemma CKSUM_Update_append:
  "CKSUM_Update (CKSUM_Update ctx xs (length xs)) ys (length ys) = CKSUM_Update ctx (xs @ ys) (length (xs @ ys))"
  by (simp add: CKSUM_Update_def update_loop_append add.assoc)

theorem cksum_eq:
  assumes "length buf < 2 ^ 63"
  shows "cksum buf = Some (NOT (update_loop 0 (buf @ len_bytes (length buf))))"
proof -
  have "unat (of_nat (length buf) :: off_t) = length buf"
    using assms by (simp add: unat_of_nat)
  then show ?thesis using assms
    by (simp add: cksum_def CKSUM_Init_def CKSUM_Update_def CKSUM_Final_def final_loop_nonneg update_loop_append)
qed

theorem cksum_detects_burst:
  assumes "length ds = length es" "length ds \<le> 4" "length (xs @ ds @ ys) < 2 ^ 63"
    "cksum (xs @ ds @ ys) = cksum (xs @ es @ ys)"
  shows "ds = es"
proof -
  have l: "length (xs @ es @ ys) = length (xs @ ds @ ys)" using assms(1) by simp
  have "update_loop 0 (xs @ ds @ (ys @ len_bytes (length (xs @ ds @ ys)))) =
      update_loop 0 (xs @ es @ (ys @ len_bytes (length (xs @ ds @ ys))))"
    using assms(3,4) l by (simp add: cksum_eq)
  then show ?thesis using assms(1,2) by (rule_tac burst_changes_state)
qed

lemma cksum_check: "cksum (map (\<lambda>c. of_nat (of_char c)) ''123456789'') = Some 930766865"
  by (simp add: cksum_eq len_bytes.simps update_step crc_byte_def crc_bit_def del: update_loop.simps(2))

section \<open>The properties of the checksum\<close>

text \<open>C23. The edit check of \<open>editor.c\<close> rests on the checksum: two files of the same length that
  differ in at most four adjacent bytes never have the same checksum.\<close>

theorem cksum_burst_detected:
  assumes "length ds = length es" "length ds \<le> 4" "length (xs @ ds @ ys) < 2 ^ 63" "ds \<noteq> es"
  shows "cksum (xs @ ds @ ys) \<noteq> cksum (xs @ es @ ys)"
  using cksum_detects_burst [OF assms(1-3)] assms(4) by blast

theorem cksum_burst_detected_witness:
  "cksum ([1, 2] @ [3, 4] @ [5]) \<noteq> cksum ([1, 2] @ [3, 6] @ [5])"
  by (rule cksum_burst_detected) simp_all

text \<open>C30. The table-driven step is the polynomial division: eight steps of the bitwise
  remainder by the generator, on the state with the input byte added at its top.\<close>

theorem table_step_is_polynomial_division:
  "UPDATE c (ucast (b :: u8)) = crc_byte (c XOR push_bit 24 (ucast b))"
  by (rule UPDATE_is_division) (auto simp: low_bits_def bit_ucast_iff dest: bit_imp_le_length)

text \<open>The loop that mixes the length into the checksum returns exactly for the lengths that
  are not negative as \<open>off_t\<close>: the arithmetic right shift of a negative length never reaches 0.\<close>

theorem final_loop_returns_iff:
  "(\<exists>r. final_loop c l = Some r) \<longleftrightarrow> 0 \<le> sint l"
proof (cases "sint l < 0")
  case True
  then show ?thesis by (simp add: final_loop_negative)
next
  case False
  then have "\<not> bit l 63" by (simp add: sint_uint signed_take_bit_negative_iff bit_simps)
  then have "n < 63" if "bit l n" "n < 64" for n
    using that by (cases "n = 63") auto
  then have "take_bit 63 l = l"
    by (intro bit_word_eqI) (auto simp: bit_take_bit_iff)
  then have "unat l < 2 ^ 63" by (metis take_bit_nat_less_exp unsigned_take_bit_eq)
  then show ?thesis using False by (auto simp: final_loop_nonneg)
qed

end
