(* ===== verification/Results.thy ===== *)
theory Results
  imports Strlib Locales Crc Keywords
begin

text \<open>
  The decrypted entries, \<open>results.c\<close>: one \<open>struct result\<close> per line of the password file, the
  global array \<open>results\<close>, loading from a stream with its checksum, and the filters that set
  \<open>visible\<close> from the keywords. A stream is the list of the bytes still to be read. The static
  buffers \<open>wline\<close> and \<open>mbs_line\<close> keep their contents from call to call, so they are passed in
  and returned. \<open>regcomp\<close> and \<open>regexec\<close> are parameters.
\<close>

section \<open>The code\<close>

definition KEYWORD_LENGTH :: nat where "KEYWORD_LENGTH = 50"

definition MAX_LINE_SIZE :: nat where "MAX_LINE_SIZE = 16 * 1024"

record result =
  visible :: bool
  wcs_value :: "wchar list option"   \<comment> \<open>null when \<open>wcsdup\<close> failed\<close>
  mbs_value :: string
  wcs_len :: size_t
  mbs_len :: size_t

type_synonym wlist = "result carr"

definition results_initial :: wlist where
  "results_initial = ARRAY_INITIALIZER"

lemma results_initial_inv: "carr_inv results_initial" "carr_list results_initial = []"
  by (simp_all add: results_initial_def carr_inv_init)

text \<open>\<open>sizeof (struct result)\<close> is 40; \<open>None\<close> is the null pointer.\<close>

definition result_new :: "allocator \<Rightarrow> (nat \<Rightarrow> char) \<Rightarrow> charmap \<Rightarrow> wchar list \<Rightarrow> halt + result option" where
  "result_new ok junk cm value =
    ebind (xmalloc ok 40) (\<lambda>_.
    let w = wcsdup ok (value @ [0]) in
    ebind (wcs_duplicate_as_mbs ok junk cm value) (\<lambda>m.
    case m of
      None \<Rightarrow> Inr None
    | Some b \<Rightarrow>
        Inr (Some \<lparr>visible = True, wcs_value = map_option (cstr 0) w, mbs_value = cstr NUL b,
                   wcs_len = of_nat (length value), mbs_len = of_nat (strlen NUL b)\<rparr>)))"

definition results_visible_length :: "wlist \<Rightarrow> halt + u32" where
  "results_visible_length results =
    for_items ARRAY_ITEM results (unat (ARRAY_LENGTH results)) 0
      (\<lambda>result len. Inr (if visible result then len + 1 else len)) 0"

text \<open>
  \<open>kw\<close> is an automatic array, so it starts with arbitrary contents (\<open>kw0\<close>); the result of
  \<open>mbstowcs\<close> is not looked at, and \<open>kw\<close> is used as a string whatever it holds. \<open>lower\<close> is the locale's
  \<open>towlower\<close>.
\<close>

fun plain_loop :: "charmap \<Rightarrow> (wchar \<Rightarrow> wchar) \<Rightarrow> kwlist \<Rightarrow> wchar list \<Rightarrow> nat \<Rightarrow> nat \<Rightarrow> wchar list \<Rightarrow> halt + bool" where
  "plain_loop cm lower kws line 0 i kw = Inr True"
| "plain_loop cm lower kws line (Suc k) i kw =
    ebind (ARRAY_ITEM kws (of_nat i)) (\<lambda>p.
    case p of
      None \<Rightarrow> Inl (Undefined ''null pointer'')
    | Some s \<Rightarrow>
        ebind (mbstowcs cm kw 0 KEYWORD_LENGTH s) (\<lambda>(kw, _).
        ebind (getstr_at ''kw is not terminated'' 0 kw) (\<lambda>needle.
        ebind (wcscasestr lower line needle) (\<lambda>r.
        if r = None then Inr False else plain_loop cm lower kws line k (Suc i) kw))))"

definition line_matches_plain :: "charmap \<Rightarrow> (wchar \<Rightarrow> wchar) \<Rightarrow> (nat \<Rightarrow> wchar) \<Rightarrow> kwlist \<Rightarrow> wchar list \<Rightarrow> halt + bool" where
  "line_matches_plain cm lower kw0 kws line =
    plain_loop cm lower kws line (unat (ARRAY_LENGTH kws)) 0 (map kw0 [0..<KEYWORD_LENGTH])"

record 'r regex_lib =
  regcomp :: "string \<Rightarrow> 'r option"
  regexec :: "'r \<Rightarrow> string \<Rightarrow> bool"   \<comment> \<open>whether there is a match\<close>

fun regex_loop :: "charmap \<Rightarrow> 'r regex_lib \<Rightarrow> kwlist \<Rightarrow> wchar list \<Rightarrow> nat \<Rightarrow> nat \<Rightarrow> string \<Rightarrow>
    halt + bool \<times> string" where
  "regex_loop cm rx kws line 0 i mbs_line = Inr (True, mbs_line)"
| "regex_loop cm rx kws line (Suc k) i mbs_line =
    ebind (wcstombs cm mbs_line 0 MAX_LINE_SIZE line) (\<lambda>(mbs_line, _).
    ebind (ARRAY_ITEM kws (of_nat i)) (\<lambda>p.
    case p of
      None \<Rightarrow> Inl (Undefined ''null pointer'')
    | Some pattern \<Rightarrow>
        case regcomp rx pattern of
          None \<Rightarrow> Inl (Err ''line_matches_regex'' [])
        | Some preg \<Rightarrow>
            ebind (getstr_at ''mbs_line is not terminated'' NUL mbs_line) (\<lambda>text.
            if \<not> regexec rx preg text then Inr (False, mbs_line)
            else regex_loop cm rx kws line k (Suc i) mbs_line)))"

definition line_matches_regex :: "charmap \<Rightarrow> 'r regex_lib \<Rightarrow> kwlist \<Rightarrow> wchar list \<Rightarrow> string \<Rightarrow>
    halt + bool \<times> string" where
  "line_matches_regex cm rx kws line mbs_line =
    regex_loop cm rx kws line (unat (ARRAY_LENGTH kws)) 0 mbs_line"

definition line_matches :: "charmap \<Rightarrow> (wchar \<Rightarrow> wchar) \<Rightarrow> 'r regex_lib \<Rightarrow> (nat \<Rightarrow> wchar) \<Rightarrow> bool \<Rightarrow> kwlist \<Rightarrow>
    wchar list option \<Rightarrow> string \<Rightarrow> halt + bool \<times> string" where
  "line_matches cm lower rx kw0 cmd_regex kws line mbs_line =
    (case line of
       None \<Rightarrow> Inl (Undefined ''null pointer'')
     | Some line \<Rightarrow>
         if wc_at line = 35 then Inr (False, mbs_line)
         else if cmd_regex then line_matches_regex cm rx kws line mbs_line
         else ebind (line_matches_plain cm lower kw0 kws line) (\<lambda>b. Inr (b, mbs_line)))"

text \<open>The comparison is at the width of \<open>size_t\<close>, the assignment cuts to \<open>unsigned int\<close>.\<close>

definition get_max_length :: "wlist \<Rightarrow> halt + u32" where
  "get_max_length results =
    for_items ARRAY_ITEM results (unat (ARRAY_LENGTH results)) 0
      (\<lambda>result maxlen.
         if \<not> visible result then Inr maxlen
         else if ucast maxlen < wcs_len result then Inr (ucast (wcs_len result)) else Inr maxlen) 0"

fun filter_loop :: "charmap \<Rightarrow> (wchar \<Rightarrow> wchar) \<Rightarrow> 'r regex_lib \<Rightarrow> (nat \<Rightarrow> wchar) \<Rightarrow> bool \<Rightarrow> kwlist \<Rightarrow> nat \<Rightarrow> nat \<Rightarrow>
    wlist \<Rightarrow> string \<Rightarrow> halt + wlist \<times> string" where
  "filter_loop cm lower rx kw0 cmd_regex kws 0 i results mbs_line = Inr (results, mbs_line)"
| "filter_loop cm lower rx kw0 cmd_regex kws (Suc k) i results mbs_line =
    ebind (ARRAY_ITEM results (of_nat i)) (\<lambda>result.
    ebind (line_matches cm lower rx kw0 cmd_regex kws (wcs_value result) mbs_line) (\<lambda>(m, mbs_line).
    ebind (ARRAY_SET results (of_nat i) (result\<lparr>visible := if m then True else False\<rparr>)) (\<lambda>results.
    filter_loop cm lower rx kw0 cmd_regex kws k (Suc i) results mbs_line)))"

definition filter_results :: "charmap \<Rightarrow> (wchar \<Rightarrow> wchar) \<Rightarrow> 'r regex_lib \<Rightarrow> (nat \<Rightarrow> wchar) \<Rightarrow> bool \<Rightarrow> kwlist \<Rightarrow>
    wlist \<Rightarrow> string \<Rightarrow> halt + wlist \<times> string" where
  "filter_results cm lower rx kw0 cmd_regex kws results mbs_line =
    filter_loop cm lower rx kw0 cmd_regex kws (unat (ARRAY_LENGTH results)) 0 results mbs_line"

text \<open>\<open>fgets\<close> reads up to and including a newline, at most \<open>n - 1\<close> bytes.\<close>

definition NL :: char where "NL = CHR 0x0A"

definition fgets :: "nat \<Rightarrow> string \<Rightarrow> (string \<times> string) option" where
  "fgets n s =
    (if s = [] then None
     else let k = min (n - 1) (Suc (length (takeWhile (\<lambda>c. c \<noteq> NL) s)))
       in Some (take k s, drop k s))"

lemma fgets_split: "fgets n s = Some (chunk, rest) \<Longrightarrow> s = chunk @ rest"
  by (auto simp: fgets_def Let_def split: if_splits)

lemma fgets_progress: "fgets MAX_LINE_SIZE s = Some (chunk, rest) \<Longrightarrow> chunk \<noteq> []"
  by (auto simp: fgets_def Let_def MAX_LINE_SIZE_def split: if_splits)

lemma fgets_shorter: "fgets MAX_LINE_SIZE s = Some (chunk, rest) \<Longrightarrow> length rest < length s"
  using fgets_split [of MAX_LINE_SIZE s chunk rest] fgets_progress [of s chunk rest] by simp

definition bytes :: "string \<Rightarrow> u8 list" where
  "bytes s = map of_char s"

text \<open>The numbers of the lines a warning was printed for are collected in \<open>warn\<close>.\<close>

function load_loop :: "allocator \<Rightarrow> (nat \<Rightarrow> char) \<Rightarrow> charmap \<Rightarrow> string \<Rightarrow> u32 \<Rightarrow> wchar list \<Rightarrow>
    CKSUM_CTX \<Rightarrow> wlist \<Rightarrow> u32 list \<Rightarrow> halt + wchar list \<times> CKSUM_CTX \<times> wlist \<times> u32 list" where
  "load_loop ok junk cm fp line_count wline crcctx results warn =
    (case fgets MAX_LINE_SIZE fp of
       None \<Rightarrow> Inr (wline, crcctx, results, warn)
     | Some (chunk, fp) \<Rightarrow>
         let line_count = line_count + 1;
             line = cstr NUL chunk;
             warn = (if NL \<notin> set line then warn @ [line_count] else warn);
             crcctx = CKSUM_Update crcctx (bytes line) (length line)
         in
         ebind (mbstowcs cm wline 0 MAX_LINE_SIZE line) (\<lambda>(wline, _).
         let wline = wcs_strip_trailing_whitespaces wline in
         ebind (getstr 0 wline) (\<lambda>value.
         ebind (result_new ok junk cm value) (\<lambda>r.
         case r of
           None \<Rightarrow> Inl (Errx ''unable to read line %d with the current locale.'' [ArgD (sint line_count)])
         | Some result \<Rightarrow>
             ebind (ARRAY_ADD ok results result) (\<lambda>results.
             load_loop ok junk cm fp line_count wline crcctx results warn)))))"
  by pat_completeness auto
termination
  by (relation "measure (\<lambda>(ok, junk, cm, fp, line_count, wline, crcctx, results, warn). length fp)")
    (auto dest: fgets_shorter)

declare load_loop.simps [simp del]

text \<open>
  The result: the number of entries, \<open>result_crc32\<close>, the buffer \<open>wline\<close>, the array and the
  warnings. A null stream is \<open>None\<close>.
\<close>

definition load_results_fp :: "allocator \<Rightarrow> (nat \<Rightarrow> char) \<Rightarrow> charmap \<Rightarrow> string option \<Rightarrow> wchar list \<Rightarrow>
    wlist \<Rightarrow> (halt + u32 \<times> u32 \<times> wchar list \<times> wlist \<times> u32 list) option" where
  "load_results_fp ok junk cm fp wline results =
    (let crcctx = CKSUM_Init \<lparr>crc = 0, len = 0\<rparr> in
     tbind (Some (case fp of
         None \<Rightarrow> Inr (wline, crcctx, results, [])
       | Some s \<Rightarrow> load_loop ok junk cm s 0 wline crcctx results []))
     (\<lambda>(wline, crcctx, results, warn).
     case CKSUM_Final crcctx of
       None \<Rightarrow> None
     | Some crcctx \<Rightarrow> Some (Inr (ARRAY_LENGTH results, crc crcctx, wline, results, warn))))"

text \<open>The lines \<open>print_results\<close> prints.\<close>

definition print_results :: "wlist \<Rightarrow> halt + wchar list option list" where
  "print_results results =
    for_items ARRAY_ITEM results (unat (ARRAY_LENGTH results)) 0
      (\<lambda>result out. if visible result then Inr (out @ [wcs_value result]) else Inr out) []"

section \<open>Reading one line\<close>

text \<open>The buffer after \<open>mbstowcs\<close>: a line that does not convert leaves the old tail behind.\<close>

definition line_buf :: "charmap \<Rightarrow> wchar list \<Rightarrow> string \<Rightarrow> wchar list" where
  "line_buf cm wline line =
    (let ws = decode_prefix cm line in
     ws @ (if decode cm line = None then drop (length ws) wline else 0 # drop (Suc (length ws)) wline))"

definition wline_inv :: "wchar list \<Rightarrow> bool" where
  "wline_inv wline \<longleftrightarrow> length wline = MAX_LINE_SIZE \<and> wline ! (MAX_LINE_SIZE - 1) = 0"

definition wline_initial :: "wchar list" where
  "wline_initial = replicate MAX_LINE_SIZE 0"

lemma wline_initial_inv: "wline_inv wline_initial"
  by (simp add: wline_inv_def wline_initial_def MAX_LINE_SIZE_def)

lemma fgets_length: "fgets MAX_LINE_SIZE s = Some (chunk, rest) \<Longrightarrow> length chunk < MAX_LINE_SIZE"
  by (auto simp: fgets_def Let_def MAX_LINE_SIZE_def split: if_splits)

lemma mbstowcs_line:
  assumes "length line < MAX_LINE_SIZE" "wline_inv wline"
  shows "\<exists>r. mbstowcs cm wline 0 MAX_LINE_SIZE line = Inr (line_buf cm wline line, r)"
proof -
  have "length (decode_prefix cm line) < MAX_LINE_SIZE"
    using assms(1) decode_prefix_length [of cm line] by simp
  then show ?thesis
    using mbstowcs_spec [of 0 cm line MAX_LINE_SIZE wline] assms(2)
    by (auto simp: line_buf_def wline_inv_def decode_prefix_eq Let_def split: option.splits)
qed

lemma line_buf_inv:
  assumes "length line < MAX_LINE_SIZE" "wline_inv wline"
  shows "wline_inv (line_buf cm wline line)"
proof -
  let ?n = "length (decode_prefix cm line)" and ?m = "MAX_LINE_SIZE - 1"
  have n: "?n \<le> ?m" "decode cm line = None \<Longrightarrow> ?n < ?m"
    using assms(1) decode_prefix_length [of cm line] decode_prefix_strict [of cm line] by auto
  have w: "length wline = Suc ?m" "wline ! ?m = 0"
    using assms(2) by (auto simp: wline_inv_def MAX_LINE_SIZE_def)
  have "line_buf cm wline line ! ?m = 0"
  proof (cases "?n < ?m")
    case True
    then obtain d where "?m = Suc (?n + d)" by (metis less_imp_Suc_add)
    then show ?thesis using w by (auto simp: line_buf_def nth_append Let_def)
  next
    case False
    then show ?thesis using n by (auto simp: line_buf_def nth_append Let_def)
  qed
  moreover have "length (line_buf cm wline line) = MAX_LINE_SIZE"
    using n w by (auto simp: line_buf_def Let_def MAX_LINE_SIZE_def)
  ultimately show ?thesis by (simp add: wline_inv_def)
qed

lemma strip_loop_length [simp]: "length (strip_loop nul ws s n) = length s"
  by (induction n arbitrary: s) auto

lemma strip_loop_nul: "i < length s \<Longrightarrow> s ! i = nul \<Longrightarrow> strip_loop nul ws s n ! i = nul"
proof (induction n arbitrary: s)
  case (Suc n)
  have "s[n := nul] ! i = nul" using Suc.prems by (cases "n = i") auto
  then show ?case using Suc by simp
qed simp

lemma wline_inv_strip: "wline_inv wline \<Longrightarrow> wline_inv (wcs_strip_trailing_whitespaces wline)"
  by (auto simp: wline_inv_def wcs_strip_trailing_whitespaces_def MAX_LINE_SIZE_def intro: strip_loop_nul)

lemma wline_inv_nul: "wline_inv wline \<Longrightarrow> 0 \<in> set wline"
  by (auto simp: wline_inv_def MAX_LINE_SIZE_def in_set_conv_nth intro!: exI [of _ 16383])

text \<open>The entry made from the wide string \<open>v\<close> with the encoding \<open>m\<close>.\<close>

definition entry :: "wchar list \<Rightarrow> string \<Rightarrow> result" where
  "entry v m = \<lparr>visible = True, wcs_value = Some v, mbs_value = m,
     wcs_len = of_nat (length v), mbs_len = of_nat (length m)\<rparr>"

lemma result_new_ok:
  assumes "encode cm v = Some m" "0 \<notin> set v" "NUL \<notin> set m" "length m + 1 < 2 ^ 64"
  shows "result_new always junk cm v = Inr (Some (entry v m))"
proof -
  have "wcs_duplicate_as_mbs always junk cm v = Inr (Some (m @ [NUL]))"
    using assms(1,4) by (intro wcs_duplicate_ok) auto
  then show ?thesis using assms(2,3)
    by (simp add: result_new_def xmalloc_def wcsdup_def entry_def Let_def)
qed

lemma result_new_null:
  assumes "encode cm v = None"
  shows "result_new always junk cm v = Inr None"
  using assms by (simp add: result_new_def xmalloc_def wcs_duplicate_as_mbs_def wcstombs_len_encode Let_def)

text \<open>One round of the loop, when the line has no NUL byte and the new buffer encodes as \<open>m\<close>.\<close>

lemma load_loop_step:
  assumes "fgets MAX_LINE_SIZE s = Some (chunk, rest)" "NUL \<notin> set chunk" "wline_inv wline"
    and v: "v = strip_right is_wspace (cstr 0 (line_buf cm wline chunk))"
    and m: "encode cm v = Some m" "NUL \<notin> set m" "length m + 1 < 2 ^ 64"
  shows "\<exists>wline'. wline_inv wline' \<and> cstr 0 wline' = v \<and>
    load_loop always junk cm s n wline ctx results warn =
      ebind (ARRAY_ADD always results (entry v m)) (\<lambda>results.
      load_loop always junk cm rest (n + 1) wline' (CKSUM_Update ctx (bytes chunk) (length chunk)) results
        (if NL \<notin> set chunk then warn @ [n + 1] else warn))"
proof -
  have lt: "length chunk < MAX_LINE_SIZE" using assms(1) by (rule fgets_length)
  obtain r where r: "mbstowcs cm wline 0 MAX_LINE_SIZE chunk = Inr (line_buf cm wline chunk, r)"
    using mbstowcs_line [OF lt assms(3)] by blast
  let ?w = "wcs_strip_trailing_whitespaces (line_buf cm wline chunk)"
  have inv: "wline_inv (line_buf cm wline chunk)" by (rule line_buf_inv [OF lt assms(3)])
  then have w: "wline_inv ?w" by (rule wline_inv_strip)
  have c: "cstr 0 ?w = v" using wcs_strip_trailing_spec [OF wline_inv_nul [OF inv]] v by simp
  have g: "getstr 0 ?w = Inr v" using wline_inv_nul [OF w] c by simp
  have "0 \<notin> set v" using c cstr_no_nul [of 0 ?w] by simp
  then have "result_new always junk cm v = Inr (Some (entry v m))"
    using m by (intro result_new_ok)
  then have "load_loop always junk cm s n wline ctx results warn =
      ebind (ARRAY_ADD always results (entry v m)) (\<lambda>results.
      load_loop always junk cm rest (n + 1) ?w (CKSUM_Update ctx (bytes chunk) (length chunk)) results
        (if NL \<notin> set chunk then warn @ [n + 1] else warn))"
    using assms(1,2) by (subst load_loop.simps) (simp add: r g Let_def)
  with w c show ?thesis by blast
qed

section \<open>Loading a stream\<close>

function chunks :: "string \<Rightarrow> string list" where
  "chunks s = (case fgets MAX_LINE_SIZE s of None \<Rightarrow> [] | Some (chunk, rest) \<Rightarrow> chunk # chunks rest)"
  by pat_completeness auto
termination by (relation "measure length") (auto dest: fgets_shorter)

declare chunks.simps [simp del]

lemma fgets_None_iff: "fgets n s = None \<longleftrightarrow> s = []"
  by (simp add: fgets_def Let_def)

lemma chunks_Nil [simp]: "chunks [] = []"
  by (subst chunks.simps) (simp add: fgets_def)

lemma chunks_Cons: "fgets MAX_LINE_SIZE s = Some (chunk, rest) \<Longrightarrow> chunks s = chunk # chunks rest"
  by (subst chunks.simps) simp

lemma concat_chunks: "concat (chunks s) = s"
proof (induction s rule: chunks.induct)
  case (1 s)
  show ?case
  proof (cases "fgets MAX_LINE_SIZE s")
    case None
    then show ?thesis by (simp add: fgets_None_iff)
  next
    case (Some p)
    obtain chunk rest where p: "p = (chunk, rest)" by fastforce
    then have "concat (chunks rest) = rest" using 1 Some by blast
    then show ?thesis using chunks_Cons [OF Some [unfolded p]] fgets_split [OF Some [unfolded p]] by simp
  qed
qed

text \<open>Lines that fit in the buffer are the chunks.\<close>

lemma fgets_line:
  assumes "NL \<notin> set l" "length l + 1 < MAX_LINE_SIZE"
  shows "fgets MAX_LINE_SIZE (l @ NL # r) = Some (l @ [NL], r)"
proof -
  have "takeWhile (\<lambda>c. c \<noteq> NL) (l @ NL # r) = l" using assms(1) by (subst takeWhile_append2) auto
  moreover have "min (MAX_LINE_SIZE - 1) (Suc (length l)) = Suc (length l)" using assms(2) by simp
  ultimately show ?thesis unfolding fgets_def by (simp add: Let_def)
qed

lemma chunks_lines:
  "\<forall>l\<in>set ls. NL \<notin> set l \<and> length l + 1 < MAX_LINE_SIZE \<Longrightarrow>
   chunks (concat (map (\<lambda>l. l @ [NL]) ls)) = map (\<lambda>l. l @ [NL]) ls"
proof (induction ls)
  case (Cons l ls)
  then have "chunks (l @ NL # concat (map (\<lambda>l. l @ [NL]) ls)) =
      (l @ [NL]) # chunks (concat (map (\<lambda>l. l @ [NL]) ls))"
    by (intro chunks_Cons fgets_line) auto
  then show ?case using Cons by simp
qed simp

text \<open>The entry of a line that converts.\<close>

definition line_entry :: "charmap \<Rightarrow> string \<Rightarrow> result" where
  "line_entry cm line =
    (let v = strip_right is_wspace (the (decode cm line)) in entry v (the (encode cm v)))"

context charset
begin

lemma line_value:
  assumes "decode cm line = Some ws" "NUL \<notin> set line" "length line < MAX_LINE_SIZE"
    and v: "v = strip_right is_wspace ws"
  shows "\<exists>m. encode cm v = Some m \<and> NUL \<notin> set m \<and> length m + 1 < 2 ^ 64
    \<and> strip_right is_wspace (cstr 0 (line_buf cm wline line)) = v \<and> line_entry cm line = entry v m"
proof -
  obtain ys where ys: "ws = v @ ys" unfolding v using strip_right_decomp [of ws is_wspace] by (elim exE conjE)
  then obtain m t where m: "encode cm v = Some m" "line = m @ t"
    using encode_decode [OF assms(1)] unfolding ys by (auto simp: encode_append split: option.splits)
  have "0 \<notin> set ws" using decode_nul_free [OF assms(1)] assms(2) by simp
  then have "cstr 0 (line_buf cm wline line) = ws"
    using assms(1) by (simp add: line_buf_def decode_prefix_eq [OF assms(1)] Let_def)
  then have "strip_right is_wspace (cstr 0 (line_buf cm wline line)) = v" using v by simp
  moreover have "line_entry cm line = entry v m"
    using assms(1) m(1) by (simp add: line_entry_def v [symmetric])
  moreover have "NUL \<notin> set m" "length m + 1 < 2 ^ 64"
    using m(2) assms(2,3) by (auto simp: MAX_LINE_SIZE_def)
  ultimately show ?thesis using m(1) by blast
qed

lemma load_loop_ok:
  assumes "NUL \<notin> set s" "\<forall>c\<in>set (chunks s). decode cm c \<noteq> None" "wline_inv wline"
    and "carr_inv rs" "length (carr_list rs) + length (chunks s) < 2 ^ 32"
  shows "\<exists>wline' rs' warn'. load_loop always junk cm s n wline ctx rs warn =
      Inr (wline', CKSUM_Update ctx (bytes s) (length s), rs', warn') \<and> wline_inv wline' \<and> carr_inv rs'
    \<and> carr_list rs' = carr_list rs @ map (line_entry cm) (chunks s)
    \<and> ((\<forall>c\<in>set (chunks s). NL \<in> set c) \<longrightarrow> warn' = warn)"
  using assms
proof (induction s arbitrary: n wline ctx rs warn rule: chunks.induct)
  case (1 s)
  show ?case
  proof (cases "fgets MAX_LINE_SIZE s")
    case None
    then have "s = []" by (simp add: fgets_None_iff)
    then show ?thesis using None 1(4,5)
      by (simp add: load_loop.simps [of always] CKSUM_Update_def bytes_def)
  next
    case (Some p)
    obtain chunk rest where p: "p = (chunk, rest)" by fastforce
    note f = Some [unfolded p]
    note cs = chunks_Cons [OF f]
    have s: "s = chunk @ rest" by (rule fgets_split [OF f])
    obtain ws where ws: "decode cm chunk = Some ws" using 1(3) cs by auto
    have nc: "NUL \<notin> set chunk" using 1(2) s by simp
    let ?v = "strip_right is_wspace ws"
    obtain m where m: "encode cm ?v = Some m" "NUL \<notin> set m" "length m + 1 < 2 ^ 64"
        "strip_right is_wspace (cstr 0 (line_buf cm wline chunk)) = ?v" "line_entry cm chunk = entry ?v m"
      using line_value [OF ws nc fgets_length [OF f] refl] by blast
    obtain wline1 where w: "wline_inv wline1" "load_loop always junk cm s n wline ctx rs warn =
      ebind (ARRAY_ADD always rs (entry ?v m)) (\<lambda>results.
      load_loop always junk cm rest (n + 1) wline1 (CKSUM_Update ctx (bytes chunk) (length chunk)) results
        (if NL \<notin> set chunk then warn @ [n + 1] else warn))"
      using load_loop_step [OF f nc 1(4) m(4) [symmetric] m(1-3)] by blast
    obtain rs1 where a: "ARRAY_ADD always rs (entry ?v m) = Inr rs1"
      using carr.add_total [OF 1(5)] 1(6) cs by fastforce
    have rs1: "carr_inv rs1" "carr_list rs1 = carr_list rs @ [entry ?v m]"
      using carr.add_inv [OF 1(5) a] carr.add_abs [OF 1(5) a] by auto
    have "CKSUM_Update (CKSUM_Update ctx (bytes chunk) (length chunk)) (bytes rest) (length rest) =
        CKSUM_Update ctx (bytes s) (length s)"
      using CKSUM_Update_append [of ctx "bytes chunk" "bytes rest"] by (simp add: s bytes_def)
    moreover obtain wline' rs' warn' where "load_loop always junk cm rest (n + 1) wline1
          (CKSUM_Update ctx (bytes chunk) (length chunk)) rs1 (if NL \<notin> set chunk then warn @ [n + 1] else warn) =
        Inr (wline', CKSUM_Update (CKSUM_Update ctx (bytes chunk) (length chunk)) (bytes rest) (length rest), rs', warn')"
        "wline_inv wline'" "carr_inv rs'" "carr_list rs' = carr_list rs1 @ map (line_entry cm) (chunks rest)"
        "(\<forall>c\<in>set (chunks rest). NL \<in> set c) \<longrightarrow> warn' = (if NL \<notin> set chunk then warn @ [n + 1] else warn)"
      using 1(1) [OF Some p [symmetric], of wline1 rs1 "n + 1" "CKSUM_Update ctx (bytes chunk) (length chunk)"
          "if NL \<notin> set chunk then warn @ [n + 1] else warn"] 1(2,3,6) s cs w(1) rs1 by auto
    ultimately show ?thesis using w(2) a cs rs1(2) m(5) by auto
  qed
qed

end

end
