(* ===== verification/Profile.thy ===== *)
theory Profile
  imports Globals Randpass Results
begin

text \<open>
  The password profiles of \<open>profile.c\<close>. The global array \<open>profiles\<close> holds pointers, and
  \<open>config.c\<close> keeps a pointer to the profile it is filling in, so profiles live in a store: the
  list of the structures allocated so far, with pointers as indices into it.
\<close>

section \<open>The code\<close>

record profile =
  name :: "string option"
  password_count :: u32
  character_count :: u32
  character_set :: "wchar list option"

record registry =
  profiles :: "nat carr"
  store :: "profile list"

definition registry_initial :: registry where
  "registry_initial = \<lparr>profiles = ARRAY_INITIALIZER, store = []\<rparr>"

definition wcsdup_set :: "allocator \<Rightarrow> wchar list \<Rightarrow> wchar list option" where
  "wcsdup_set ok cset = map_option (cstr 0) (wcsdup ok (cset @ [0]))"

text \<open>\<open>sizeof (struct profile)\<close> is 24. The new structure is returned with its address.\<close>

definition profile_new :: "allocator \<Rightarrow> config \<Rightarrow> string \<Rightarrow> registry \<Rightarrow> halt + nat \<times> registry" where
  "profile_new ok cfg nm reg =
    ebind (xcalloc ok 1 24) (\<lambda>_.
    let new = \<lparr>name = strdup ok nm, password_count = cfg_password_count cfg,
               character_count = cfg_character_count cfg,
               character_set = (case cfg_character_set cfg of
                   Some cset \<Rightarrow> wcsdup_set ok cset
                 | None \<Rightarrow> wcsdup_set ok CHARSET_ALPHANUMERIC)\<rparr>
    in Inr (length (store reg), reg\<lparr>store := store reg @ [new]\<rparr>))"

fun get_loop :: "string \<Rightarrow> registry \<Rightarrow> nat \<Rightarrow> nat \<Rightarrow> halt + nat option" where
  "get_loop nm reg 0 i = Inr None"
| "get_loop nm reg (Suc k) i =
    ebind (ARRAY_ITEM (profiles reg) (of_nat i)) (\<lambda>profile.
    ebind (rd (store reg) profile) (\<lambda>p.
    case name p of
      None \<Rightarrow> Inl (Undefined ''null pointer'')
    | Some s \<Rightarrow> if s = nm then Inr (Some profile) else get_loop nm reg k (Suc i)))"

definition profile_get_from_name :: "string \<Rightarrow> registry \<Rightarrow> halt + nat option" where
  "profile_get_from_name nm reg = get_loop nm reg (unat (ARRAY_LENGTH (profiles reg))) 0"

definition profile_get_password_count :: "options \<Rightarrow> profile \<Rightarrow> u32" where
  "profile_get_password_count opts profile =
    (if cmd_password_count opts > 0 then cmd_password_count opts else password_count profile)"

text \<open>
  \<open>character_count + 1\<close> is an \<open>unsigned int\<close>, and the count is passed on as an \<open>int\<close>.
\<close>

definition profile_generate_password :: "allocator \<Rightarrow> 's uniform \<Rightarrow> options \<Rightarrow> profile \<Rightarrow> 's \<Rightarrow>
    (halt + wchar list \<times> 's) option" where
  "profile_generate_password ok uniform opts profile s =
    (let count = (if cmd_character_count opts > 0 then cmd_character_count opts
                  else character_count profile) in
     tbind (Some (xcalloc ok (ucast (count + 1)) 4)) (\<lambda>_.
     case character_set profile of
       None \<Rightarrow> Some (Inl (Undefined ''null pointer''))
     | Some cset \<Rightarrow>
         tbind (generate_password_from_set ok uniform (replicate (unat (count + 1)) 0) (sint count) (cset @ [0]) s)
         (\<lambda>(retcode, pw, s).
         if retcode \<noteq> 0 then Some (Inl (Errx ''failed to generate password'' []))
         else Some (Inr (pw, s)))))"

fun to_results_loop :: "allocator \<Rightarrow> (nat \<Rightarrow> char) \<Rightarrow> charmap \<Rightarrow> 's uniform \<Rightarrow> options \<Rightarrow> profile \<Rightarrow>
    wchar list option \<Rightarrow> nat \<Rightarrow> wlist \<Rightarrow> 's \<Rightarrow> (halt + wlist \<times> 's) option" where
  "to_results_loop ok junk cm uniform opts profile pfx 0 results s = Some (Inr (results, s))"
| "to_results_loop ok junk cm uniform opts profile pfx (Suc k) results s =
    tbind (profile_generate_password ok uniform opts profile s) (\<lambda>(pw, s).
    tbind (Some (case pfx of
        None \<Rightarrow> result_new ok junk cm (cstr 0 pw)
      | Some pfx \<Rightarrow>
          ebind (wcsjoin ok 9 pfx (cstr 0 pw)) (\<lambda>line. result_new ok junk cm line))) (\<lambda>r.
    case r of
      None \<Rightarrow> Some (Inl (Errx ''unable to use generated password (wrong locale?)'' []))
    | Some result \<Rightarrow>
        tbind (Some (ARRAY_ADD ok results result)) (\<lambda>results.
        to_results_loop ok junk cm uniform opts profile pfx k results s)))"

definition profile_passwords_to_results :: "allocator \<Rightarrow> (nat \<Rightarrow> char) \<Rightarrow> charmap \<Rightarrow> 's uniform \<Rightarrow>
    options \<Rightarrow> profile \<Rightarrow> wchar list option \<Rightarrow> wlist \<Rightarrow> 's \<Rightarrow> (halt + wlist \<times> 's) option" where
  "profile_passwords_to_results ok junk cm uniform opts profile pfx results s =
    to_results_loop ok junk cm uniform opts profile pfx
      (unat (profile_get_password_count opts profile)) results s"

text \<open>The lines \<open>profile_fprint_passwords\<close> writes to the stream.\<close>

fun fprint_loop :: "allocator \<Rightarrow> 's uniform \<Rightarrow> options \<Rightarrow> profile \<Rightarrow> nat \<Rightarrow> wchar list list \<Rightarrow> 's \<Rightarrow>
    (halt + wchar list list \<times> 's) option" where
  "fprint_loop ok uniform opts profile 0 out s = Some (Inr (out, s))"
| "fprint_loop ok uniform opts profile (Suc k) out s =
    tbind (profile_generate_password ok uniform opts profile s) (\<lambda>(pw, s).
    fprint_loop ok uniform opts profile k (out @ [cstr 0 pw]) s)"

definition profile_fprint_passwords :: "allocator \<Rightarrow> 's uniform \<Rightarrow> options \<Rightarrow> profile \<Rightarrow> 's \<Rightarrow>
    (halt + wchar list list \<times> 's) option" where
  "profile_fprint_passwords ok uniform opts profile s =
    fprint_loop ok uniform opts profile (unat (profile_get_password_count opts profile)) [] s"

definition profile_register :: "allocator \<Rightarrow> nat option \<Rightarrow> registry \<Rightarrow> halt + registry" where
  "profile_register ok p reg =
    (case p of
       None \<Rightarrow> Inl (Errx ''profile_register(NULL)'' [])
     | Some p \<Rightarrow> ebind (ARRAY_ADD ok (profiles reg) p) (\<lambda>a. Inr (reg\<lparr>profiles := a\<rparr>)))"

section \<open>The registry\<close>

text \<open>Every registered pointer is allocated, and every profile has a name and a character set.\<close>

definition registry_inv :: "registry \<Rightarrow> bool" where
  "registry_inv reg \<longleftrightarrow> carr_inv (profiles reg)
     \<and> (\<forall>p\<in>set (carr_list (profiles reg)). p < length (store reg))
     \<and> (\<forall>p\<in>set (store reg). name p \<noteq> None \<and> character_set p \<noteq> None)"

definition registered :: "registry \<Rightarrow> profile list" where
  "registered reg = map (\<lambda>p. store reg ! p) (carr_list (profiles reg))"

lemma registry_initial_inv: "registry_inv registry_initial"
  by (simp add: registry_inv_def registry_initial_def carr_inv_init)

lemma get_loop_spec:
  assumes "registry_inv reg" "i + k = length (carr_list (profiles reg))"
  shows "get_loop nm reg k i =
    Inr (List.find (\<lambda>p. name (store reg ! p) = Some nm) (drop i (carr_list (profiles reg))))"
  using assms(2)
proof (induction k arbitrary: i)
  case (Suc k)
  let ?l = "carr_list (profiles reg)"
  have i: "i < length ?l" using Suc.prems by simp
  have inv: "carr_inv (profiles reg)" using assms(1) by (simp add: registry_inv_def)
  have lt: "?l ! i < length (store reg)" using assms(1) i by (simp add: registry_inv_def)
  then have "name (store reg ! (?l ! i)) \<noteq> None" using assms(1) by (simp add: registry_inv_def)
  then obtain s where s: "name (store reg ! (?l ! i)) = Some s" by blast
  have "drop i ?l = ?l ! i # drop (Suc i) ?l" using i by (simp add: Cons_nth_drop_Suc)
  then show ?case using Suc carr.item_abs [OF inv i] lt s by simp
qed simp

lemma profile_get_spec:
  "registry_inv reg \<Longrightarrow> profile_get_from_name nm reg =
    Inr (List.find (\<lambda>p. name (store reg ! p) = Some nm) (carr_list (profiles reg)))"
  unfolding profile_get_from_name_def
  by (subst get_loop_spec) (auto simp: registry_inv_def carr.len_abs)

lemma wcsdup_set_always: "0 \<notin> set s \<Longrightarrow> wcsdup_set always s = Some s"
  by (simp add: wcsdup_set_def wcsdup_def)

section \<open>Generated passwords\<close>

definition requested :: "options \<Rightarrow> profile \<Rightarrow> u32" where
  "requested opts profile =
    (if cmd_character_count opts > 0 then cmd_character_count opts else character_count profile)"

lemma sint_small:
  assumes "unat (c :: u32) < 2 ^ 31"
  shows "sint c = int (unat c)"
proof -
  have "int (unat c) < int (2 ^ 31)" using assms by (simp only: of_nat_less_iff)
  then have "uint c < 2 ^ 31" by simp
  moreover have "- (2 ^ 31) \<le> uint c" using uint_ge_0 [of c] by (rule order_trans [rotated]) simp
  ultimately show ?thesis by (simp add: sint_uint signed_take_bit_int_eq_self)
qed

lemma sint_cases: "sint (c :: u32) = int (unat c) \<or> sint c < 0"
proof (cases "bit c 31")
  case True
  then show ?thesis by (simp add: sint_uint signed_take_bit_negative_iff bit_simps)
next
  case False
  then have "n < 31" if "bit c n" "n < 32" for n
    using that by (cases "n = 31") auto
  then have "take_bit 31 c = c"
    by (intro bit_word_eqI) (auto simp: bit_take_bit_iff)
  then have "unat c < 2 ^ 31" by (metis take_bit_nat_less_exp unsigned_take_bit_eq)
  then show ?thesis using sint_small by blast
qed

lemma requested_int:
  fixes c :: u32
  assumes "1 \<le> unat c" "unat c \<le> 256"
  shows "sint c = int (unat c)" "unat (c + 1) = unat c + 1" "unat (ucast (c + 1) :: size_t) = unat c + 1"
proof -
  show "sint c = int (unat c)" using assms(2) by (intro sint_small) simp
  show u: "unat (c + 1) = unat c + 1" using assms(2) by (simp add: unat_word_ariths)
  show "unat (ucast (c + 1) :: size_t) = unat c + 1" by (simp add: u)
qed

lemma profile_generate_ok:
  assumes "serves uniform" "character_set profile = Some cset" "cset \<noteq> []" "0 \<notin> set cset"
    and "length cset < 2 ^ 60" "1 \<le> unat (requested opts profile)" "unat (requested opts profile) \<le> 256"
  shows "\<exists>pw s'. profile_generate_password always uniform opts profile s = Some (Inr (pw, s'))
    \<and> length (cstr 0 pw) = unat (requested opts profile) \<and> set (cstr 0 pw) \<subseteq> set cset"
proof -
  let ?c = "requested opts profile"
  note u = requested_int [OF assms(6,7)]
  have "ucast (?c + 1) \<noteq> (0 :: size_t)" using u(3) by (metis add_is_0 one_neq_zero unat_0)
  then have x: "xcalloc always (ucast (?c + 1)) 4 = Inr (ucast (?c + 1) * 4)"
    unfolding xcalloc_iff using assms(7) u(3) unat_mult_size_t [of "ucast (?c + 1)" 4] by simp
  have "cstr 0 (cset @ [0]) = cset" using assms(4) by simp
  moreover have "sint ?c < int (length (replicate (unat (?c + 1)) (0 :: wchar)))" using u by simp
  moreover have "1 \<le> sint ?c" "sint ?c \<le> 256" using u(1) assms(6,7) by linarith+
  ultimately obtain pw s' where
      "generate_password_from_set always uniform (replicate (unat (?c + 1)) 0) (sint ?c) (cset @ [0]) s
        = Some (Inr (0, pw, s'))"
      "length (cstr 0 pw) = nat (sint ?c)" "set (cstr 0 pw) \<subseteq> set cset"
    using generate_password_total [OF assms(1), of "cset @ [0]" always "sint ?c" "replicate (unat (?c + 1)) 0" s]
      assms(3,5) by auto
  then show ?thesis using x assms(2) u(1)
    by (simp add: profile_generate_password_def requested_def [symmetric] Let_def)
qed

text \<open>The loops that generate several passwords.\<close>

definition good_profile :: "options \<Rightarrow> profile \<Rightarrow> wchar list \<Rightarrow> bool" where
  "good_profile opts profile cset \<longleftrightarrow> character_set profile = Some cset \<and> cset \<noteq> [] \<and> 0 \<notin> set cset
     \<and> length cset < 2 ^ 60 \<and> 1 \<le> unat (requested opts profile) \<and> unat (requested opts profile) \<le> 256"

definition good_password :: "options \<Rightarrow> profile \<Rightarrow> wchar list \<Rightarrow> wchar list \<Rightarrow> bool" where
  "good_password opts profile cset pw \<longleftrightarrow> length pw = unat (requested opts profile) \<and> set pw \<subseteq> set cset"

lemma fprint_loop_ok:
  assumes "serves uniform" "good_profile opts profile cset"
  shows "\<exists>pws s'. fprint_loop always uniform opts profile k acc s = Some (Inr (acc @ pws, s'))
    \<and> length pws = k \<and> (\<forall>pw\<in>set pws. good_password opts profile cset pw)"
proof (induction k arbitrary: acc s)
  case (Suc k)
  obtain pw s1 where g: "profile_generate_password always uniform opts profile s = Some (Inr (pw, s1))"
      "good_password opts profile cset (cstr 0 pw)"
    using profile_generate_ok [OF assms(1), of profile cset opts s] assms(2)
    by (auto simp: good_profile_def good_password_def)
  obtain pws s' where "fprint_loop always uniform opts profile k (acc @ [cstr 0 pw]) s1 =
      Some (Inr ((acc @ [cstr 0 pw]) @ pws, s'))" "length pws = k" "\<forall>pw\<in>set pws. good_password opts profile cset pw"
    using Suc.IH by blast
  then show ?case using g by (intro exI [of _ "cstr 0 pw # pws"]) auto
qed simp

definition counter_source :: "nat uniform" where
  "counter_source ub s = Some (Inr (of_nat s mod ub, s + 1))"

lemma counter_source_serves: "serves counter_source"
  by (auto simp: serves_def counter_source_def word_less_nat_alt unat_mod)

definition digits_profile :: profile where
  "digits_profile = \<lparr>name = Some ''pin'', password_count = 1, character_count = 4,
     character_set = Some [0x31, 0x32, 0x33]\<rparr>"

text \<open>Every other length is refused with an error message and without drawing a number:
  0, more than 256, and also \<open>UINT_MAX\<close>, where the size of the buffer wraps around to 0.\<close>

theorem profile_password_bad_length_refused:
  assumes "character_set profile = Some cset" "requested opts profile = 0 \<or> 256 < requested opts profile"
  shows "profile_generate_password always uniform opts profile s =
    Some (Inl (Errx (if requested opts profile = UINT_MAX then ''zero size'' else ''failed to generate password'') []))"
proof (cases "requested opts profile = UINT_MAX")
  case True
  then show ?thesis
    by (simp add: profile_generate_password_def requested_def [symmetric] Let_def xcalloc_def UINT_MAX_def)
next
  case False
  let ?c = "requested opts profile"
  have c: "unat ?c \<noteq> 2 ^ 32 - 1"
    using False by (metis UINT_MAX_def len32 mask_eq_exp_minus_1 unsigned_minus_1_eq_mask unsigned_word_eqI)
  then have lt: "unat ?c + 1 < 2 ^ 32" using unat_u32_less [of ?c] by simp
  then have u: "unat (?c + 1) = unat ?c + 1" by (simp add: unat_word_ariths)
  have "?c + 1 \<noteq> 0" using u by (metis add_is_0 one_neq_zero unat_0)
  moreover have "unat (ucast (?c + 1) :: size_t) * 4 < 2 ^ 64" using u lt by simp
  ultimately have x: "xcalloc always (ucast (?c + 1)) 4 = Inr (ucast (?c + 1) * 4)"
    unfolding xcalloc_iff using unat_mult_size_t [of "ucast (?c + 1)" 4] u by (auto simp flip: unat_eq_zero)
  have d: "sint ?c < 1 \<or> 256 < sint ?c"
    using assms(2)
  proof
    assume "256 < ?c"
    then have "256 < unat ?c" by (simp add: word_less_nat_alt)
    moreover have "sint ?c = int (unat ?c) \<or> sint ?c < 0" by (rule sint_cases)
    ultimately show ?thesis by linarith
  qed simp
  have "generate_password_from_set always uniform (replicate (unat (?c + 1)) 0) (sint ?c) (cset @ [0]) s =
      Some (Inr (- 1, replicate (unat (?c + 1)) 0, s))"
    by (rule generate_password_bad_length [OF d])
  then show ?thesis using x assms(1) False
    by (simp add: profile_generate_password_def requested_def [symmetric] Let_def)
qed

theorem profile_password_bad_length_refused_witness:
  "profile_generate_password always counter_source (options_initial\<lparr>cmd_character_count := 300\<rparr>) digits_profile 0 =
    Some (Inl (Errx (if requested (options_initial\<lparr>cmd_character_count := 300\<rparr>) digits_profile = UINT_MAX
        then ''zero size'' else ''failed to generate password'') []))"
  by (rule profile_password_bad_length_refused) (simp_all add: digits_profile_def requested_def)

end
