(* ===== verification/Strdelim.thy ===== *)
theory Strdelim
  imports Strlib
begin

text \<open>
  The tokenizer of the configuration file, \<open>strdelim.c\<close>, twice. \<open>strdelim_buf\<close> works like
  the code on the line's buffer: pointers are indices, the token's terminator is written
  into the buffer, the text after an opening quote is moved down over it. \<open>strdelim\<close> works
  on strings: it takes the unread rest of the line and returns the token and the new rest,
  with \<open>None\<close> for the null pointer. The refinement lemma says that the strings are what the
  pointers of the buffer version point at, and that tokens returned earlier stay intact.
\<close>

definition QUOTE :: string where "QUOTE = [CHR 0x22]"

fun strpbrk :: "string \<Rightarrow> string \<Rightarrow> nat option" where
  "strpbrk acc [] = None"
| "strpbrk acc (c # s) = (if c \<in> set acc then Some 0 else map_option Suc (strpbrk acc s))"

definition strspn :: "string \<Rightarrow> string \<Rightarrow> nat" where
  "strspn acc s = length (takeWhile (\<lambda>c. c \<in> set acc) s)"

text \<open>The C string at index \<open>i\<close> of a buffer.\<close>

definition at :: "string \<Rightarrow> nat \<Rightarrow> string" where
  "at b i = cstr NUL (drop i b)"

definition memmove :: "string \<Rightarrow> nat \<Rightarrow> nat \<Rightarrow> nat \<Rightarrow> string" where
  "memmove b dst src n = take dst b @ take n (drop src b) @ drop (dst + n) b"

definition strdelim_buf :: "string \<Rightarrow> nat option \<Rightarrow> string \<times> nat option \<times> nat option" where
  "strdelim_buf b s =
    (case s of
       None \<Rightarrow> (b, None, None)
     | Some old \<Rightarrow>
       (case strpbrk (WHITESPACE @ QUOTE @ ''='') (at b old) of
          None \<Rightarrow> (b, Some old, None)
        | Some k \<Rightarrow>
          let s = old + k in
          if b ! s = CHR 0x22 then
            let b = memmove b s (s + 1) (length (at b s)) in
            (case strpbrk QUOTE (at b s) of
               None \<Rightarrow> (b, None, None)
             | Some q \<Rightarrow> (b[s + q := NUL], Some old, Some (s + q)))
          else
            let wspace = (b ! s = CHR ''='');
                b = b[s := NUL];
                s = s + strspn WHITESPACE (at b (s + 1)) + 1;
                s = (if \<not> wspace \<and> at b s \<noteq> [] \<and> hd (at b s) = CHR ''=''
                     then s + strspn WHITESPACE (at b (s + 1)) + 1 else s)
            in (b, Some old, Some s)))"

definition strdelim :: "string option \<Rightarrow> string option \<times> string option" where
  "strdelim s =
    (case s of
       None \<Rightarrow> (None, None)
     | Some old \<Rightarrow>
       (case strpbrk (WHITESPACE @ QUOTE @ ''='') old of
          None \<Rightarrow> (Some old, None)
        | Some k \<Rightarrow>
          if old ! k = CHR 0x22 then
            let rest = drop (k + 1) old in
            (case strpbrk QUOTE rest of
               None \<Rightarrow> (None, None)
             | Some q \<Rightarrow> (Some (take k old @ take q rest), Some []))
          else
            let rest = dropWhile (\<lambda>c. c \<in> set WHITESPACE) (drop (k + 1) old);
                rest = (if old ! k \<noteq> CHR ''='' \<and> rest \<noteq> [] \<and> hd rest = CHR ''=''
                        then dropWhile (\<lambda>c. c \<in> set WHITESPACE) (tl rest) else rest)
            in (Some (take k old), Some rest)))"

section \<open>Scanning\<close>

lemma strpbrk_None_iff: "strpbrk acc s = None \<longleftrightarrow> set s \<inter> set acc = {}"
  by (induction s) auto

lemma strpbrk_SomeD:
  assumes "strpbrk acc s = Some k"
  shows "k < length s \<and> s ! k \<in> set acc \<and> set (take k s) \<inter> set acc = {}"
  using assms
proof (induction s arbitrary: k)
  case (Cons c s)
  then show ?case by (cases k) (auto split: if_splits)
qed simp

lemma strpbrk_append:
  "set xs \<inter> set acc = {} \<Longrightarrow> y \<in> set acc \<Longrightarrow> strpbrk acc (xs @ y # ys) = Some (length xs)"
  by (induction xs) auto

lemma drop_strspn: "drop (strspn acc s) s = dropWhile (\<lambda>c. c \<in> set acc) s"
  by (simp add: strspn_def dropWhile_eq_drop)

lemma strspn_le: "strspn acc s \<le> length s"
  by (simp add: strspn_def length_takeWhile_le)

section \<open>Strings inside buffers\<close>

lemma at_decomp:
  assumes "NUL \<in> set (drop i b)"
  obtains ys where "drop i b = at b i @ NUL # ys"
  using assms unfolding at_def by (rule cstr_decomp)

lemma at_shift:
  assumes "NUL \<in> set (drop i b)" "k \<le> length (at b i)"
  shows "at b (i + k) = drop k (at b i)" "NUL \<in> set (drop (i + k) b)"
proof -
  from assms(1) obtain ys where d: "drop i b = at b i @ NUL # ys" by (rule at_decomp)
  have "drop (i + k) b = drop k (drop i b)" by (simp add: add.commute)
  also have "\<dots> = drop k (at b i) @ NUL # ys" using assms(2) by (simp add: d)
  finally have e: "drop (i + k) b = drop k (at b i) @ NUL # ys" .
  have "NUL \<notin> set (drop k (at b i))" by (metis at_def cstr_no_nul in_set_dropD)
  with e show "at b (i + k) = drop k (at b i)" by (simp add: at_def [of b "i + k"])
  from e show "NUL \<in> set (drop (i + k) b)" by simp
qed

lemma at_nth:
  assumes "NUL \<in> set (drop i b)" "k < length (at b i)"
  shows "b ! (i + k) = at b i ! k"
proof -
  from assms(1) obtain ys where d: "drop i b = at b i @ NUL # ys" by (rule at_decomp)
  have "i < length b" using assms(1) by (cases "i < length b") auto
  then have "b ! (i + k) = drop i b ! k" by simp
  also have "\<dots> = at b i ! k" using assms(2) by (simp add: d nth_append)
  finally show ?thesis .
qed

lemma at_in_bounds:
  assumes "NUL \<in> set (drop i b)"
  shows "i + length (at b i) < length b"
proof -
  from assms obtain ys where "drop i b = at b i @ NUL # ys" by (rule at_decomp)
  then have "length (drop i b) = length (at b i) + 1 + length ys" by simp
  then show ?thesis by simp
qed

lemma at_mid: "n = length xs \<Longrightarrow> NUL \<notin> set cs \<Longrightarrow> at (xs @ cs @ NUL # post) n = cs"
  by (simp add: at_def)

section \<open>The buffer version refines the string version\<close>

text \<open>
  What one call may do to the buffer: its length stays, nothing before the string it works
  on changes, an empty string leaves everything alone, and the new pointer is again the
  start of a terminated string further on.
\<close>

definition strdelim_frame :: "string \<Rightarrow> nat \<Rightarrow> string \<times> nat option \<times> nat option \<Rightarrow> bool" where
  "strdelim_frame b i r = (case r of (b', tok, s') \<Rightarrow>
     length b' = length b \<and> take i b' = take i b \<and> (at b i = [] \<longrightarrow> b' = b) \<and>
     (tok = None \<or> tok = Some i) \<and>
     (\<forall>j. s' = Some j \<longrightarrow> i \<le> j \<and> NUL \<in> set (drop j b')))"

definition strdelim_abs :: "string \<times> nat option \<times> nat option \<Rightarrow> string option \<times> string option" where
  "strdelim_abs r = (case r of (b', tok, s') \<Rightarrow> (map_option (at b') tok, map_option (at b') s'))"

lemma memmove_quote:
  assumes "NUL \<notin> set (t @ u)"
  shows "memmove (pre @ t @ q # u @ NUL # post) (length pre + length t) (length pre + length t + 1)
      (Suc (length u)) = pre @ t @ u @ NUL # NUL # post"
  by (simp add: memmove_def)

lemma strdelim_buf_quote:
  assumes "NUL \<notin> set (t @ u)" "strpbrk (WHITESPACE @ QUOTE @ ''='') (t @ CHR 0x22 # u) = Some (length t)"
    and b_def: "b = pre @ t @ CHR 0x22 # u @ NUL # post"
  shows "strdelim_abs (strdelim_buf b (Some (length pre))) = strdelim (Some (t @ CHR 0x22 # u))
    \<and> strdelim_frame b (length pre) (strdelim_buf b (Some (length pre)))"
proof -
  let ?s = "length pre + length t" and ?b = "pre @ t @ u @ NUL # NUL # post"
  have a0: "at b (length pre) = t @ CHR 0x22 # u"
    using at_mid [of "length pre" pre "t @ CHR 0x22 # u" post] assms(1) by (simp add: b_def)
  have nth: "b ! ?s = CHR 0x22" by (simp add: b_def nth_append)
  have a1: "at b ?s = CHR 0x22 # u"
    using at_mid [of ?s "pre @ t" "CHR 0x22 # u" post] assms(1) by (simp add: b_def)
  have mv: "memmove b ?s (?s + 1) (length (at b ?s)) = ?b"
    unfolding a1 by (simp add: memmove_def b_def)
  have a2: "at ?b ?s = u"
    using at_mid [of ?s "pre @ t" u "NUL # post"] assms(1) by simp
  show ?thesis
  proof (cases "strpbrk QUOTE u")
    case None
    then have "strdelim_buf b (Some (length pre)) = (?b, None, None)"
      using assms(2) nth by (simp add: strdelim_buf_def a0 mv [simplified] Let_def a2)
    moreover have "strdelim (Some (t @ CHR 0x22 # u)) = (None, None)"
      using assms(2) None by (simp add: strdelim_def)
    ultimately show ?thesis using a0
      by (simp add: strdelim_abs_def strdelim_frame_def b_def)
  next
    case (Some q)
    then have q: "q < length u" using strpbrk_SomeD by blast
    have u: "u = take q u @ u ! q # drop (Suc q) u" using q by (rule id_take_nth_drop)
    have "?b[?s + q := NUL] = pre @ t @ u[q := NUL] @ NUL # NUL # post"
      using q by (simp add: list_update_append)
    also have "u[q := NUL] = take q u @ NUL # drop (Suc q) u"
      using q by (rule upd_conv_take_nth_drop)
    finally have up: "?b[?s + q := NUL] = pre @ t @ take q u @ NUL # drop (Suc q) u @ NUL # NUL # post"
      by simp
    have nt: "NUL \<notin> set (t @ take q u)" using assms(1) by (auto dest: in_set_takeD)
    have r: "strdelim_buf b (Some (length pre)) = (?b[?s + q := NUL], Some (length pre), Some (?s + q))"
      using assms(2) nth Some by (simp add: strdelim_buf_def a0 mv [simplified] Let_def a2)
    have t1: "at (?b[?s + q := NUL]) (length pre) = t @ take q u"
      using at_mid [of "length pre" pre "t @ take q u"] nt by (simp add: up)
    have t2: "at (?b[?s + q := NUL]) (?s + q) = []"
      using at_mid [of "?s + q" "pre @ t @ take q u" "[]"] q by (simp add: up)
    have nul: "NUL \<in> set (drop (?s + q) (?b[?s + q := NUL]))"
      using q by (simp add: up)
    have "strdelim (Some (t @ CHR 0x22 # u)) = (Some (t @ take q u), Some [])"
      using assms(2) Some by (simp add: strdelim_def)
    then show ?thesis unfolding r strdelim_abs_def strdelim_frame_def using t1 t2 nul a0
      by (simp add: b_def)
  qed
qed

lemma strdelim_buf_plain:
  assumes "NUL \<notin> set (t @ c # u)" "c \<noteq> CHR 0x22"
    and "strpbrk (WHITESPACE @ QUOTE @ ''='') (t @ c # u) = Some (length t)"
    and b_def: "b = pre @ t @ c # u @ NUL # post"
  shows "strdelim_abs (strdelim_buf b (Some (length pre))) = strdelim (Some (t @ c # u))
    \<and> strdelim_frame b (length pre) (strdelim_buf b (Some (length pre)))"
proof -
  let ?s = "length pre + length t" and ?b = "pre @ t @ NUL # u @ NUL # post"
  let ?sp = "strspn WHITESPACE"
  have a0: "at b (length pre) = t @ c # u"
    using at_mid [of "length pre" pre "t @ c # u" post] assms(1) by (simp add: b_def)
  have nth: "b ! ?s = c" by (simp add: b_def nth_append)
  have up: "b[?s := NUL] = ?b" by (simp add: b_def list_update_append)
  have nu: "NUL \<notin> set u" using assms(1) by simp
  have a1: "at ?b (Suc ?s) = u" and nul1: "NUL \<in> set (drop (Suc ?s) ?b)"
    using at_mid [of "Suc ?s" "pre @ t @ [NUL]" u post] nu by simp_all
  let ?v = "drop (?sp u) u"
  have a2: "at ?b (Suc ?s + ?sp u) = ?v" and nul2: "NUL \<in> set (drop (Suc ?s + ?sp u) ?b)"
    using at_shift [OF nul1, of "?sp u"] a1 strspn_le by auto
  have a3: "at ?b (Suc (Suc ?s + ?sp u)) = tl ?v"
      and nul3: "NUL \<in> set (drop (Suc (Suc ?s + ?sp u)) ?b)" if "?v \<noteq> []"
    using at_shift [OF nul2, of 1] a2 that by (auto simp: drop_Suc Suc_le_eq)
  let ?w = "drop (?sp (tl ?v)) (tl ?v)"
  have le4: "?sp (tl ?v) \<le> length (at ?b (Suc (Suc ?s + ?sp u)))" if "?v \<noteq> []"
    unfolding a3 [OF that] by (rule strspn_le)
  have a4: "at ?b (Suc (Suc ?s + ?sp u) + ?sp (tl ?v)) = ?w" if "?v \<noteq> []"
    using at_shift(1) [OF nul3 [OF that] le4 [OF that]] unfolding a3 [OF that] .
  have nul4: "NUL \<in> set (drop (Suc (Suc ?s + ?sp u) + ?sp (tl ?v)) ?b)" if "?v \<noteq> []"
    by (rule at_shift(2) [OF nul3 [OF that] le4 [OF that]])
  define eq where "eq \<longleftrightarrow> c \<noteq> CHR ''='' \<and> ?v \<noteq> [] \<and> hd ?v = CHR ''=''"
  define s' where "s' = (if eq then Suc (Suc ?s + ?sp u) + ?sp (tl ?v) else Suc ?s + ?sp u)"
  have r: "strdelim_buf b (Some (length pre)) = (?b, Some (length pre), Some s')"
    using assms(2,3) nth a1 a2 a3
    by (auto simp: strdelim_buf_def a0 up Let_def s'_def eq_def add_ac)
  have d: "strdelim (Some (t @ c # u)) = (Some t, Some (if eq then ?w else ?v))"
    using assms(2,3) by (simp add: strdelim_def Let_def drop_strspn eq_def)
  have t1: "at ?b (length pre) = t"
    using at_mid [of "length pre" pre t] assms(1) by simp
  have "at ?b s' = (if eq then ?w else ?v)"
    using a2 a4 by (auto simp: s'_def eq_def)
  moreover have "NUL \<in> set (drop s' ?b)" using nul2 nul4 by (auto simp: s'_def eq_def)
  moreover have "length pre \<le> s'" by (simp add: s'_def)
  ultimately show ?thesis unfolding r d strdelim_abs_def strdelim_frame_def
    using t1 a0 by (simp add: b_def)
qed

theorem strdelim_refines:
  assumes "NUL \<in> set (drop i b)"
  shows "strdelim_abs (strdelim_buf b (Some i)) = strdelim (Some (at b i))
    \<and> strdelim_frame b i (strdelim_buf b (Some i))"
proof -
  from assms obtain post where d: "drop i b = at b i @ NUL # post" by (rule at_decomp)
  define pre where "pre = take i b"
  have i: "i = length pre" using assms by (cases "i \<le> length b") (auto simp: pre_def)
  have b: "b = pre @ at b i @ NUL # post" using d by (metis append_take_drop_id pre_def)
  have nn: "NUL \<notin> set (at b i)" by (simp add: at_def)
  show ?thesis
  proof (cases "strpbrk (WHITESPACE @ QUOTE @ ''='') (at b i)")
    case None
    then show ?thesis using assms
      by (simp add: strdelim_buf_def strdelim_def strdelim_abs_def strdelim_frame_def)
  next
    case (Some k)
    then have k: "k < length (at b i)" using strpbrk_SomeD by blast
    define t where "t = take k (at b i)"
    define c where "c = at b i ! k"
    define u where "u = drop (Suc k) (at b i)"
    have e: "at b i = t @ c # u" using k unfolding t_def c_def u_def by (rule id_take_nth_drop)
    have lt: "length t = k" using k by (simp add: t_def)
    have nn': "NUL \<notin> set (t @ c # u)" using nn e by simp
    have b': "b = pre @ t @ c # u @ NUL # post" using b e by simp
    show ?thesis
    proof (cases "c = CHR 0x22")
      case True
      then show ?thesis
        using strdelim_buf_quote [of t u b pre post] nn' Some lt b' e i by simp
    next
      case False
      then show ?thesis
        using strdelim_buf_plain [of t c u b pre post] nn' Some lt b' e i by simp
    qed
  qed
qed

section \<open>Tokens\<close>

definition delimiters :: "char set" where
  "delimiters = set (WHITESPACE @ QUOTE @ ''='')"

lemma strdelim_None [simp]: "strdelim None = (None, None)"
  by (simp add: strdelim_def)

lemma strdelim_last:
  "set w \<inter> delimiters = {} \<Longrightarrow> strdelim (Some w) = (Some w, None)"
  by (simp add: strdelim_def delimiters_def strpbrk_None_iff [THEN iffD2] split: option.split)

lemma strdelim_word:
  assumes "set w \<inter> delimiters = {}" "is_space c"
  shows "strdelim (Some (w @ c # r)) =
    (Some w, Some (let r' = dropWhile is_space r in
       if r' \<noteq> [] \<and> hd r' = CHR ''='' then dropWhile is_space (tl r') else r'))"
proof -
  have c: "c \<in> set (WHITESPACE @ QUOTE @ ''='')" "c \<noteq> CHR 0x22" "c \<noteq> CHR ''=''"
    using assms(2) by (auto simp: is_space_def WHITESPACE_def)
  have "strpbrk (WHITESPACE @ QUOTE @ ''='') (w @ c # r) = Some (length w)"
    using assms(1) c(1) by (intro strpbrk_append) (auto simp: delimiters_def)
  then show ?thesis using c by (simp add: strdelim_def Let_def is_space_eq)
qed

lemma strdelim_quoted:
  assumes "CHR 0x22 \<notin> set w"
  shows "strdelim (Some (CHR 0x22 # w @ CHR 0x22 # r)) = (Some w, Some [])"
proof -
  have "strpbrk QUOTE (w @ CHR 0x22 # r) = Some (length w)"
    using assms by (intro strpbrk_append) (auto simp: QUOTE_def)
  then show ?thesis by (simp add: strdelim_def QUOTE_def [symmetric]) (simp add: QUOTE_def)
qed

lemma strdelim_unmatched_quote:
  assumes "CHR 0x22 \<notin> set w"
  shows "strdelim (Some (CHR 0x22 # w)) = (None, None)"
proof -
  have "strpbrk QUOTE w = None"
    using assms by (auto simp: strpbrk_None_iff QUOTE_def)
  then show ?thesis by (simp add: strdelim_def QUOTE_def [symmetric]) (simp add: QUOTE_def)
qed

text \<open>A call that leaves something to read has consumed at least one character.\<close>

lemma strdelim_shrinks:
  assumes "strdelim (Some s) = (tok, Some r)"
  shows "length r < length s"
proof -
  obtain k where k: "strpbrk (WHITESPACE @ QUOTE @ ''='') s = Some k"
    using assms by (auto simp: strdelim_def split: option.splits)
  then have "k < length s" using strpbrk_SomeD by blast
  define d where "d = dropWhile (\<lambda>c. c \<in> set WHITESPACE) (drop (Suc k) s)"
  have "length d \<le> length (drop (Suc k) s)" unfolding d_def by (rule length_dropWhile_le)
  with \<open>k < length s\<close> have l1: "length d < length s" by simp
  have "length (dropWhile (\<lambda>c. c \<in> set WHITESPACE) (tl d)) \<le> length (tl d)"
    by (rule length_dropWhile_le)
  with l1 have l2: "length (dropWhile (\<lambda>c. c \<in> set WHITESPACE) (tl d)) < length s" by simp
  have "r = [] \<or> r = d \<or> r = dropWhile (\<lambda>c. c \<in> set WHITESPACE) (tl d)"
    using assms k by (simp add: strdelim_def Let_def d_def split: option.splits if_splits)
  then show ?thesis using l1 l2 \<open>k < length s\<close> by auto
qed

text \<open>C24. The tokeniser works in place on the buffer of the line: what it does to the buffer shows,
  from outside, as the splitting function on strings. It writes no byte before the string it is
  given, keeps the length of the buffer, leaves every string terminated and points the caller
  behind the token.\<close>

theorem strdelim_in_place_refines:
  assumes "NUL \<in> set (drop i b)"
  shows "strdelim_abs (strdelim_buf b (Some i)) = strdelim (Some (at b i))
    \<and> strdelim_frame b i (strdelim_buf b (Some i))"
  by (rule strdelim_refines [OF assms])

theorem strdelim_in_place_refines_witness:
  "strdelim_abs (strdelim_buf (''set a'' @ [NUL]) (Some 0)) = (Some ''set'', Some ''a'')"
  using strdelim_in_place_refines [of 0 "''set a'' @ [NUL]"]
    strdelim_word [of "''set''" "CHR '' ''" "''a''"]
  by (simp add: at_def cstr_def delimiters_def is_space_def WHITESPACE_def QUOTE_def)

end
