(* ===== verification/Config.thy ===== *)
theory Config
  imports Profile Strdelim
begin

text \<open>
  The configuration file, \<open>config.c\<close>: the variables a line can set, the profiles it can start,
  and the loop over the lines. \<open>current_profile\<close>, a static variable of
  \<open>process_config_line\<close>, decides whether \<open>set\<close> goes to the global variables or to a profile;
  it is a pointer into the store of \<open>Profile\<close>, so a profile that is registered is changed
  through it. The checks of files and directories are in \<open>ConfigFiles\<close>.
\<close>

section \<open>The code\<close>

text \<open>\<open>join_path\<close> of \<open>utils.c\<close>, and the name it makes.\<close>

definition join_path :: "allocator \<Rightarrow> string \<Rightarrow> string \<Rightarrow> halt + string" where
  "join_path ok base tail = join ok CHR ''/'' base tail"

definition in_dir :: "string \<Rightarrow> string \<Rightarrow> string" where
  "in_dir base tail = base @ ''/'' @ tail"

lemma join_path_Inr: "join_path ok d x = Inr p \<Longrightarrow> p = in_dir d x"
  by (auto simp: join_path_def join_def in_dir_def dest: formatted_Inr)

lemma join_path_always [simp]: "join_path always d x = Inr (in_dir d x)"
  by (simp add: join_path_def join_def in_dir_def)

definition parse_boolean :: "string option \<Rightarrow> bool" where
  "parse_boolean v = (case v of None \<Rightarrow> False | Some s \<Rightarrow> if s \<noteq> [] \<and> hd s = CHR ''o'' then True else False)"

definition conf_err :: "string \<Rightarrow> int \<Rightarrow> halt" where
  "conf_err m linenum = Errx (''config:%d: '' @ m) [ArgD linenum]"

definition empty_value :: "string option \<Rightarrow> bool" where
  "empty_value v = (case v of None \<Rightarrow> True | Some s \<Rightarrow> s = [])"

text \<open>\<open>char_at s\<close> is \<open>s[0]\<close>.\<close>

definition char_at :: "string \<Rightarrow> char" where
  "char_at s = (case s of [] \<Rightarrow> NUL | c # _ \<Rightarrow> c)"

definition config_resolve_character_set :: "allocator \<Rightarrow> charmap \<Rightarrow> string \<Rightarrow> halt + wchar list option" where
  "config_resolve_character_set ok cm v =
    (let cs =
       (if char_at v = CHR ''$'' then
          if streq v ''$DIGITS'' then wcsdup_set ok CHARSET_DIGITS
          else if streq v ''$LOWERCASE'' then wcsdup_set ok CHARSET_LOWERCASE
          else if streq v ''$UPPERCASE'' then wcsdup_set ok CHARSET_UPPERCASE
          else if streq v ''$ALPHA'' then wcsdup_set ok CHARSET_ALPHA
          else if streq v ''$ALPHANUMERIC'' then wcsdup_set ok CHARSET_ALPHANUMERIC
          else if streq v ''$SYMBOLS'' then wcsdup_set ok CHARSET_SYMBOLS
          else if streq v ''$PRINTABLE'' then wcsdup_set ok CHARSET_PRINTABLE
          else None
        else None)
     in case cs of
          Some c \<Rightarrow> Inr (Some c)
        | None \<Rightarrow> ebind (mbs_duplicate_as_wcs ok cm v) (\<lambda>w. Inr (map_option (cstr 0) w)))"

definition set_variable :: "allocator \<Rightarrow> charmap \<Rightarrow> string \<Rightarrow> string option \<Rightarrow> int \<Rightarrow> config \<Rightarrow> halt + config" where
  "set_variable ok cm nm v linenum cfg =
    (if nm = ''backup'' then Inr (cfg\<lparr>cfg_backup := parse_boolean v\<rparr>)
     else if nm = ''character_count'' then
       (if empty_value v then Inl (conf_err ''invalid value for character_count'' linenum)
        else Inr (cfg\<lparr>cfg_character_count := to_uint (strtoull (the v))\<rparr>))
     else if nm = ''character_set'' then
       (if empty_value v then Inl (conf_err ''invalid value for character_set'' linenum)
        else
          ebind (config_resolve_character_set ok cm (the v)) (\<lambda>r.
          case r of
            None \<Rightarrow> Inl (Err ''unable to load global character_set (wrong locale?)'' [])
          | Some cs \<Rightarrow> Inr (cfg\<lparr>cfg_character_set := Some cs\<rparr>)))
     else if nm = ''editor'' then
       (if empty_value v then Inl (conf_err ''invalid value for editor'' linenum)
        else Inr (cfg\<lparr>cfg_editor := strdup ok (the v)\<rparr>))
     else if nm = ''gpg_key_id'' then
       (if cfg_gpg_key_id cfg \<noteq> None then Inl (conf_err ''gpg_key_id defined multiple times'' linenum)
        else if empty_value v then Inl (conf_err ''invalid value for gpg_key_id'' linenum)
        else Inr (cfg\<lparr>cfg_gpg_key_id := strdup ok (the v)\<rparr>))
     else if nm = ''gpg_path'' then
       (if cfg_gpg_path cfg \<noteq> None then Inl (conf_err ''gpg_path defined multiple times'' linenum)
        else if empty_value v then Inl (conf_err ''invalid value for gpg_path'' linenum)
        else Inr (cfg\<lparr>cfg_gpg_path := strdup ok (the v)\<rparr>))
     else if nm = ''gpg_timeout'' then
       (if empty_value v then Inl (conf_err ''invalid value for gpg_timeout'' linenum)
        else Inr (cfg\<lparr>cfg_gpg_timeout := to_uint (strtoull (the v))\<rparr>))
     else if nm = ''password_count'' then
       (if empty_value v then Inl (conf_err ''invalid value for password_count'' linenum)
        else Inr (cfg\<lparr>cfg_password_count := to_uint (strtoull (the v))\<rparr>))
     else if nm = ''password_file'' then
       (if cfg_password_file cfg \<noteq> None then Inl (conf_err ''password_file defined multiple times'' linenum)
        else if empty_value v then Inl (conf_err ''invalid value for password_file'' linenum)
        else Inr (cfg\<lparr>cfg_password_file := strdup ok (the v)\<rparr>))
     else if nm = ''timeout'' then
       (if empty_value v then Inl (conf_err ''invalid value for timeout'' linenum)
        else Inr (cfg\<lparr>cfg_timeout := to_uint (strtoull (the v))\<rparr>))
     else Inl (conf_err ''unknown variable'' linenum))"

definition set_profile_variable :: "allocator \<Rightarrow> charmap \<Rightarrow> profile \<Rightarrow> string \<Rightarrow> string option \<Rightarrow> int \<Rightarrow>
    halt + profile" where
  "set_profile_variable ok cm profile nm v linenum =
    (if nm = ''character_count'' then
       (if empty_value v then Inl (conf_err ''invalid value for character_count'' linenum)
        else Inr (profile\<lparr>character_count := to_uint (strtoull (the v))\<rparr>))
     else if nm = ''character_set'' then
       (if empty_value v then Inl (conf_err ''invalid value for character_set'' linenum)
        else
          ebind (config_resolve_character_set ok cm (the v)) (\<lambda>r.
          case r of
            None \<Rightarrow> Inl (printed (name profile) (\<lambda>n. Err ''unable to load global character_set for profile '%s' (wrong locale?)''
                [ArgS n]))
          | Some cs \<Rightarrow> Inr (profile\<lparr>character_set := Some cs\<rparr>)))
     else if nm = ''password_count'' then
       (if empty_value v then Inl (conf_err ''invalid value for password_count'' linenum)
        else Inr (profile\<lparr>password_count := to_uint (strtoull (the v))\<rparr>))
     else Inl (conf_err ''unknown profile variable'' linenum))"

text \<open>The state: the global variables, the profiles and \<open>current_profile\<close>.\<close>

record conf_state =
  cfg :: config
  reg :: registry
  current_profile :: "nat option"

definition do_set :: "allocator \<Rightarrow> charmap \<Rightarrow> string \<Rightarrow> string option \<Rightarrow> int \<Rightarrow> conf_state \<Rightarrow> halt + conf_state" where
  "do_set ok cm nm v linenum st =
    (case current_profile st of
       None \<Rightarrow> ebind (set_variable ok cm nm v linenum (cfg st)) (\<lambda>c. Inr (st\<lparr>cfg := c\<rparr>))
     | Some p \<Rightarrow>
         ebind (rd (store (reg st)) p) (\<lambda>profile.
         ebind (set_profile_variable ok cm profile nm v linenum) (\<lambda>profile.
         ebind (wr (store (reg st)) p profile) (\<lambda>ps.
         Inr (st\<lparr>reg := (reg st)\<lparr>store := ps\<rparr>\<rparr>)))))"

definition do_profile :: "allocator \<Rightarrow> string \<Rightarrow> conf_state \<Rightarrow> halt + conf_state" where
  "do_profile ok nm st =
    ebind (profile_new ok (cfg st) nm (reg st)) (\<lambda>(p, r).
    ebind (profile_register ok (Some p) r) (\<lambda>r.
    Inr (st\<lparr>reg := r, current_profile := Some p\<rparr>)))"

definition process_config_line :: "allocator \<Rightarrow> charmap \<Rightarrow> string \<Rightarrow> string \<Rightarrow> int \<Rightarrow> conf_state \<Rightarrow>
    halt + int \<times> conf_state" where
  "process_config_line ok cm path line linenum st =
    (let line = cstr NUL (strip_trailing_whitespaces (line @ [NUL])) in
     case strdelim (Some line) of
       (None, _) \<Rightarrow> Inr (0, st)
     | (Some keyword, rest) \<Rightarrow>
         let (keyword, rest) = (if keyword = [] then strdelim rest else (Some keyword, rest)) in
         if keyword = None \<or> char_at (the keyword) \<in> {NUL, CHR 0x0A, CHR ''#''} then Inr (0, st)
         else if the keyword = ''set'' then
           (case strdelim rest of
              (None, _) \<Rightarrow> Inl (Errx ''%s: set without variable name on line %d.''
                  [ArgS path, ArgD linenum])
            | (Some nm, rest) \<Rightarrow>
                let v = fst (strdelim rest) in
                ebind (do_set ok cm nm v linenum st) (\<lambda>st. Inr (0, st)))
         else if the keyword = ''profile'' then
           (case strdelim rest of
              (None, _) \<Rightarrow> Inl (Errx ''%s: profile without variable name on line %d.''
                  [ArgS path, ArgD linenum])
            | (Some nm, rest) \<Rightarrow> ebind (do_profile ok nm st) (\<lambda>st. Inr (0, st)))
         else Inl (Errx ''%s: unknown command on line %d.'' [ArgS path, ArgD linenum]))"

text \<open>
  The loop of \<open>config_read\<close>; \<open>fp\<close> is the rest of the file. \<open>linenum++\<close> is evaluated before the call.
\<close>

function config_loop :: "allocator \<Rightarrow> charmap \<Rightarrow> string \<Rightarrow> string \<Rightarrow> int \<Rightarrow> conf_state \<Rightarrow>
    halt + conf_state" where
  "config_loop ok cm path fp linenum st =
    (case fgets MAX_LINE_SIZE fp of
       None \<Rightarrow> Inr st
     | Some (line, fp) \<Rightarrow>
         ebind (int_succ ''linenum overflows'' linenum) (\<lambda>linenum'.
         ebind (process_config_line ok cm path (cstr NUL line) linenum st) (\<lambda>(_, st).
         config_loop ok cm path fp linenum' st)))"
  by pat_completeness auto
termination
  by (relation "measure (\<lambda>(ok, cm, path, fp, linenum, st). length fp)") (auto dest: fgets_shorter)

declare config_loop.simps [simp del]

text \<open>
  \<open>config_read\<close>, with \<open>fopen\<close>'s result: \<open>None\<close> when the file cannot be opened. \<open>path\<close> is
  \<open>cmd_config_path\<close>, which \<open>main\<close> has set.
\<close>

definition config_read :: "allocator \<Rightarrow> charmap \<Rightarrow> string \<Rightarrow> string option \<Rightarrow> conf_state \<Rightarrow>
    halt + conf_state" where
  "config_read ok cm path fp st =
    (case fp of None \<Rightarrow> Inr st | Some s \<Rightarrow> config_loop ok cm path s 1 st)"

text \<open>
  \<open>config_set_defaults\<close> up to its last line, which sets \<open>lock_path\<close>: the variables, and whether the
  warning about the missing editor was printed.
\<close>

definition config_set_defaults :: "allocator \<Rightarrow> options \<Rightarrow> string \<Rightarrow> config \<Rightarrow> halt + config \<times> bool" where
  "config_set_defaults ok opts config_dir c =
    (let c = (if cfg_gpg_path c = None then c\<lparr>cfg_gpg_path := strdup ok ''/usr/bin/gpg''\<rparr> else c);
         c = (if cmd_gpg_key_id opts \<noteq> None then c\<lparr>cfg_gpg_key_id := cmd_gpg_key_id opts\<rparr> else c)
     in ebind (if cfg_password_file c = None
               then ebind (join_path ok config_dir ''passwords'') (\<lambda>p. Inr (c\<lparr>cfg_password_file := Some p\<rparr>))
               else Inr c) (\<lambda>c.
        let warn = (cfg_editor c = None);
            c = (if cfg_editor c = None then c\<lparr>cfg_editor := strdup ok ''/usr/bin/vi''\<rparr> else c)
        in Inr (c, warn)))"

section \<open>Numbers\<close>

lemma digits_value_snoc: "digits_value (ds @ [c]) = 10 * digits_value ds + (of_char c - 48)"
  by (simp add: digits_value_def)

lemma dec_digits_spec:
  "digits_value (dec_digits n) = n \<and> (\<forall>c\<in>set (dec_digits n). is_digit c) \<and> dec_digits n \<noteq> []"
proof (induction n rule: dec_digits.induct)
  case (1 n)
  show ?case
  proof (cases "n < 10")
    case True
    then show ?thesis
      by (simp add: dec_digits.simps [of n] digits_value_def is_digit_def of_char_digit)
  next
    case False
    have "n mod 10 < 10" by simp
    then show ?thesis using False 1
      by (simp add: dec_digits.simps [of n] digits_value_snoc is_digit_def of_char_digit)
  qed
qed

lemma is_digit_not:
  assumes "is_digit c"
  shows "\<not> isspace c" "c \<noteq> CHR ''-''" "c \<noteq> CHR ''+''" "c \<noteq> NUL" "c \<notin> delimiters" "\<not> is_space c"
  using assms by (auto simp: is_digit_def isspace_def delimiters_def WHITESPACE_def QUOTE_def is_space_def)

lemma strtoull_digits:
  assumes "n < 2 ^ 64"
  shows "strtoull (dec_digits n) = of_nat n"
proof -
  note d = dec_digits_spec [of n]
  then obtain c cs where c: "dec_digits n = c # cs" by (cases "dec_digits n") auto
  then have "is_digit c" using d by auto
  have t: "takeWhile is_digit (c # cs) = c # cs"
    using d c by (simp add: takeWhile_eq_all_conv)
  have v: "digits_value (c # cs) = n" using d c by simp
  show ?thesis using assms is_digit_not [OF \<open>is_digit c\<close>]
    by (simp add: strtoull_def Let_def c t v del: takeWhile.simps)
qed

section \<open>Reading a line\<close>

definition plain_word :: "string \<Rightarrow> bool" where
  "plain_word w \<longleftrightarrow> w \<noteq> [] \<and> set w \<inter> delimiters = {} \<and> NUL \<notin> set w"

lemma plain_word_digits: "plain_word (dec_digits n)"
  using dec_digits_spec [of n] is_digit_not by (fastforce simp: plain_word_def)

lemma plain_word_hd:
  assumes "plain_word w"
  obtains c cs where "w = c # cs" "\<not> is_space c" "c \<noteq> CHR ''=''" "\<not> is_space (last w)"
proof -
  from assms obtain c cs where w: "w = c # cs" by (auto simp: plain_word_def neq_Nil_conv)
  have "\<not> is_space c \<and> c \<noteq> CHR ''=''" if "c \<in> set w" for c
    using assms that by (auto simp: plain_word_def delimiters_def is_space_def WHITESPACE_def QUOTE_def)
  moreover have "c \<in> set w" "last w \<in> set w" using w by auto
  ultimately show thesis using w by (intro that) auto
qed

lemma strip_line:
  assumes "plain_word w" "NUL \<notin> set s"
  shows "cstr NUL (strip_trailing_whitespaces ((s @ w @ [NL]) @ [NUL])) = s @ w"
proof -
  have "NUL \<notin> set (s @ w @ [NL])" using assms by (auto simp: plain_word_def NL_def)
  then have "cstr NUL ((s @ w @ [NL]) @ [NUL]) = (s @ w) @ [NL]"
    using cstr_append_nul [of NUL "s @ w @ [NL]" "[]"] by simp
  moreover have "is_space NL" by (simp add: is_space_def WHITESPACE_def NL_def)
  moreover have "w \<noteq> []" "\<not> is_space (last w)" using assms(1) by (auto elim: plain_word_hd)
  ultimately show ?thesis using strip_right_snoc [of is_space "s @ w" NL]
    by (simp add: strip_trailing_spec strip_right_id)
qed

lemma strdelim_next:
  assumes "plain_word w" "plain_word v"
  shows "strdelim (Some (w @ CHR '' '' # v @ r)) = (Some w, Some (v @ r))"
proof -
  obtain c cs where c: "v = c # cs" "\<not> is_space c" "c \<noteq> CHR ''=''" using assms(2) by (rule plain_word_hd)
  have "is_space CHR '' ''" by (simp add: is_space_def WHITESPACE_def)
  moreover have "set w \<inter> delimiters = {}" using assms(1) by (simp add: plain_word_def)
  ultimately show ?thesis using strdelim_word [of w "CHR '' ''" "v @ r"] c by simp
qed

lemma set_line:
  assumes "plain_word nm" "plain_word v"
  shows "process_config_line ok cm path (''set '' @ nm @ '' '' @ v @ [NL]) linenum st =
    ebind (do_set ok cm nm (Some v) linenum st) (\<lambda>st. Inr (0, st))"
proof -
  have pw: "plain_word ''set''"
    by (auto simp: plain_word_def delimiters_def WHITESPACE_def QUOTE_def)
  have s: "cstr NUL (strip_trailing_whitespaces ((''set '' @ nm @ '' '' @ v @ [NL]) @ [NUL])) =
      ''set'' @ CHR '' '' # nm @ CHR '' '' # v"
    using strip_line [OF assms(2), of "''set '' @ nm @ '' ''"] assms(1) by (simp add: plain_word_def)
  have d1: "strdelim (Some (''set'' @ CHR '' '' # nm @ CHR '' '' # v)) = (Some ''set'', Some (nm @ CHR '' '' # v))"
    by (rule strdelim_next [OF pw assms(1)])
  have d2: "strdelim (Some (nm @ CHR '' '' # v)) = (Some nm, Some v)"
    using strdelim_next [OF assms, of "[]"] by simp
  have d3: "strdelim (Some v) = (Some v, None)"
    using assms(2) by (intro strdelim_last) (simp add: plain_word_def)
  show ?thesis unfolding process_config_line_def s d1 Let_def
    by (simp add: d2 d3 char_at_def)
qed

section \<open>The state stays well formed\<close>

definition conf_inv :: "conf_state \<Rightarrow> bool" where
  "conf_inv st \<longleftrightarrow> registry_inv (reg st) \<and> (\<forall>p. current_profile st = Some p \<longrightarrow> p < length (store (reg st)))"

lemma set_profile_variable_name:
  "set_profile_variable ok cm profile nm v linenum = Inr p \<Longrightarrow>
   name p = name profile \<and> (character_set profile \<noteq> None \<longrightarrow> character_set p \<noteq> None)"
  by (auto simp: set_profile_variable_def ebind_eq_Inr_iff split: if_splits option.splits)

lemma do_set_inv:
  assumes "conf_inv st" "do_set ok cm nm v linenum st = Inr st'"
  shows "conf_inv st' \<and> (current_profile st \<noteq> None \<longrightarrow> cfg st' = cfg st)
    \<and> current_profile st' = current_profile st"
proof (cases "current_profile st")
  case None
  then show ?thesis using assms by (auto simp: do_set_def conf_inv_def ebind_eq_Inr_iff)
next
  case (Some p)
  then have lt: "p < length (store (reg st))" using assms(1) by (simp add: conf_inv_def)
  then obtain q where q: "set_profile_variable ok cm (store (reg st) ! p) nm v linenum = Inr q"
      "st' = st\<lparr>reg := (reg st)\<lparr>store := (store (reg st))[p := q]\<rparr>\<rparr>"
    using assms(2) Some by (auto simp: do_set_def ebind_eq_Inr_iff)
  have "name q \<noteq> None \<and> character_set q \<noteq> None"
    using set_profile_variable_name [OF q(1)] assms(1) lt by (simp add: conf_inv_def registry_inv_def)
  then have "\<forall>r\<in>set ((store (reg st))[p := q]). name r \<noteq> None \<and> character_set r \<noteq> None"
    using assms(1) set_update_subset_insert [of "store (reg st)" p q]
    by (auto simp: conf_inv_def registry_inv_def)
  then show ?thesis using assms(1) Some q(2) by (auto simp: conf_inv_def registry_inv_def)
qed

lemma do_profile_inv:
  assumes "conf_inv st" "do_profile ok nm st = Inr st'" "\<forall>n. ok n"
  shows "conf_inv st' \<and> cfg st' = cfg st \<and> current_profile st' \<noteq> None"
proof -
  obtain p r r' where p: "profile_new ok (cfg st) nm (reg st) = Inr (p, r)"
      "profile_register ok (Some p) r = Inr r'" "st' = st\<lparr>reg := r', current_profile := Some p\<rparr>"
    using assms(2) by (auto simp: do_profile_def ebind_eq_Inr_iff)
  obtain q where q: "p = length (store (reg st))" "r = (reg st)\<lparr>store := store (reg st) @ [q]\<rparr>"
      "name q \<noteq> None" "character_set q \<noteq> None"
    using p(1) assms(3)
    by (auto simp: profile_new_def ebind_eq_Inr_iff strdup_def wcsdup_set_def wcsdup_def Let_def split: option.splits)
  obtain a where a: "ARRAY_ADD ok (profiles (reg st)) p = Inr a" "r' = r\<lparr>profiles := a\<rparr>"
    using p(2) q(2) by (auto simp: profile_register_def ebind_eq_Inr_iff)
  have "carr_inv (profiles (reg st))" using assms(1) by (simp add: conf_inv_def registry_inv_def)
  from carr_add [OF this a(1)] show ?thesis
    using assms(1) p(3) q a(2) by (auto simp: conf_inv_def registry_inv_def less_Suc_eq)
qed

lemma process_config_line_inv:
  assumes "conf_inv st" "process_config_line ok cm path line linenum st = Inr (n, st')" "\<forall>n. ok n"
  shows "conf_inv st' \<and> (current_profile st \<noteq> None \<longrightarrow> cfg st' = cfg st \<and> current_profile st' \<noteq> None)"
proof -
  consider "st' = st" | (set) nm v where "do_set ok cm nm v linenum st = Inr st'"
    | (profile) nm where "do_profile ok nm st = Inr st'"
    using assms(2) unfolding process_config_line_def Let_def
    by (auto simp: ebind_eq_Inr_iff split: option.splits prod.splits if_splits)
  then show ?thesis
  proof cases
    case 1
    then show ?thesis using assms(1) by simp
  next
    case (set nm v)
    then show ?thesis using do_set_inv [OF assms(1)] by fastforce
  next
    case (profile nm)
    then show ?thesis using do_profile_inv [OF assms(1) _ assms(3)] by blast
  qed
qed

lemma config_loop_inv:
  assumes "conf_inv st" "config_loop ok cm path fp linenum st = Inr st'" "\<forall>n. ok n"
  shows "conf_inv st' \<and> (current_profile st \<noteq> None \<longrightarrow> cfg st' = cfg st)"
  using assms(1,2)
proof (induction ok\<equiv>ok cm\<equiv>cm path\<equiv>path fp linenum st rule: config_loop.induct)
  case (1 fp linenum st)
  show ?case
  proof (cases "fgets MAX_LINE_SIZE fp")
    case None
    then show ?thesis using 1(2,3) by (simp add: config_loop.simps [of ok cm path fp])
  next
    case (Some p)
    obtain line rest where p: "p = (line, rest)" by fastforce
    then obtain k n st1 where l: "int_succ ''linenum overflows'' linenum = Inr k"
        "process_config_line ok cm path (cstr NUL line) linenum st = Inr (n, st1)"
        "config_loop ok cm path rest k st1 = Inr st'"
      using 1(3) Some by (auto simp: config_loop.simps [of ok cm path fp] ebind_eq_Inr_iff)
    note i = process_config_line_inv [OF 1(2) l(2) assms(3)]
    have "conf_inv st' \<and> (current_profile st1 \<noteq> None \<longrightarrow> cfg st' = cfg st1)"
      using 1(1) [OF Some p [symmetric] l(1,2) refl] i l(3) by blast
    with i show ?thesis by auto
  qed
qed

section \<open>No undefined behaviour\<close>

lemma mbs_duplicate_safe [safe_intros]: "safe (mbs_duplicate_as_wcs ok cm s)"
proof (cases "decode cm s")
  case None
  then show ?thesis by (simp add: mbs_duplicate_as_wcs_def mbstowcs_len_decode)
next
  case (Some ws)
  have "mbstowcs cm (replicate (length ws + 1) 0) 0 (length ws + 1) s =
      Inr (ws @ [0], Some (length ws))"
    using mbstowcs_spec [of 0 cm s "length ws + 1" "replicate (length ws + 1) 0"]
      decode_prefix_eq [OF Some] Some by simp
  then show ?thesis using Some
    by (simp add: mbs_duplicate_as_wcs_def mbstowcs_len_decode safe_ebind del: replicate_Suc)
qed

lemma config_resolve_safe [safe_intros]: "safe (config_resolve_character_set ok cm v)"
  unfolding config_resolve_character_set_def Let_def
  by (intro safe_case_option safe_ebind mbs_duplicate_safe) simp_all

lemma set_variable_safe [safe_intros]: "safe (set_variable ok cm nm v linenum c)"
  unfolding set_variable_def conf_err_def
  by (intro safe_if safe_case_option safe_ebind config_resolve_safe) simp_all

lemma set_profile_variable_safe:
  "name profile \<noteq> None \<Longrightarrow> safe (set_profile_variable ok cm profile nm v linenum)"
  unfolding set_profile_variable_def conf_err_def
  by (intro safe_if safe_case_option safe_ebind config_resolve_safe) (auto simp: printed_def)

lemma do_set_safe: "conf_inv st \<Longrightarrow> safe (do_set ok cm nm v linenum st)"
  unfolding do_set_def
  by (intro safe_case_option safe_ebind set_variable_safe set_profile_variable_safe)
    (auto simp: conf_inv_def registry_inv_def)

lemma do_profile_safe: "conf_inv st \<Longrightarrow> safe (do_profile ok nm st)"
  unfolding do_profile_def profile_new_def profile_register_def
  by (intro safe_case_option safe_case_prod safe_ebind ARRAY_ADD_safe)
    (auto simp: conf_inv_def registry_inv_def Let_def ebind_eq_Inr_iff)

lemma process_config_line_safe:
  "conf_inv st \<Longrightarrow> safe (process_config_line ok cm path line linenum st)"
  unfolding process_config_line_def Let_def
  by (intro safe_case_option safe_case_prod safe_if safe_ebind do_set_safe do_profile_safe) simp_all

text \<open>
  The loop counts its lines in an \<open>int\<close>: it only leaves what C defines after the line of that number,
  and every line has a character at least.
\<close>

definition safe_lines :: "nat \<Rightarrow> int \<Rightarrow> halt + 'a \<Rightarrow> bool" where
  "safe_lines n linenum m \<longleftrightarrow> safe m \<or> (m = Inl (Undefined ''linenum overflows'') \<and> 2147483647 < int n + linenum)"

lemma config_loop_safe:
  assumes "conf_inv st" "\<forall>n. ok n"
  shows "safe_lines (length fp) linenum (config_loop ok cm path fp linenum st)"
  using assms(1)
proof (induction ok\<equiv>ok cm\<equiv>cm path\<equiv>path fp linenum st rule: config_loop.induct)
  case (1 fp linenum st)
  show ?case
  proof (cases "fgets MAX_LINE_SIZE fp")
    case None
    then show ?thesis by (simp add: config_loop.simps [of ok cm path fp] safe_lines_def)
  next
    case (Some p)
    obtain line rest where p: "p = (line, rest)" by fastforce
    then have shorter: "length rest < length fp" using fgets_shorter Some by blast
    let ?m = "process_config_line ok cm path (cstr NUL line) linenum st"
    show ?thesis
    proof (cases "linenum < 2147483647")
      case False
      then show ?thesis using Some p shorter
        by (simp add: config_loop.simps [of ok cm path fp] safe_lines_def int_succ_def)
    next
      case True
      have step: "config_loop ok cm path fp linenum st = ebind ?m (\<lambda>(_, st). config_loop ok cm path rest (linenum + 1) st)"
        using Some p True by (simp add: config_loop.simps [of ok cm path fp])
      show ?thesis
      proof (cases ?m)
        case (Inl h)
        then show ?thesis using process_config_line_safe [OF 1(2), of ok cm path "cstr NUL line" linenum] step
          by (simp add: safe_lines_def safe_def)
      next
        case (Inr q)
        obtain n st1 where q: "q = (n, st1)" by fastforce
        have "safe_lines (length rest) (linenum + 1) (config_loop ok cm path rest (linenum + 1) st1)"
          using 1(1) [OF Some p [symmetric] int_succ_ok [OF True] Inr [unfolded q] refl]
            process_config_line_inv [OF 1(2) Inr [unfolded q] assms(2)] by blast
        then show ?thesis using step Inr q shorter by (auto simp: safe_lines_def)
      qed
    qed
  qed
qed

section \<open>The properties of the configuration file\<close>

definition conf_initial :: conf_state where
  "conf_initial = \<lparr>cfg = config_initial, reg = registry_initial, current_profile = None\<rparr>"

lemma conf_initial_inv: "conf_inv conf_initial"
  by (simp add: conf_inv_def conf_initial_def registry_initial_inv)

text \<open>C20. Whatever the configuration file contains, and as long as memory is not refused, reading it
  returns and stays within what C defines, except that the \<open>int\<close> which counts the lines overflows
  in a file of $2^{31} - 1$ bytes or more: it
  ends with a diagnosed error or in a state where every registered profile and
  \<open>current_profile\<close> are allocated and named. Once a profile was started no line changes the
  global variables any more.\<close>

theorem config_read_safe:
  assumes "conf_inv st" "\<forall>n. ok n"
  shows "config_read ok cm path fp st \<noteq> Inl Forever
    \<and> (\<forall>u. config_read ok cm path fp st = Inl (Undefined u) \<longrightarrow>
         u = ''linenum overflows'' \<and> (\<exists>s. fp = Some s \<and> 2 ^ 31 - 1 \<le> length s))
    \<and> (\<forall>st'. config_read ok cm path fp st = Inr st' \<longrightarrow>
         conf_inv st' \<and> (current_profile st \<noteq> None \<longrightarrow> cfg st' = cfg st))"
proof (cases fp)
  case None
  then show ?thesis using assms(1) by (simp add: config_read_def)
next
  case (Some s)
  then show ?thesis
    using config_loop_safe [OF assms, of s 1 cm path] config_loop_inv [OF assms(1) _ assms(2)]
    by (auto simp: config_read_def safe_lines_def safe_def)
qed

theorem config_read_safe_witness:
  "\<forall>u. config_read always utf8 ''/h/config'' (Some ''set backup 1'') conf_initial \<noteq> Inl (Undefined u)"
  using config_read_safe [OF conf_initial_inv, of always utf8 "''/h/config''" "Some ''set backup 1''"] by auto

lemma to_uint_of_nat: "to_uint (of_nat n) = of_nat n"
proof -
  have "unat (to_uint (of_nat n)) = n mod 2 ^ 64 mod 2 ^ 32"
    by (simp add: to_uint_def unsigned_ucast_eq unat_of_nat take_bit_eq_mod)
  also have "\<dots> = n mod 2 ^ 32" by (rule mod_mod_cancel) simp
  also have "\<dots> = unat (of_nat n :: u32)" by (simp add: unat_of_nat)
  finally show ?thesis by (simp add: unsigned_word_eqI)
qed

text \<open>A number written in the file is the number the variable gets, modulo the width of
  \<open>unsigned int\<close>: \<open>set timeout 4294967296\<close> is accepted and sets the timeout to 0.\<close>

theorem timeout_line_roundtrip:
  assumes "current_profile st = None" "n < 2 ^ 64"
  shows "process_config_line ok cm path (''set timeout '' @ dec_digits n @ [NL]) linenum st =
    Inr (0, st\<lparr>cfg := (cfg st)\<lparr>cfg_timeout := of_nat n\<rparr>\<rparr>)"
proof -
  have pw: "plain_word ''timeout''"
    by (auto simp: plain_word_def delimiters_def WHITESPACE_def QUOTE_def)
  have "empty_value (Some (dec_digits n)) = False"
    using dec_digits_spec [of n] by (simp add: empty_value_def)
  then show ?thesis
    using set_line [OF pw plain_word_digits, of ok cm path n linenum st] assms
    by (simp add: do_set_def set_variable_def strtoull_digits to_uint_of_nat)
qed

theorem timeout_line_roundtrip_witness:
  "process_config_line always utf8 ''/h/config'' (''set timeout '' @ dec_digits 4294967296 @ [NL]) 1 conf_initial =
    Inr (0, conf_initial\<lparr>cfg := (cfg conf_initial)\<lparr>cfg_timeout := of_nat 4294967296\<rparr>\<rparr>)"
  by (rule timeout_line_roundtrip) (simp_all add: conf_initial_def)

text \<open>A \<open>set backup\<close> line turns the backup on exactly when the value starts with the letter
  \<open>o\<close>: \<open>off\<close> turns it on, \<open>yes\<close> and \<open>true\<close> turn it off.\<close>

theorem backup_line_looks_for_o:
  assumes "current_profile st = None" "plain_word v"
  shows "process_config_line ok cm path (''set backup '' @ v @ [NL]) linenum st =
    Inr (0, st\<lparr>cfg := (cfg st)\<lparr>cfg_backup := (hd v = CHR ''o'')\<rparr>\<rparr>)"
proof -
  have pw: "plain_word ''backup''"
    by (auto simp: plain_word_def delimiters_def WHITESPACE_def QUOTE_def)
  show ?thesis
    using set_line [OF pw assms(2), of ok cm path linenum st] assms
    by (simp add: do_set_def set_variable_def parse_boolean_def plain_word_def)
qed

theorem backup_line_looks_for_o_witness:
  "process_config_line always utf8 ''/h/config'' (''set backup '' @ ''off'' @ [NL]) 1 conf_initial =
    Inr (0, conf_initial\<lparr>cfg := (cfg conf_initial)\<lparr>cfg_backup := True\<rparr>\<rparr>)"
  using backup_line_looks_for_o [of conf_initial "''off''" always utf8 "''/h/config''" 1]
  by (simp add: conf_initial_def plain_word_def delimiters_def WHITESPACE_def QUOTE_def)

lemma profile_line:
  assumes "plain_word nm"
  shows "process_config_line ok cm path (''profile '' @ nm @ [NL]) linenum st =
    ebind (do_profile ok nm st) (\<lambda>st. Inr (0, st))"
proof -
  have pw: "plain_word ''profile''"
    by (auto simp: plain_word_def delimiters_def WHITESPACE_def QUOTE_def)
  have s: "cstr NUL (strip_trailing_whitespaces ((''profile '' @ nm @ [NL]) @ [NUL])) =
      ''profile'' @ CHR '' '' # nm"
    using strip_line [OF assms, of "''profile ''"] by simp
  have d1: "strdelim (Some (''profile'' @ CHR '' '' # nm)) = (Some ''profile'', Some nm)"
    using strdelim_next [OF pw assms, of "[]"] by simp
  have d2: "strdelim (Some nm) = (Some nm, None)"
    using assms by (intro strdelim_last) (simp add: plain_word_def)
  show ?thesis unfolding process_config_line_def s d1 Let_def
    by (simp add: d2 char_at_def)
qed

text \<open>C21. A \<open>profile\<close> line followed by a \<open>set character_count\<close> line registers one more profile:
  it has the given name, the number just set, and a snapshot of the global password count and
  character set; the profiles before it and the global variables are unchanged.\<close>

theorem profile_section_registers:
  assumes "conf_inv st" "plain_word nm" "n < 2 ^ 64"
    and "length (carr_list (profiles (reg st))) < 2 ^ 32 - 1" "cfg_character_set (cfg st) = Some cs" "0 \<notin> set cs"
  shows "\<exists>st1 st2. process_config_line always cm path (''profile '' @ nm @ [NL]) l1 st = Inr (0, st1)
    \<and> process_config_line always cm path (''set character_count '' @ dec_digits n @ [NL]) l2 st1 = Inr (0, st2)
    \<and> cfg st2 = cfg st
    \<and> registered (reg st2) = registered (reg st) @
        [\<lparr>name = Some nm, password_count = cfg_password_count (cfg st), character_count = of_nat n,
          character_set = Some cs\<rparr>]"
proof -
  let ?p = "length (store (reg st))"
  let ?q = "\<lparr>name = Some nm, password_count = cfg_password_count (cfg st),
    character_count = cfg_character_count (cfg st), character_set = Some cs\<rparr>"
  have ci: "carr_inv (profiles (reg st))" using assms(1) by (simp add: conf_inv_def registry_inv_def)
  obtain a where a: "ARRAY_ADD always (profiles (reg st)) ?p = Inr a"
    using carr.add_total [OF ci] assms(4) by blast
  have al: "carr_list a = carr_list (profiles (reg st)) @ [?p]"
    using carr.add_abs [OF ci a] .
  let ?st1 = "st\<lparr>reg := \<lparr>profiles = a, store = store (reg st) @ [?q]\<rparr>, current_profile := Some ?p\<rparr>"
  have x: "xcalloc always 1 24 = Inr 24" by (simp add: xcalloc_def SIZE_MAX_def)
  have "do_profile always nm st = Inr ?st1"
    using a assms(5,6) wcsdup_set_always [of cs]
    by (simp add: do_profile_def profile_new_def profile_register_def x strdup_def)
  then have l1: "process_config_line always cm path (''profile '' @ nm @ [NL]) l1 st = Inr (0, ?st1)"
    using profile_line [OF assms(2)] by simp
  have pw: "plain_word ''character_count''"
    by (auto simp: plain_word_def delimiters_def WHITESPACE_def QUOTE_def)
  let ?st2 = "?st1\<lparr>reg := \<lparr>profiles = a, store = store (reg st) @ [?q\<lparr>character_count := of_nat n\<rparr>]\<rparr>\<rparr>"
  have "empty_value (Some (dec_digits n)) = False"
    using dec_digits_spec [of n] by (simp add: empty_value_def)
  then have l2: "process_config_line always cm path (''set character_count '' @ dec_digits n @ [NL]) l2 ?st1 = Inr (0, ?st2)"
    using set_line [OF pw plain_word_digits, of always cm path n l2 ?st1] assms(3)
    by (simp add: do_set_def set_profile_variable_def strtoull_digits to_uint_of_nat)
  have "\<forall>p\<in>set (carr_list (profiles (reg st))). p < length (store (reg st))"
    using assms(1) by (simp add: conf_inv_def registry_inv_def)
  then have "registered (reg ?st2) = registered (reg st) @ [?q\<lparr>character_count := of_nat n\<rparr>]"
    by (simp add: registered_def al nth_append)
  with l1 l2 show ?thesis by auto
qed

lemma registry_initial_lists: "carr_list (profiles registry_initial) = []" "store registry_initial = []"
  by (simp_all add: registry_initial_def)

definition conf_digits :: conf_state where
  "conf_digits = conf_initial\<lparr>cfg := config_initial\<lparr>cfg_character_set := Some [49]\<rparr>\<rparr>"

theorem profile_section_registers_witness:
  "\<exists>st1 st2. process_config_line always utf8 ''/h/config'' (''profile '' @ ''pin'' @ [NL]) 1 conf_digits = Inr (0, st1)
    \<and> process_config_line always utf8 ''/h/config'' (''set character_count '' @ dec_digits 6 @ [NL]) 2 st1 = Inr (0, st2)
    \<and> cfg st2 = cfg conf_digits
    \<and> registered (reg st2) = registered (reg conf_digits) @
        [\<lparr>name = Some ''pin'', password_count = cfg_password_count (cfg conf_digits), character_count = of_nat 6,
          character_set = Some [49]\<rparr>]"
  by (rule profile_section_registers)
    (simp_all add: conf_digits_def conf_initial_def conf_inv_def registry_initial_inv plain_word_def
      delimiters_def WHITESPACE_def QUOTE_def registry_initial_lists)

end
