(* ===== verification/ResultsFilter.thy ===== *)
theory ResultsFilter
  imports Results
begin

text \<open>
  What the filters of \<open>results.c\<close> compute: plain keywords select the lines that contain all of
  them whatever the case, lines starting with \<open>#\<close> are never selected, and a keyword that does
  not fit in the buffer \<open>kw\<close> is used without its terminator.
\<close>

section \<open>Filling a short buffer\<close>

lemma mbstowcs_full:
  assumes "decode cm s = Some ws" "n \<le> pos + length ws" "pos \<le> n" "n \<le> length dst"
  shows "\<exists>r. mbstowcs cm dst pos n s = Inr (take pos dst @ take (n - pos) ws @ drop n dst, r)"
  using assms
proof (induction cm dst pos n s arbitrary: ws rule: mbstowcs.induct)
  case (1 cm dst pos n)
  then show ?case by (simp add: append_take_drop_id)
next
  case (2 cm dst pos n b s)
  show ?case
  proof (cases "n \<le> pos")
    case True
    then show ?thesis using 2 by simp
  next
    case False
    obtain c k ws' where d: "mbtowc cm (b # s) = Some (c, k)" "decode cm (drop (k - 1) s) = Some ws'" "ws = c # ws'"
      using 2(2) by (auto split: option.splits)
    have "\<exists>r. mbstowcs cm (dst[pos := c]) (Suc pos) n (drop (k - 1) s) =
        Inr (take (Suc pos) (dst[pos := c]) @ take (n - Suc pos) ws' @ drop n (dst[pos := c]), r)"
      using 2 False d by (intro 2(1)) auto
    moreover have "take (Suc pos) (dst[pos := c]) = take pos dst @ [c]"
      using False 2(5) by (simp add: take_Suc_conv_app_nth)
    moreover have "take (n - pos) ws = c # take (n - Suc pos) ws'"
    proof -
      have "n - pos = Suc (n - Suc pos)" using False by simp
      then show ?thesis using d(3) by simp
    qed
    ultimately show ?thesis using False 2(5) d by simp
  qed
qed

section \<open>Plain keywords\<close>

text \<open>The keywords that fit: at most 49 wide characters, convertible, without a NUL.\<close>

definition kw_fits :: "charmap \<Rightarrow> string \<Rightarrow> bool" where
  "kw_fits cm s \<longleftrightarrow> NUL \<notin> set s \<and>
     (case decode cm s of None \<Rightarrow> False | Some ws \<Rightarrow> length ws < KEYWORD_LENGTH)"

definition kw_matches :: "charmap \<Rightarrow> (wchar \<Rightarrow> wchar) \<Rightarrow> wchar list \<Rightarrow> string \<Rightarrow> bool" where
  "kw_matches cm lower line s \<longleftrightarrow> sublist (map lower (the (decode cm s))) (map lower line)"

lemma carr_item_nth:
  "keywords_inv kws \<Longrightarrow> i < length (keywords_abs kws) \<Longrightarrow>
   ARRAY_ITEM kws (of_nat i) = Inr (Some (keywords_abs kws ! i))"
  using carr.item_abs [of kws i]
  by (auto simp: keywords_inv_def keywords_abs_def) (metis nth_mem option.collapse)

context charset
begin

lemma plain_loop_spec:
  assumes "keywords_inv kws" "i + k = length (keywords_abs kws)" "length kw = KEYWORD_LENGTH"
    and "\<forall>s\<in>set (keywords_abs kws). kw_fits cm s"
  shows "plain_loop cm lower kws line k i kw = Inr (\<forall>s\<in>set (drop i (keywords_abs kws)). kw_matches cm lower line s)"
  using assms
proof (induction k arbitrary: i kw)
  case (Suc k)
  define s where "s = keywords_abs kws ! i"
  have i: "i < length (keywords_abs kws)" using Suc.prems(2) by simp
  then have "kw_fits cm s" using Suc.prems(4) by (simp add: s_def)
  then obtain ws where ws: "decode cm s = Some ws" "length ws < KEYWORD_LENGTH" "NUL \<notin> set s"
    by (auto simp: kw_fits_def split: option.splits)
  let ?kw = "ws @ 0 # drop (Suc (length ws)) kw"
  have m: "mbstowcs cm kw 0 KEYWORD_LENGTH s = Inr (?kw, Some (length ws))"
    using mbstowcs_spec [of 0 cm s KEYWORD_LENGTH kw] ws Suc.prems(3) decode_prefix_eq [OF ws(1)] by simp
  have z: "0 \<notin> set ws" using decode_nul_free [OF ws(1)] ws(3) by simp
  obtain r where r: "wcscasestr lower line ws = Inr r"
      "r = None \<longleftrightarrow> \<not> sublist (map lower ws) (map lower line)"
    using wcscasestr_spec [OF z] by blast
  have IH: "plain_loop cm lower kws line k (Suc i) ?kw =
      Inr (\<forall>s\<in>set (drop (Suc i) (keywords_abs kws)). kw_matches cm lower line s)"
    using Suc.prems ws(2) by (intro Suc.IH) auto
  have "drop i (keywords_abs kws) = s # drop (Suc i) (keywords_abs kws)"
    using i by (simp add: s_def Cons_nth_drop_Suc)
  then show ?case
    using carr_item_nth [OF Suc.prems(1) i] m z r IH ws(1) by (simp add: s_def [symmetric] kw_matches_def)
qed simp

lemma line_matches_plain_spec:
  assumes "keywords_inv kws" "\<forall>s\<in>set (keywords_abs kws). kw_fits cm s"
  shows "line_matches_plain cm lower kw0 kws line = Inr (\<forall>s\<in>set (keywords_abs kws). kw_matches cm lower line s)"
proof -
  have "unat (ARRAY_LENGTH kws) = length (keywords_abs kws)"
    using assms(1) by (simp add: keywords_inv_def keywords_abs_def carr.len_abs)
  then show ?thesis unfolding line_matches_plain_def
    using plain_loop_spec [OF assms(1) _ _ assms(2), of 0 "length (keywords_abs kws)" "map kw0 [0..<KEYWORD_LENGTH]"]
    by simp
qed

end

text \<open>A first keyword of 50 characters or more leaves \<open>kw\<close> without a terminator.\<close>

lemma plain_long_keyword:
  assumes "keywords_inv kws" "keywords_abs kws = s # ss" "decode cm s = Some ws" "0 \<notin> set ws"
    and "KEYWORD_LENGTH \<le> length ws"
  shows "line_matches_plain cm lower kw0 kws line = Inl (Undefined ''kw is not terminated'')"
proof -
  have n: "unat (ARRAY_LENGTH kws) = Suc (length ss)"
    using assms(1,2) by (metis carr.len_abs keywords_abs_def keywords_inv_def length_Cons length_map)
  obtain r where r: "mbstowcs cm (map kw0 [0..<KEYWORD_LENGTH]) 0 KEYWORD_LENGTH s =
      Inr (take KEYWORD_LENGTH ws, r)"
    using mbstowcs_full [OF assms(3), of KEYWORD_LENGTH 0 "map kw0 [0..<KEYWORD_LENGTH]"] assms(5) by auto
  have "0 \<notin> set (take KEYWORD_LENGTH ws)" using assms(4) by (meson in_set_takeD)
  then have "getstr_at ''kw is not terminated'' 0 (take KEYWORD_LENGTH ws) = Inl (Undefined ''kw is not terminated'')"
    by (simp add: getstr_at_def)
  then show ?thesis unfolding line_matches_plain_def n
    using carr_item_nth [OF assms(1), of 0] assms(2) r by simp
qed

section \<open>Filtering\<close>

lemma carr_set:
  assumes "carr_inv a" "i < length (carr_list a)"
  shows "\<exists>a'. ARRAY_SET a (of_nat i) x = Inr a' \<and> carr_inv a' \<and> carr_list a' = (carr_list a)[i := x]
    \<and> ARRAY_LENGTH a' = ARRAY_LENGTH a"
proof -
  have n: "length (carr_list a) = unat (num a)" using assms(1) by (simp add: length_carr_list)
  then have u: "unat (of_nat i :: u32) = i" using assms(2) unat_u32_less [of "num a"] by (simp add: unat_of_nat)
  have l: "unat (num a) \<le> length (items a)" using assms(1) by (auto simp: carr_inv_def)
  let ?a = "a\<lparr>items := (items a)[i := Some x]\<rparr>"
  have "ARRAY_SET a (of_nat i) x = Inr ?a"
    using u n l assms(2) by (simp add: ARRAY_SET_def)
  moreover have "carr_inv ?a"
  proof -
    have "(items a)[i := Some x] ! j \<noteq> None" if "j < unat (num a)" for j
      using that assms(1) l by (cases "j = i") (auto simp: carr_inv_def)
    then show ?thesis using assms(1) by (simp add: carr_inv_def)
  qed
  moreover have "carr_list ?a = (carr_list a)[i := x]"
    using n l assms(2) by (simp add: carr_list_def take_update_swap map_update)
  ultimately show ?thesis by (auto simp: ARRAY_LENGTH_def)
qed

lemma filter_loop_spec:
  assumes "carr_inv a" "i + k = length (carr_list a)"
    and "\<forall>r\<in>set (carr_list a). line_matches cm lower rx kw0 re kws (wcs_value r) mb = Inr (f (wcs_value r), mb)"
  shows "\<exists>a'. filter_loop cm lower rx kw0 re kws k i a mb = Inr (a', mb) \<and> carr_inv a'
    \<and> carr_list a' = take i (carr_list a) @ map (\<lambda>r. r\<lparr>visible := f (wcs_value r)\<rparr>) (drop i (carr_list a))"
  using assms
proof (induction k arbitrary: i a)
  case (Suc k)
  let ?r = "carr_list a ! i" and ?g = "\<lambda>r. r\<lparr>visible := f (wcs_value r)\<rparr>"
  have i: "i < length (carr_list a)" using Suc.prems(2) by simp
  obtain a1 where a1: "ARRAY_SET a (of_nat i) (?g ?r) = Inr a1" "carr_inv a1"
      "carr_list a1 = (carr_list a)[i := ?g ?r]"
    using carr_set [OF Suc.prems(1) i] by blast
  have "\<forall>r\<in>set (carr_list a1). line_matches cm lower rx kw0 re kws (wcs_value r) mb = Inr (f (wcs_value r), mb)"
    using Suc.prems(3) i set_update_subset_insert [of "carr_list a" i "?g ?r"] by (auto simp: a1(3))
  then obtain a' where a': "filter_loop cm lower rx kw0 re kws k (Suc i) a1 mb = Inr (a', mb)" "carr_inv a'"
      "carr_list a' = take (Suc i) (carr_list a1) @ map ?g (drop (Suc i) (carr_list a1))"
    using Suc.IH [OF a1(2), of "Suc i"] Suc.prems(2) by (auto simp: a1(3))
  have "line_matches cm lower rx kw0 re kws (wcs_value ?r) mb = Inr (f (wcs_value ?r), mb)"
    using Suc.prems(3) i by simp
  then have "filter_loop cm lower rx kw0 re kws (Suc k) i a mb = Inr (a', mb)"
    using carr.item_abs [OF Suc.prems(1) i] a1(1) a'(1) by (simp add: if_bool_eq_conj)
  moreover have "drop i (carr_list a) = ?r # drop (Suc i) (carr_list a)"
    using i by (simp add: Cons_nth_drop_Suc)
  moreover have "take (Suc i) (carr_list a1) = take i (carr_list a) @ [?g ?r]"
    using i by (simp add: a1(3) take_Suc_conv_app_nth)
  ultimately show ?case using a'(2,3) by (auto simp: a1(3))
qed simp

lemma filter_results_spec:
  assumes "carr_inv a"
    and "\<forall>r\<in>set (carr_list a). line_matches cm lower rx kw0 re kws (wcs_value r) mb = Inr (f (wcs_value r), mb)"
  shows "\<exists>a'. filter_results cm lower rx kw0 re kws a mb = Inr (a', mb) \<and> carr_inv a'
    \<and> carr_list a' = map (\<lambda>r. r\<lparr>visible := f (wcs_value r)\<rparr>) (carr_list a)"
  unfolding filter_results_def
  using filter_loop_spec [OF assms(1) _ assms(2), of 0 "unat (ARRAY_LENGTH a)"] assms(1)
  by (simp add: carr.len_abs)

text \<open>A line is selected when it is no comment and holds every keyword.\<close>

definition selected :: "charmap \<Rightarrow> (wchar \<Rightarrow> wchar) \<Rightarrow> string list \<Rightarrow> wchar list \<Rightarrow> bool" where
  "selected cm lower ks line \<longleftrightarrow> wc_at line \<noteq> 35 \<and> (\<forall>s\<in>set ks. kw_matches cm lower line s)"

context charset
begin

lemma filter_plain:
  assumes "carr_inv a" "keywords_inv kws" "\<forall>s\<in>set (keywords_abs kws). kw_fits cm s"
    and "\<forall>r\<in>set (carr_list a). wcs_value r \<noteq> None"
  shows "\<exists>a'. filter_results cm lower rx kw0 False kws a mb = Inr (a', mb) \<and> carr_inv a'
    \<and> carr_list a' = map (\<lambda>r. r\<lparr>visible := selected cm lower (keywords_abs kws) (the (wcs_value r))\<rparr>) (carr_list a)"
proof -
  have "\<forall>r\<in>set (carr_list a). line_matches cm lower rx kw0 False kws (wcs_value r) mb =
      Inr (selected cm lower (keywords_abs kws) (the (wcs_value r)), mb)"
    using assms(4) by (auto simp: line_matches_def selected_def line_matches_plain_spec [OF assms(2,3)])
  then show ?thesis by (rule filter_results_spec [OF assms(1)])
qed

end

section \<open>Counting\<close>

lemma fold_count: "fold (\<lambda>r n. if visible r then n + 1 else n) rs n = n + of_nat (length (filter visible rs) :: nat)"
  for n :: u32
  by (induction rs arbitrary: n) auto

lemma results_visible_length_spec:
  "carr_inv a \<Longrightarrow> results_visible_length a = Inr (of_nat (length (filter visible (carr_list a))))"
  using carr.for_items_pure [of a "\<lambda>result len. if visible result then len + 1 else len" "0 :: u32"]
  by (simp add: results_visible_length_def fold_count)

lemma print_results_spec:
  assumes "carr_inv a"
  shows "print_results a = Inr (map wcs_value (filter visible (carr_list a)))"
proof -
  have e: "(\<lambda>r out. if visible r then Inr (out @ [wcs_value r]) else Inr out) =
      (\<lambda>r out. Inr (if visible r then out @ [wcs_value r] else out))"
    by (auto simp: fun_eq_iff)
  have f: "fold (\<lambda>r out. if visible r then out @ [wcs_value r] else out) rs out =
      out @ map wcs_value (filter visible rs)" for rs out
    by (induction rs arbitrary: out) auto
  then show ?thesis unfolding print_results_def e
    using carr.for_items_pure [OF assms, of "\<lambda>r out. if visible r then out @ [wcs_value r] else out" "[]"]
      f [of "carr_list a" "[]"] by simp
qed

lemma get_max_length_spec:
  assumes "carr_inv a" "\<forall>r\<in>set (carr_list a). unat (wcs_len r) < 2 ^ 32"
  shows "\<exists>m. get_max_length a = Inr m \<and> unat m = Max (insert 0 ((\<lambda>r. unat (wcs_len r)) ` set (filter visible (carr_list a))))"
proof -
  let ?f = "\<lambda>r maxlen. if \<not> visible r then maxlen
      else if ucast maxlen < wcs_len r then ucast (wcs_len r) else (maxlen :: u32)"
  have e: "(\<lambda>r maxlen. if \<not> visible r then Inr maxlen
      else if ucast maxlen < wcs_len r then Inr (ucast (wcs_len r)) else Inr maxlen) = (\<lambda>r m. Inr (?f r m))"
    by (auto simp: fun_eq_iff)
  have "unat (fold ?f rs m) = Max (insert (unat m) ((\<lambda>r. unat (wcs_len r)) ` set (filter visible rs)))"
    if "\<forall>r\<in>set rs. unat (wcs_len r) < 2 ^ 32" for rs m
    using that
  proof (induction rs arbitrary: m)
    case (Cons r rs)
    let ?S = "(\<lambda>r. unat (wcs_len r)) ` set (filter visible rs)"
    have mx: "Max (insert y (insert x ?S)) = Max (insert (max x y) ?S)" for x y :: nat
      by (cases "?S = {}") (auto simp: max.assoc max.commute)
    have u: "unat (ucast (wcs_len r) :: u32) = unat (wcs_len r)"
      using Cons.prems by (simp add: unsigned_ucast_eq take_bit_nat_eq_self)
    have "unat (?f r m) = (if visible r then max (unat (wcs_len r)) (unat m) else unat m)"
      using u by (auto simp: word_less_nat_alt)
    then show ?case using Cons.IH [of "?f r m"] Cons.prems mx by simp
  qed simp
  from this [OF assms(2), of 0] show ?thesis unfolding get_max_length_def e
    using carr.for_items_pure [OF assms(1), of ?f 0] by simp
qed

section \<open>Loading a file of lines\<close>

context charset
begin

lemma decode_NL:
  assumes "wctomb cm 10 = Some [NL]" "decode cm l = Some ws"
  shows "decode cm (l @ [NL]) = Some (ws @ [10])"
  using decode_append [OF assms(2), of "[NL]"] decode_append_char [OF assms(1), of "[]"] by simp

lemma line_entry_NL:
  assumes "wctomb cm 10 = Some [NL]" "decode cm l = Some ws"
  shows "wcs_value (line_entry cm (l @ [NL])) = Some (strip_right is_wspace ws)"
    and "visible (line_entry cm (l @ [NL]))"
  using decode_NL [OF assms] by (simp_all add: line_entry_def entry_def Let_def is_wspace_def WCS_WHITESPACE_def)

lemma load_results_lines:
  assumes nl: "wctomb cm 10 = Some [NL]"
    and ls: "\<forall>l\<in>set ls. NUL \<notin> set l \<and> NL \<notin> set l \<and> length l + 1 < MAX_LINE_SIZE \<and> decode cm l \<noteq> None"
    and "length ls < 2 ^ 32" "length (concat (map (\<lambda>l. l @ [NL]) ls)) < 2 ^ 63"
  shows "\<exists>c wl rs. load_results_fp always junk cm (Some (concat (map (\<lambda>l. l @ [NL]) ls))) wline_initial results_initial
        = Some (Inr (of_nat (length ls), c, wl, rs, []))
    \<and> cksum (bytes (concat (map (\<lambda>l. l @ [NL]) ls))) = Some c
    \<and> carr_inv rs \<and> carr_list rs = map (\<lambda>l. line_entry cm (l @ [NL])) ls"
proof -
  let ?s = "concat (map (\<lambda>l. l @ [NL]) ls)"
  let ?ctx = "CKSUM_Init \<lparr>crc = 0, len = 0\<rparr>"
  have cs: "chunks ?s = map (\<lambda>l. l @ [NL]) ls" using ls by (intro chunks_lines) auto
  have "NUL \<notin> set ?s" using ls by (auto simp: NL_def)
  moreover have "\<forall>c\<in>set (chunks ?s). decode cm c \<noteq> None"
    using ls decode_NL [OF nl] by (auto simp: cs)
  moreover have "length (carr_list results_initial) + length (chunks ?s) < 2 ^ 32"
    using assms(3) by (simp add: cs results_initial_inv)
  ultimately obtain wl rs warn where l:
      "load_loop always junk cm ?s 0 wline_initial ?ctx results_initial [] =
        Inr (wl, CKSUM_Update ?ctx (bytes ?s) (length ?s), rs, warn)"
      "carr_inv rs" "carr_list rs = carr_list results_initial @ map (line_entry cm) (chunks ?s)"
      "(\<forall>c\<in>set (chunks ?s). NL \<in> set c) \<longrightarrow> warn = []"
    using load_loop_ok [OF _ _ wline_initial_inv results_initial_inv(1), where s = ?s and junk = junk and
      n = 0 and ctx = ?ctx and warn = "[]"] by blast
  have w: "warn = []" using l(4) by (simp add: cs)
  have rs: "carr_list rs = map (\<lambda>l. line_entry cm (l @ [NL])) ls"
    using l(3) by (simp add: cs results_initial_inv)
  have n: "ARRAY_LENGTH rs = of_nat (length ls)"
  proof -
    have "unat (ARRAY_LENGTH rs) = length ls" using carr.len_abs [OF l(2)] rs by simp
    then have "of_nat (unat (ARRAY_LENGTH rs)) = (of_nat (length ls) :: u32)" by simp
    then show ?thesis by simp
  qed
  obtain c where c: "cksum (bytes ?s) = Some c"
    using cksum_eq [of "bytes ?s"] assms(4) by (auto simp: bytes_def)
  then obtain z where z: "CKSUM_Final (CKSUM_Update ?ctx (bytes ?s) (length ?s)) = Some z" "crc z = c"
    by (auto simp: cksum_def bytes_def)
  have "load_results_fp always junk cm (Some ?s) wline_initial results_initial
      = Some (Inr (of_nat (length ls), c, wl, rs, []))"
    unfolding load_results_fp_def Let_def using l(1) z w n by simp
  with c l(2) rs show ?thesis by blast
qed

text \<open>
  A line that does not convert, after one that does: the entry it makes is its convertible
  part followed by what the line before left in the buffer.
\<close>

lemma load_loop_stale:
  assumes nl: "wctomb cm 10 = Some [NL]"
    and l1: "NUL \<notin> set l1" "NL \<notin> set l1" "length l1 + 1 < MAX_LINE_SIZE" "decode cm l1 = Some ws1"
    and l2: "NUL \<notin> set l2" "NL \<notin> set l2" "length l2 + 1 < MAX_LINE_SIZE" "decode cm (l2 @ [NL]) = None"
    and p: "decode_prefix cm (l2 @ [NL]) = ws2"
    and v: "length ws2 < length ws1" "\<not> is_wspace (last ws1)"
  shows "\<exists>wl ctx rs. load_loop always junk cm (l1 @ [NL] @ l2 @ [NL]) n wline_initial ctx0 results_initial warn =
        Inr (wl, ctx, rs, warn)
    \<and> carr_inv rs \<and> map wcs_value (carr_list rs) = [Some ws1, Some (ws2 @ drop (length ws2) ws1)]"
proof -
  let ?v = "ws2 @ drop (length ws2) ws1"
  have ne: "ws1 \<noteq> []" using v(1) by auto
  have f1: "fgets MAX_LINE_SIZE (l1 @ [NL] @ l2 @ [NL]) = Some (l1 @ [NL], l2 @ [NL])"
    using fgets_line [OF l1(2,3), of "l2 @ [NL]"] by simp
  have f2: "fgets MAX_LINE_SIZE (l2 @ [NL]) = Some (l2 @ [NL], [])"
    using fgets_line [OF l2(2,3), of "[]"] by simp
  have d1: "decode cm (l1 @ [NL]) = Some (ws1 @ [10])" by (rule decode_NL [OF nl l1(4)])
  have nn: "NUL \<notin> set (l1 @ [NL])" "NUL \<notin> set (l2 @ [NL])" using l1(1) l2(1) by (auto simp: NL_def)
  have s1: "strip_right is_wspace (ws1 @ [10]) = ws1" "strip_right is_wspace ?v = ?v"
    using ne v by (simp_all add: is_wspace_def WCS_WHITESPACE_def strip_right_id)
  obtain m1 where m1: "encode cm ws1 = Some m1" "NUL \<notin> set m1" "length m1 + 1 < 2 ^ 64"
      "strip_right is_wspace (cstr 0 (line_buf cm wline_initial (l1 @ [NL]))) = ws1"
    using line_value [OF d1 nn(1) _ refl, of wline_initial] l1(3) s1 by auto
  obtain m2 t2 where m2: "l2 @ [NL] = m2 @ t2" "encode cm ws2 = Some m2"
    using decode_prefix_encode [of "l2 @ [NL]"] p by auto
  have n2: "NUL \<notin> set m2" using m2(1) nn(2) by (metis Un_iff set_append)
  obtain a b where ab: "encode cm (drop (length ws2) ws1) = Some b" "m1 = a @ b"
    using m1(1) encode_append [of cm "take (length ws2) ws1" "drop (length ws2) ws1"]
    by (auto split: option.splits)
  have mv: "encode cm ?v = Some (m2 @ b)" using m2(2) ab(1) by (simp add: encode_append)
  have lm: "length (m2 @ b) + 1 < 2 ^ 64"
  proof -
    have "length m2 \<le> length l2 + 1" using arg_cong [OF m2(1), of length] by simp
    moreover have "length m1 \<le> length l1"
      using encode_decode [OF l1(4)] m1(1) by simp
    ultimately show ?thesis using l1(3) l2(3) ab(2) by (simp add: MAX_LINE_SIZE_def)
  qed
  obtain w1 where w1: "wline_inv w1" "cstr 0 w1 = ws1"
      "load_loop always junk cm (l1 @ [NL] @ l2 @ [NL]) n wline_initial ctx0 results_initial warn =
        ebind (ARRAY_ADD always results_initial (entry ws1 m1)) (\<lambda>results.
        load_loop always junk cm (l2 @ [NL]) (n + 1) w1 (CKSUM_Update ctx0 (bytes (l1 @ [NL])) (length (l1 @ [NL])))
          results warn)"
    using load_loop_step [OF f1 nn(1) wline_initial_inv m1(4) [symmetric] m1(1-3),
        where junk = junk and n = n and ctx = ctx0 and results = results_initial and warn = warn] by auto
  obtain r1 where r1: "ARRAY_ADD always results_initial (entry ws1 m1) = Inr r1"
    using carr.add_total [OF results_initial_inv(1)] by (auto simp: results_initial_inv)
  have c1: "carr_inv r1" "carr_list r1 = [entry ws1 m1]"
    using carr.add_inv [OF results_initial_inv(1) r1] carr.add_abs [OF results_initial_inv(1) r1]
    by (auto simp: results_initial_inv)
  have z: "0 \<notin> set ws1" using w1(2) cstr_no_nul [of 0 w1] by simp
  have z2: "0 \<notin> set ws2" using decode_nul_free [of m2 ws2] decode_encode [OF m2(2), of "[]"] n2 by simp
  obtain ys where ys: "w1 = ws1 @ 0 # ys" using wline_inv_nul [OF w1(1)] w1(2) by (metis cstr_decomp)
  have "line_buf cm w1 (l2 @ [NL]) = ?v @ 0 # ys"
    using l2(4) v(1) by (simp add: line_buf_def p ys Let_def)
  moreover have "0 \<notin> set ?v" using z z2 by (auto dest: in_set_dropD)
  ultimately have "cstr 0 (line_buf cm w1 (l2 @ [NL])) = ?v" by (metis cstr_append_nul)
  then have b2: "strip_right is_wspace (cstr 0 (line_buf cm w1 (l2 @ [NL]))) = ?v"
    using s1(2) by argo
  obtain w2 where w2: "load_loop always junk cm (l2 @ [NL]) (n + 1) w1
        (CKSUM_Update ctx0 (bytes (l1 @ [NL])) (length (l1 @ [NL]))) r1 warn =
      ebind (ARRAY_ADD always r1 (entry ?v (m2 @ b))) (\<lambda>results.
      load_loop always junk cm [] (n + 1 + 1) w2 (CKSUM_Update (CKSUM_Update ctx0 (bytes (l1 @ [NL]))
        (length (l1 @ [NL]))) (bytes (l2 @ [NL])) (length (l2 @ [NL]))) results warn)"
    using load_loop_step [OF f2 nn(2) w1(1) b2 [symmetric] mv _ lm, where junk = junk and n = "n + 1"
        and ctx = "CKSUM_Update ctx0 (bytes (l1 @ [NL])) (length (l1 @ [NL]))" and results = r1 and warn = warn]
      n2 ab(2) m1(2) by auto
  obtain r2 where r2: "ARRAY_ADD always r1 (entry ?v (m2 @ b)) = Inr r2"
    using carr.add_total [OF c1(1)] by (auto simp: c1)
  have c2: "carr_inv r2" "carr_list r2 = [entry ws1 m1, entry ?v (m2 @ b)]"
    using carr.add_inv [OF c1(1) r2] carr.add_abs [OF c1(1) r2] by (auto simp: c1)
  show ?thesis using w1(3) r1 w2 r2 c2
    by (simp add: load_loop.simps [of always junk cm "[]"] fgets_def entry_def)
qed

end

section \<open>The properties of the entries\<close>

lemma utf8_NL: "wctomb utf8 10 = Some [NL]"
  by (simp add: utf8_def utf8_wctomb_def NL_def char_of_def bit_0)

text \<open>C13. Loading a decrypted UTF-8 file of complete lines that fit in the buffer makes one
  visible entry per line, in order, with the trailing blanks stripped and without a warning,
  and \<open>result_crc32\<close> is the checksum of the whole file, whatever lines it is read in.\<close>

theorem load_results_reads_every_line:
  assumes "\<forall>l\<in>set ls. NUL \<notin> set l \<and> NL \<notin> set l \<and> length l + 1 < MAX_LINE_SIZE \<and> decode utf8 l \<noteq> None"
    and "length ls < 2 ^ 32" "length (concat (map (\<lambda>l. l @ [NL]) ls)) < 2 ^ 63"
  shows "\<exists>c wl rs. load_results_fp always junk utf8 (Some (concat (map (\<lambda>l. l @ [NL]) ls))) wline_initial results_initial
        = Some (Inr (of_nat (length ls), c, wl, rs, []))
    \<and> cksum (bytes (concat (map (\<lambda>l. l @ [NL]) ls))) = Some c
    \<and> map wcs_value (carr_list rs) = map (\<lambda>l. Some (strip_right is_wspace (the (decode utf8 l)))) ls
    \<and> (\<forall>r\<in>set (carr_list rs). visible r)"
proof -
  have e: "map wcs_value (map (\<lambda>l. line_entry utf8 (l @ [NL])) ls) =
        map (\<lambda>l. Some (strip_right is_wspace (the (decode utf8 l)))) ls"
      "\<forall>r\<in>set (map (\<lambda>l. line_entry utf8 (l @ [NL])) ls). visible r"
    using assms(1) utf8.line_entry_NL [OF utf8_NL] by fastforce+
  show ?thesis using utf8.load_results_lines [OF utf8_NL assms, of junk] e by metis
qed

theorem load_results_reads_every_line_witness:
  "\<exists>c wl rs. load_results_fp always (\<lambda>i. NUL) utf8
        (Some (concat (map (\<lambda>l. l @ [NL]) [''mail: secret  '', ''#x'']))) wline_initial results_initial
        = Some (Inr (of_nat (length [''mail: secret  '', ''#x'']), c, wl, rs, []))
    \<and> cksum (bytes (concat (map (\<lambda>l. l @ [NL]) [''mail: secret  '', ''#x'']))) = Some c
    \<and> map wcs_value (carr_list rs) =
        map (\<lambda>l. Some (strip_right is_wspace (the (decode utf8 l)))) [''mail: secret  '', ''#x'']
    \<and> (\<forall>r\<in>set (carr_list rs). visible r)"
  by (rule load_results_reads_every_line)
    (simp_all add: NL_def MAX_LINE_SIZE_def utf8_def utf8_mbtowc_def)

text \<open>C14. Filtering with plain keywords: with keywords that fit, \<open>filter_results\<close> makes visible
  exactly the entries that are not comments and contain every keyword, up to the case that the
  locale's \<open>towlower\<close> removes, whichever function that is, and changes nothing else of the entries.\<close>

theorem filter_results_selects:
  assumes "carr_inv a" "keywords_inv kws" "\<forall>s\<in>set (keywords_abs kws). kw_fits utf8 s"
    and "\<forall>r\<in>set (carr_list a). wcs_value r \<noteq> None"
  shows "\<exists>a'. filter_results utf8 lower rx kw0 False kws a mb = Inr (a', mb) \<and> carr_inv a'
    \<and> carr_list a' = map (\<lambda>r. r\<lparr>visible := (wc_at (the (wcs_value r)) \<noteq> 35 \<and>
        (\<forall>s\<in>set (keywords_abs kws).
           sublist (map lower (the (decode utf8 s))) (map lower (the (wcs_value r)))))\<rparr>) (carr_list a)"
  using utf8.filter_plain [OF assms, of lower rx kw0 mb] by (simp add: selected_def kw_matches_def)

text \<open>Folding the letters of Latin-1, as the locales of Western Europe do.\<close>

definition latin_lower :: "wchar \<Rightarrow> wchar" where
  "latin_lower c = (if 65 \<le> c \<and> c \<le> 90 \<or> 192 \<le> c \<and> c \<le> 222 \<and> c \<noteq> 215 then c + 32 else c)"

text \<open>The entries are written with capital letters, one with an accent.\<close>

definition two_entries :: wlist where
  "two_entries = \<lparr>items = [Some (entry [77, 201] [CHR ''M'', CHR 0xC3, CHR 0x89]), Some (entry [35] ''#'')] @ replicate 8 None,
     num = 2, space = 80\<rparr>"

definition accent_keyword :: kwlist where
  "accent_keyword = \<lparr>items = [Some (Some [CHR 0xC3, CHR 0xA9])] @ replicate 9 None, num = 1, space = 80\<rparr>"

definition one_keyword :: kwlist where
  "one_keyword = \<lparr>items = [Some (Some ''m'')] @ replicate 9 None, num = 1, space = 80\<rparr>"

lemma two_entries_inv: "carr_inv two_entries"
    "carr_list two_entries = [entry [77, 201] [CHR ''M'', CHR 0xC3, CHR 0x89], entry [35] ''#'']"
  by (simp_all add: two_entries_def carr_inv_def carr_list_def less_2_cases_iff)

lemma one_keyword_inv: "keywords_inv one_keyword" "keywords_abs one_keyword = [''m'']"
  by (simp_all add: one_keyword_def keywords_inv_def keywords_abs_def carr_inv_def carr_list_def)

lemma accent_keyword_inv: "keywords_inv accent_keyword" "keywords_abs accent_keyword = [[CHR 0xC3, CHR 0xA9]]"
  by (simp_all add: accent_keyword_def keywords_inv_def keywords_abs_def carr_inv_def carr_list_def)

theorem filter_results_selects_witness:
  "\<exists>a'. filter_results utf8 latin_lower \<lparr>regcomp = \<lambda>s. Some s, regexec = \<lambda>r s. r = s\<rparr> (\<lambda>i. 7) False accent_keyword two_entries []
      = Inr (a', []) \<and> map visible (carr_list a') = [True, False]"
proof -
  have d: "decode utf8 [CHR 0xC3, CHR 0xA9] = Some [233]" by (simp add: utf8_def utf8_mbtowc_def cont_def)
  have l: "sublist (map latin_lower [233]) (map latin_lower [77, 201])" by (simp add: latin_lower_def sublist_code)
  show ?thesis
    using filter_results_selects [OF two_entries_inv(1) accent_keyword_inv(1),
        of latin_lower "\<lparr>regcomp = \<lambda>s. Some s, regexec = \<lambda>r s. r = s\<rparr>" "\<lambda>i. 7" "[]"] l
    by (auto simp: two_entries_inv accent_keyword_inv kw_fits_def KEYWORD_LENGTH_def d entry_def wc_at_def simp del: decode.simps)
qed

text \<open>C39. A keyword of fifty or more characters is used as a string although \<open>mbstowcs\<close> filled
  the buffer \<open>kw\<close> without a terminator: matching reads outside the buffer, for every line.\<close>

theorem long_keyword_reads_outside_buffer:
  assumes "keywords_inv kws" "keywords_abs kws = s # ss" "decode cm s = Some ws" "0 \<notin> set ws"
    and "KEYWORD_LENGTH \<le> length ws"
  shows "line_matches_plain cm lower kw0 kws line = Inl (Undefined ''kw is not terminated'')"
  by (rule plain_long_keyword [OF assms])

definition long_keyword :: kwlist where
  "long_keyword = \<lparr>items = [Some (Some (replicate 50 CHR ''m''))] @ replicate 9 None, num = 1, space = 80\<rparr>"

lemma decode_replicate:
  "mbtowc cm = mbtowc utf8 \<Longrightarrow> decode cm (replicate n CHR ''m'') = Some (replicate n 109)"
  by (induction n) (simp_all add: utf8_def utf8_mbtowc_def)

theorem long_keyword_reads_outside_buffer_witness:
  "line_matches_plain utf8 latin_lower (\<lambda>i. 7) long_keyword [109] = Inl (Undefined ''kw is not terminated'')"
  by (rule long_keyword_reads_outside_buffer [of _ "replicate 50 CHR ''m''" "[]" _ "replicate 50 109"])
    (simp_all add: long_keyword_def keywords_inv_def keywords_abs_def carr_inv_def carr_list_def
      KEYWORD_LENGTH_def decode_replicate)

text \<open>C40. \<open>load_results_fp\<close> ignores the result of \<open>mbstowcs\<close>: a line with an invalid byte is not
  refused but stored as its convertible part followed by the tail of the line before it.\<close>

theorem undecodable_line_keeps_old_tail:
  assumes "NUL \<notin> set l1" "NL \<notin> set l1" "length l1 + 1 < MAX_LINE_SIZE" "decode utf8 l1 = Some ws1"
    and "NUL \<notin> set l2" "NL \<notin> set l2" "length l2 + 1 < MAX_LINE_SIZE" "decode utf8 (l2 @ [NL]) = None"
    and "decode_prefix utf8 (l2 @ [NL]) = ws2" "length ws2 < length ws1" "\<not> is_wspace (last ws1)"
  shows "\<exists>wl ctx rs. load_loop always junk utf8 (l1 @ [NL] @ l2 @ [NL]) n wline_initial ctx0 results_initial warn =
        Inr (wl, ctx, rs, warn)
    \<and> carr_inv rs \<and> map wcs_value (carr_list rs) = [Some ws1, Some (ws2 @ drop (length ws2) ws1)]"
  by (rule utf8.load_loop_stale [OF utf8_NL assms])

theorem undecodable_line_keeps_old_tail_witness:
  "\<exists>wl ctx rs. load_loop always (\<lambda>i. NUL) utf8 (''abc'' @ [NL] @ [CHR ''x'', CHR 0xFF] @ [NL]) 0 wline_initial
       \<lparr>crc = 0, len = 0\<rparr> results_initial [] = Inr (wl, ctx, rs, [])
    \<and> carr_inv rs \<and> map wcs_value (carr_list rs) = [Some [97, 98, 99], Some ([120] @ drop (length [120 :: wchar]) [97, 98, 99])]"
  by (rule undecodable_line_keeps_old_tail)
    (simp_all add: NL_def MAX_LINE_SIZE_def utf8_def utf8_mbtowc_def is_wspace_def WCS_WHITESPACE_def)

end
