(* ===== verification/State.thy ===== *)
theory State
  imports Unix Config ResultsFilter
begin

text \<open>
  The state of a running mdp: the operating system and the global variables of all the C files,
  and the parameters of a run, which stand for the C library and the programs mdp starts.
  Functions that touch more than one of these are actions on the state (\<open>act\<close>); the pure parts
  of the program are run on their components with \<open>lift\<close>.
\<close>

record 'r mdp =
  os :: world
  conf :: conf_state
  opts :: options
  kws :: kwlist
  results :: wlist
  result_crc32 :: u32
  wline :: "wchar list"
  mbs_line :: string
  rng :: 'r
  lock_path :: "string option"
  editor_tmp_path :: "string option"
  watcher_pid :: nat
  atexit_registered :: bool
  debug_enabled :: bool
  window_width :: u32
  window_height :: u32
  screen :: bool                       \<comment> \<open>whether curses was started\<close>
  user_keys :: "char option list"      \<comment> \<open>what \<open>getch\<close> returns, \<open>None\<close> for the timeout\<close>
  user_lines :: "string list"          \<comment> \<open>what is typed at \<open>getnstr\<close>\<close>

text \<open>
  \<open>system\<close> runs a shell command and may change the file system, like the decryption
  \<open>execlp\<close> starts: it gets the program, the arguments and the time it may take before it is
  interrupted, and gives what it wrote and how it ended, or \<open>None\<close> when it cannot be started.
\<close>

datatype child_end = Exited int | Signaled

record ('r, 'p) lib =
  lib_ok :: allocator
  lib_junk :: "nat \<Rightarrow> char"
  lib_kw0 :: "nat \<Rightarrow> wchar"
  lib_cm :: charmap
  lib_lower :: "wchar \<Rightarrow> wchar"     \<comment> \<open>\<open>towlower\<close>\<close>
  lib_rx :: "'p regex_lib"
  lib_uniform :: "'r uniform"
  system :: "string \<Rightarrow> world \<Rightarrow> int \<times> world"
  execlp :: "string \<Rightarrow> string list \<Rightarrow> u32 \<Rightarrow> world \<Rightarrow> (string \<times> child_end \<times> world) option"
  winsize :: "(u32 \<times> u32) option"
  mdp_version :: string
  locale_found :: bool

text \<open>
  Running a system call, unless the process is killed there, and a part of the program that may
  not return.
\<close>

definition returned :: "errno + 'a \<Rightarrow> halt + (errno + 'a)" where
  "returned r = (case r of Inl e \<Rightarrow> if e = KILL then Inl Killed else Inr (Inl e) | Inr x \<Rightarrow> Inr (Inr x))"

definition sys :: "'a sys \<Rightarrow> ('r mdp, errno + 'a) act" where
  "sys f = (\<lambda>s. case f (os s) of (r, w) \<Rightarrow> (returned r, s\<lparr>os := w\<rparr>))"

lemma returned_simps [simp]:
  "returned (Inr x) = Inr (Inr x)"
  "returned (Inl e) = (if e = KILL then Inl Killed else Inr (Inl e))"
  "returned r = Inr r' \<longleftrightarrow> r = r' \<and> r \<noteq> Inl KILL"
  "returned r = Inl h \<longleftrightarrow> r = Inl KILL \<and> h = Killed"
  by (auto simp: returned_def split: sum.split)

text \<open>A call whose failure ends the program with the message.\<close>

definition sys_or :: "halt \<Rightarrow> 'a sys \<Rightarrow> ('r mdp, 'a) act" where
  "sys_or h f = bnd (sys f) (\<lambda>r. case r of Inl e \<Rightarrow> stop h | Inr x \<Rightarrow> ret x)"

definition lift_opt :: "(halt + 'a) option \<Rightarrow> ('r mdp, 'a) act" where
  "lift_opt r = (case r of None \<Rightarrow> stop Forever | Some r \<Rightarrow> lift r)"

definition run :: "('r, 'p) lib \<Rightarrow> string \<Rightarrow> ('r mdp, int) act" where
  "run L cmd = (\<lambda>s. case system L cmd (os s) of (r, w) \<Rightarrow> (Inr r, s\<lparr>os := w\<rparr>))"

definition print :: "event \<Rightarrow> ('r mdp, unit) act" where
  "print e = modify (\<lambda>s. s\<lparr>os := emit e (os s)\<rparr>)"

text \<open>
  \<open>debug\<close> of \<open>debug.c\<close>: the message, without the time stamp, when the flag is on. \<open>strftime\<close> and
  the \<open>xasprintf\<close> of the format are calls that the oracle can make fail.
\<close>

definition debug :: "string \<Rightarrow> arg list \<Rightarrow> ('r mdp, unit) act" where
  "debug fmt args = bnd (gets debug_enabled) (\<lambda>b.
    if \<not> b then ret ()
    else
      bnd (sys_or (Errx ''strftime failed'' []) simple_call) (\<lambda>_.
      bnd (sys_or (Err ''xvasprintf failed'' []) simple_call) (\<lambda>_.
      print (Debug fmt args))))"

text \<open>A pointer that is used as a string.\<close>

definition str_of :: "string option \<Rightarrow> ('r mdp, string) act" where
  "str_of p = (case p of None \<Rightarrow> stop (Undefined ''null pointer'') | Some s \<Rightarrow> ret s)"

section \<open>Reasoning about actions\<close>

text \<open>One step on a state.\<close>

lemma bnd_sys: "g (os s) = (r, w) \<Longrightarrow> r \<noteq> Inl KILL \<Longrightarrow> bnd (sys g) k s = k r (s\<lparr>os := w\<rparr>)"
  by (cases r) (simp_all add: bnd_def sys_def)

lemma bnd_gets: "bnd (gets g) k s = k (g s) s"
  by (simp add: bnd_def gets_def)

lemma bnd_ret: "bnd (ret x) k s = k x s"
  by (simp add: bnd_def ret_def)

lemma bnd_stop: "bnd (stop h) k s = stop h s"
  by (simp add: bnd_def stop_def)

text \<open>
  \<open>act_inv P m\<close>: the action keeps \<open>P\<close>, whether it returns or stops the program. It is proved
  along the structure of the code.
\<close>

definition act_inv :: "('s \<Rightarrow> bool) \<Rightarrow> ('s, 'a) act \<Rightarrow> bool" where
  "act_inv P m \<longleftrightarrow> (\<forall>s. P s \<longrightarrow> P (snd (m s)))"

named_theorems act_inv_intros \<open>invariants of actions\<close>

lemma act_inv_ret [act_inv_intros]: "act_inv P (ret x)"
  by (simp add: act_inv_def ret_def)

lemma act_inv_stop [act_inv_intros]: "act_inv P (stop e)"
  by (simp add: act_inv_def stop_def)

lemma act_inv_gets [act_inv_intros]: "act_inv P (gets f)"
  by (simp add: act_inv_def gets_def)

lemma act_inv_lift [act_inv_intros]: "act_inv P (lift r)"
  by (simp add: act_inv_def lift_def)

lemma act_inv_modify: "(\<And>s. P s \<Longrightarrow> P (f s)) \<Longrightarrow> act_inv P (modify f)"
  by (simp add: act_inv_def modify_def)

lemma act_inv_bnd [act_inv_intros]:
  assumes "act_inv P m" "\<And>x. act_inv P (f x)"
  shows "act_inv P (bnd m f)"
  unfolding act_inv_def
proof (intro allI impI)
  fix s assume "P s"
  obtain r s' where m: "m s = (r, s')" by fastforce
  then have "P s'" using assms(1) \<open>P s\<close> by (metis act_inv_def snd_conv)
  then show "P (snd (bnd m f s))"
    using assms(2) m by (cases r) (simp_all add: bnd_def act_inv_def)
qed

lemma act_inv_if [act_inv_intros]:
  "(c \<Longrightarrow> act_inv P a) \<Longrightarrow> (\<not> c \<Longrightarrow> act_inv P b) \<Longrightarrow> act_inv P (if c then a else b)"
  by simp

lemma act_inv_option [act_inv_intros]:
  "(x = None \<Longrightarrow> act_inv P a) \<Longrightarrow> (\<And>y. x = Some y \<Longrightarrow> act_inv P (f y)) \<Longrightarrow>
   act_inv P (case x of None \<Rightarrow> a | Some y \<Rightarrow> f y)"
  by (cases x) simp_all

lemma act_inv_sum [act_inv_intros]:
  "(\<And>e. x = Inl e \<Longrightarrow> act_inv P (f e)) \<Longrightarrow> (\<And>y. x = Inr y \<Longrightarrow> act_inv P (g y)) \<Longrightarrow>
   act_inv P (case x of Inl e \<Rightarrow> f e | Inr y \<Rightarrow> g y)"
  by (cases x) simp_all

lemma act_inv_prod [act_inv_intros]:
  "(\<And>a b. x = (a, b) \<Longrightarrow> act_inv P (f a b)) \<Longrightarrow> act_inv P (case x of (a, b) \<Rightarrow> f a b)"
  by (cases x) simp

text \<open>Predicates on the operating system alone.\<close>

abbreviation on_os :: "(world \<Rightarrow> bool) \<Rightarrow> 'r mdp \<Rightarrow> bool" where
  "on_os R s \<equiv> R (os s)"

lemma act_inv_sys [act_inv_intros]: "keeps R f \<Longrightarrow> act_inv (on_os R) (sys f)"
  by (auto simp: act_inv_def sys_def keeps_def split: prod.split)

lemma act_inv_sys_or [act_inv_intros]: "keeps R f \<Longrightarrow> act_inv (on_os R) (sys_or h f)"
  unfolding sys_or_def by (intro act_inv_intros)

lemma act_inv_str_of [act_inv_intros]: "act_inv P (str_of p)"
  unfolding str_of_def by (intro act_inv_intros)

lemma act_inv_lift_opt [act_inv_intros]: "act_inv P (lift_opt r)"
  unfolding lift_opt_def by (intro act_inv_intros)

lemma modify_other_inv: "(\<And>s. os (f s) = os s) \<Longrightarrow> act_inv (on_os R) (modify f)"
  by (rule act_inv_modify) simp

text \<open>The commands that are run keep the predicate.\<close>

definition tame :: "(world \<Rightarrow> bool) \<Rightarrow> ('r, 'p) lib \<Rightarrow> bool" where
  "tame R L \<longleftrightarrow> (\<forall>cmd. keeps R (system L cmd)) \<and>
     (\<forall>f args t w o' e w'. execlp L f args t w = Some (o', e, w') \<longrightarrow> R w \<longrightarrow> R w')"

lemma act_inv_run [act_inv_intros]: "tame R L \<Longrightarrow> act_inv (on_os R) (run L cmd)"
  by (auto simp: act_inv_def run_def tame_def keeps_def split: prod.split) (metis snd_conv)

text \<open>
  After the configuration was read, the program keeps the names of the lock and of the temporary
  file and the settings it works with, and until it has the lock it has no exit handler. A predicate
  on these and the world is \<open>framed\<close> into the state. What the world keeps in \<open>checks_invariant\<close> and
  \<open>os_invariant\<close> is the case where only the world matters.
\<close>

abbreviation framed :: "(world \<Rightarrow> string option \<Rightarrow> string option \<Rightarrow> config \<Rightarrow> bool \<Rightarrow> bool) \<Rightarrow> 'r mdp \<Rightarrow> bool" where
  "framed f s \<equiv> f (os s) (lock_path s) (editor_tmp_path s) (cfg (conf s)) (atexit_registered s)"

lemma framed_sys [act_inv_intros]: "(\<And>l t c b. keeps (\<lambda>w. f w l t c b) g) \<Longrightarrow> act_inv (framed f) (sys g)"
  by (auto simp: act_inv_def sys_def keeps_def split: prod.split) (metis snd_conv)

lemma framed_sys_or [act_inv_intros]: "(\<And>l t c b. keeps (\<lambda>w. f w l t c b) g) \<Longrightarrow> act_inv (framed f) (sys_or h g)"
  unfolding sys_or_def by (intro act_inv_intros)

text \<open>A call on names and settings of the state at hand.\<close>

lemma framed_sys_at:
  assumes "keeps (\<lambda>w. f w (lock_path s) (editor_tmp_path s) (cfg (conf s)) (atexit_registered s)) g" "framed f s"
  shows "framed f (snd (sys g s))" "framed f (snd (sys_or h g s))"
proof -
  obtain r w where "g (os s) = (r, w)" by fastforce
  moreover from this have "f w (lock_path s) (editor_tmp_path s) (cfg (conf s)) (atexit_registered s)"
    using assms by (metis keeps_def snd_conv)
  ultimately show "framed f (snd (sys g s))" "framed f (snd (sys_or h g s))"
    by (auto simp: sys_def sys_or_def bnd_def stop_def ret_def split: sum.split)
qed

lemma framed_run [act_inv_intros]: "(\<And>l t c b. tame (\<lambda>w. f w l t c b) L) \<Longrightarrow> act_inv (framed f) (run L cmd)"
  by (auto simp: act_inv_def run_def tame_def keeps_def split: prod.split) (metis snd_conv)

lemma framed_modify:
  "(\<And>s. os (g s) = os s \<and> lock_path (g s) = lock_path s \<and> editor_tmp_path (g s) = editor_tmp_path s
      \<and> cfg (conf (g s)) = cfg (conf s) \<and> atexit_registered (g s) = atexit_registered s) \<Longrightarrow> act_inv (framed f) (modify g)"
  by (rule act_inv_modify) simp

locale frame_checks =
  fixes f :: "world \<Rightarrow> string option \<Rightarrow> string option \<Rightarrow> config \<Rightarrow> bool \<Rightarrow> bool"
  assumes frame_emit: "f w l t c b \<Longrightarrow> f (emit e w) l t c b"
    and frame_stat: "keeps (\<lambda>w. f w l t c b) (stat p)"
    and frame_mkdir: "keeps (\<lambda>w. f w l t c b) (mkdir p m)"
    and frame_fopen_r: "keeps (\<lambda>w. f w l t c b) (fopen_r p)"
    and frame_simple: "keeps (\<lambda>w. f w l t c b) simple_call"
begin

lemmas frame_calls [keeps_intros] = frame_stat frame_mkdir frame_fopen_r frame_simple

lemma frame_emits: "f w l t c b \<Longrightarrow> f (fold emit es w) l t c b"
  by (induction es arbitrary: w) (simp_all add: frame_emit)

lemma print_inv [act_inv_intros]: "act_inv (framed f) (print e)"
  unfolding print_def by (rule act_inv_modify) (simp add: frame_emit)

lemma debug_inv [act_inv_intros]: "act_inv (framed f) (debug fmt args)"
  unfolding debug_def by (intro act_inv_intros keeps_intros)

end

text \<open>A predicate that names and settings do not matter to.\<close>

locale frame_free = frame_checks +
  assumes frame_any: "f w l t c b \<Longrightarrow> f w l' t' c' b"

sublocale checks_invariant \<subseteq> frame: frame_free "\<lambda>w l t c b. R w"
  by unfold_locales (simp_all add: keeps_emit keeps_stat keeps_mkdir keeps_fopen_r keeps_simple_call)

text \<open>What reading the password file through GnuPG needs, too.\<close>

locale frame_reads = frame_checks +
  assumes frame_close: "keeps (\<lambda>w. f w l t c b) (close_fd fd)"
begin

lemmas frame_read [keeps_intros] = frame_close

end

text \<open>A process without an exit handler.\<close>

locale frame_unregistered = frame_reads +
  assumes frame_no_exit: "\<not> f w l t c True"

text \<open>
  What the operations that touch the lock and the temporary file need: the two files may be
  removed, and the lock may be created and written.
\<close>

locale frame_guards = frame_reads +
  assumes frame_unlock: "keeps (\<lambda>w. f w (Some p) t c b) (unlink p)"
    and frame_forget: "keeps (\<lambda>w. f w l (Some p) c b) (unlink p)"
    and frame_create: "f w (Some p) t c b \<Longrightarrow> fopen_w p w = (r, w') \<Longrightarrow> f w' (Some p) t c b
      \<and> (\<forall>fd x. r = Inr fd \<longrightarrow> keeps (\<lambda>w. f w (Some p) t c b) (write_fd fd x))"
    and frame_exit: "f w l t c b \<Longrightarrow> f w l t c b'"

sublocale os_invariant \<subseteq> guard: frame_guards "\<lambda>w l t c b. R w"
proof
  show "R w' \<and> (\<forall>fd x. r = Inr fd \<longrightarrow> keeps (\<lambda>w. R w) (write_fd fd x))"
    if "R w" "fopen_w p w = (r, w')" for w p r w'
    using keeps_fopen_w [of p] that by (auto simp: keeps_def [of R "fopen_w p"] keeps_write)
qed (simp_all add: keeps_close keeps_unlink)

end
