(* ===== verification/Utils.thy ===== *)
theory Utils
  imports State
begin

text \<open>
  The helpers of \<open>utils.c\<close> (paths, the home directory, the process that interrupts GnuPG when
  it takes too long) and the lock file of \<open>lock.c\<close>.
\<close>

section \<open>Files and paths\<close>

definition file_exists :: "string \<Rightarrow> ('r mdp, bool) act" where
  "file_exists filepath =
    bnd (sys (stat filepath)) (\<lambda>r.
    case r of
      Inl e \<Rightarrow> if e = ENOENT then ret False else stop (Err ''file_exists stat()'' [])
    | Inr sb \<Rightarrow> ret True)"

text \<open>\<open>dirname\<close> of the C library, on a copy of the path.\<close>

definition no_slash :: "string \<Rightarrow> string" where
  "no_slash p = strip_right (\<lambda>c. c = CHR ''/'') p"

definition dirname :: "string \<Rightarrow> string" where
  "dirname p =
    (let q = no_slash p;
         d = strip_right (\<lambda>c. c \<noteq> CHR ''/'') q
     in if p = [] then ''.''
        else if q = [] then ''/''
        else if d = [] then ''.''
        else if no_slash d = [] then ''/'' else no_slash d)"

definition xdirname :: "allocator \<Rightarrow> string \<Rightarrow> halt + string option" where
  "xdirname ok path =
    (case strdup ok path of
       None \<Rightarrow> Inl (Errx ''null pointer'' [])   \<comment> \<open>\<open>dirname\<close> accepts it, \<open>xfree\<close> does not\<close>
     | Some path_copy \<Rightarrow> Inr (strdup ok (dirname path_copy)))"

definition get_home :: "('r, 'p) lib \<Rightarrow> ('r mdp, string option) act" where
  "get_home L =
    bnd (gets (\<lambda>s. environ (os s) ''HOME'')) (\<lambda>v.
    case v of
      None \<Rightarrow> stop (Errx (''unknown variable '$HOME'' @ [CHR 0x27]) [])
    | Some h \<Rightarrow>
        bnd (file_exists h) (\<lambda>b.
        if \<not> b then stop (Errx ''your $HOME does not exist'' []) else ret (strdup (lib_ok L) h)))"

section \<open>The watcher process\<close>

text \<open>
  What the watcher does to GnuPG when it wakes up is part of how the child ends (\<open>execlp\<close>); the parent
  only notes that there is one, and stops it. The watcher's own code is in Gpg.
\<close>

definition set_pid_timeout :: "u32 \<Rightarrow> ('r mdp, unit) act" where
  "set_pid_timeout timeout =
    bnd (sys_or (Err ''set_pid_timeout fork()'' []) simple_call) (\<lambda>_.
    bnd (modify (\<lambda>s. s\<lparr>watcher_pid := 1\<rparr>)) (\<lambda>_.
    debug ''set_pid_timeout parent pid=%d, watcher pid=%d'' []))"

definition cancel_pid_timeout :: "('r mdp, unit) act" where
  "cancel_pid_timeout =
    bnd (gets watcher_pid) (\<lambda>p.
    if p = 0 then ret ()
    else
      bnd (debug ''cancel_pid_timeout on %d'' []) (\<lambda>_.
      bnd (sys simple_call) (\<lambda>r.
      bnd (case r of
             Inl e \<Rightarrow> if e \<noteq> ESRCH then stop (Err ''cancel_pid_timeout'' []) else ret ()
           | Inr _ \<Rightarrow> ret ()) (\<lambda>_.
      modify (\<lambda>s. s\<lparr>watcher_pid := 0\<rparr>)))))"

section \<open>The lock\<close>

text \<open>\<open>stat\<close> of a null pointer fails with an error that is not \<open>ENOENT\<close>.\<close>

definition lock_exists :: "('r mdp, bool) act" where
  "lock_exists =
    bnd (gets lock_path) (\<lambda>p.
    case p of None \<Rightarrow> stop (Err ''file_exists stat()'' []) | Some p \<Rightarrow> file_exists p)"

text \<open>
  The text is written when the stream is closed; the results of \<open>fprintf\<close> and \<open>fclose\<close> are
  not looked at, nor is the one of \<open>fopen\<close>.
\<close>

definition lock_set :: "('r mdp, unit) act" where
  "lock_set =
    bnd lock_exists (\<lambda>b.
    bnd (gets lock_path) (\<lambda>p.
    if b then stop (printed p (\<lambda>l. Errx ''locked (%s)'' [ArgS l]))
    else
      bnd (str_of p) (\<lambda>p.
      bnd (sys (fopen_w p)) (\<lambda>r.
      case r of
        Inl e \<Rightarrow> stop (Undefined ''fprintf to a null stream'')
      | Inr fd \<Rightarrow>
          bnd (gets (\<lambda>s. my_pid (os s))) (\<lambda>pid.
          bnd (sys (write_fd fd (dec_int (int pid)))) (\<lambda>_.
          bnd (sys (close_fd fd)) (\<lambda>_. ret ())))))))"

definition lock_unset :: "('r mdp, unit) act" where
  "lock_unset =
    bnd lock_exists (\<lambda>b.
    if b then
      bnd (gets lock_path) (\<lambda>p.
      bnd (str_of p) (\<lambda>p.
      sys_or (Err ''lock_unset:unlink()'' []) (unlink p)))
    else ret ())"

section \<open>Invariants\<close>

context frame_checks
begin

lemma file_exists_inv [act_inv_intros]: "act_inv (framed f) (file_exists p)"
  unfolding file_exists_def by (intro act_inv_intros keeps_intros)

lemma get_home_inv [act_inv_intros]: "act_inv (framed f) (get_home L)"
  unfolding get_home_def by (intro act_inv_intros keeps_intros)

lemma lock_exists_inv [act_inv_intros]: "act_inv (framed f) lock_exists"
  unfolding lock_exists_def by (intro act_inv_intros keeps_intros)

end

context frame_reads
begin

lemma set_pid_timeout_inv [act_inv_intros]: "act_inv (framed f) (set_pid_timeout t)"
  unfolding set_pid_timeout_def by (intro act_inv_intros keeps_intros framed_modify) simp

lemma cancel_pid_timeout_inv [act_inv_intros]: "act_inv (framed f) cancel_pid_timeout"
  unfolding cancel_pid_timeout_def by (intro act_inv_intros keeps_intros framed_modify) simp

end

text \<open>A step on a value of the state.\<close>

lemma act_inv_with:
  assumes "\<And>s. P s \<Longrightarrow> P (snd (m (g s) s))"
  shows "act_inv P (bnd (gets g) m)"
  using assms by (simp add: act_inv_def bnd_def gets_def)

lemma act_inv_after: "P (snd (m s)) \<Longrightarrow> (\<And>x. act_inv P (g x)) \<Longrightarrow> P (snd (bnd m g s))"
  by (cases "m s"; cases "fst (m s)") (auto simp: bnd_def act_inv_def)

context frame_guards
begin

lemma lock_unset_inv [act_inv_intros]: "act_inv (framed f) lock_unset"
proof -
  have "act_inv (framed f) (bnd (gets lock_path) (\<lambda>p. bnd (str_of p) (\<lambda>p. sys_or h (unlink p))) :: ('a mdp, unit) act)" for h
  proof (rule act_inv_with)
    fix s :: "'a mdp" assume a: "framed f s"
    show "framed f (snd (bnd (str_of (lock_path s)) (\<lambda>p. sys_or h (unlink p)) s))"
    proof (cases "lock_path s")
      case None
      then show ?thesis using a by (simp add: ebind_simps str_of_def)
    next
      case (Some p)
      then have "keeps (\<lambda>w. f w (lock_path s) (editor_tmp_path s) (cfg (conf s)) (atexit_registered s)) (unlink p)"
        by (simp add: frame_unlock)
      from framed_sys_at(2) [of f, OF this a] show ?thesis by (simp add: Some str_of_def bnd_def ret_def)
    qed
  qed
  then show ?thesis unfolding lock_unset_def by (rule act_inv_bnd [OF lock_exists_inv act_inv_if [OF _ act_inv_ret]])
qed

lemma lock_set_inv [act_inv_intros]: "act_inv (framed f) lock_set"
proof -
  let ?rest = "\<lambda>r. case r of
        Inl e \<Rightarrow> stop (Undefined ''fprintf to a null stream'')
      | Inr fd \<Rightarrow>
          bnd (gets (\<lambda>s. my_pid (os s))) (\<lambda>pid.
          bnd (sys (write_fd fd (dec_int (int pid)))) (\<lambda>_.
          bnd (sys (close_fd fd)) (\<lambda>_. ret ())))"
  have created: "framed f (snd (bnd (sys (fopen_w p)) ?rest s))"
    if "framed f s" "lock_path s = Some p" for p and s :: "'a mdp"
  proof -
    obtain r w where o: "fopen_w p (os s) = (r, w)" by fastforce
    note c = frame_create [OF that(1) [unfolded that(2)] o]
    let ?s = "s\<lparr>os := w\<rparr>"
    have a: "framed f ?s" using c that(2) by simp
    show ?thesis
    proof (cases r)
      case (Inl e)
      then show ?thesis using o a by (simp add: bnd_def sys_def stop_def)
    next
      case (Inr fd)
      have k: "keeps (\<lambda>w. f w (lock_path ?s) (editor_tmp_path ?s) (cfg (conf ?s)) (atexit_registered ?s)) (write_fd fd x)" for x
        using c Inr that(2) by simp
      have "framed f (snd (bnd (sys (write_fd fd x)) (\<lambda>_. bnd (sys (close_fd fd)) (\<lambda>_. ret ())) ?s))" for x
        by (rule act_inv_after [where P = "framed f"], rule framed_sys_at(1) [of f, OF k a])
          (intro act_inv_intros keeps_intros)
      then show ?thesis using Inr o by (simp add: bnd_sys [of "fopen_w p", OF o] bnd_gets)
    qed
  qed
  have "act_inv (framed f) (bnd (gets lock_path) (\<lambda>p. if b then stop (printed p (\<lambda>l. Errx ''locked (%s)'' [ArgS l]))
      else bnd (str_of p) (\<lambda>p. bnd (sys (fopen_w p)) ?rest)) :: ('a mdp, unit) act)" for b
  proof (rule act_inv_with)
    fix s :: "'a mdp" assume a: "framed f s"
    show "framed f (snd ((if b then stop (printed (lock_path s) (\<lambda>l. Errx ''locked (%s)'' [ArgS l]))
      else bnd (str_of (lock_path s)) (\<lambda>p. bnd (sys (fopen_w p)) ?rest)) s))"
    proof (cases "lock_path s")
      case None
      have "framed f (snd (stop h s))" for h using a by (simp add: stop_def)
      then show ?thesis using a by (cases b) (simp_all only: None str_of_def option.case bnd_stop if_True if_False)
    next
      case (Some p)
      have "framed f (snd (stop h s))" for h using a by (simp add: stop_def)
      then show ?thesis using created [OF a Some]
        by (cases b) (simp_all only: Some str_of_def option.case bnd_ret if_True if_False)
    qed
  qed
  then show ?thesis unfolding lock_set_def by (rule act_inv_bnd [OF lock_exists_inv])
qed

end

end
