(* ===== verification/Wp.thy ===== *)
theory Wp
  imports Utils
begin

text \<open>
  Reasoning about whole actions. \<open>file_text w p\<close> is what the file \<open>p\<close> contains: the abstract file
  system, a map from names to contents, which every system call changes in a simple way whether
  it fails or not. \<open>wp m Q s\<close> says that \<open>Q\<close> holds of the result and the final state of \<open>m\<close>; its
  rules follow the code.
\<close>

section \<open>The abstract file system\<close>

definition file_text :: "world \<Rightarrow> string \<Rightarrow> string option" where
  "file_text w p = map_option contents (lookup w p)"

lemma text_next_fault: "next_fault w = (e, w') \<Longrightarrow> file_text w' = file_text w \<and> lookup w' = lookup w \<and> dir w' = dir w \<and> node w' = node w \<and> my_pid w' = my_pid w \<and> fresh w' = fresh w"
  by (auto simp: next_fault_def file_text_def lookup_def fun_eq_iff split: list.splits option.splits)

lemma syscall_cases:
  assumes "syscall f w = (r, w')"
  obtains (fault) e where "r = Inl e" "lookup w' = lookup w" "file_text w' = file_text w" "dir w' = dir w"
    | (call) w0 where "f w0 = (r, w')" "dir w0 = dir w" "node w0 = node w" "lookup w0 = lookup w" "file_text w0 = file_text w"
        "fresh w0 = fresh w" "my_pid w0 = my_pid w"
proof -
  obtain e w0 where n: "next_fault w = (e, w0)" by fastforce
  note t = text_next_fault [OF n]
  show thesis
  proof (cases e)
    case None
    then have "f w0 = (r, w')" using assms n None by (simp add: syscall_def)
    then show thesis using t by (intro call [of w0]) auto
  next
    case (Some e')
    then have "r = Inl e'" "w' = w0" using assms n Some by (auto simp: syscall_def)
    then show thesis using t by (intro fault) auto
  qed
qed

lemma stat_effect:
  assumes "stat p w = (r, w')"
  shows "lookup w' = lookup w \<and> dir w' = dir w \<and> (\<forall>n. r = Inr n \<longrightarrow> lookup w p = Some n)
    \<and> (r = Inl ENOENT \<and> faults w = [] \<longrightarrow> lookup w p = None)"
  using assms unfolding stat_def
proof (cases rule: syscall_cases)
  case (fault e)
  then show ?thesis using assms by (auto simp: stat_def syscall_def next_fault_def split: list.splits option.splits)
next
  case (call w0)
  then show ?thesis by (auto split: option.splits)
qed

lemma unlink_effect:
  assumes "unlink p w = (r, w')"
  shows "(\<exists>e. r = Inl e \<and> lookup w' = lookup w) \<or> (r = Inr () \<and> lookup w' = (lookup w)(p := None))"
  using assms unfolding unlink_def
proof (cases rule: syscall_cases)
  case (call w0)
  then show ?thesis
    by (auto simp: lookup_def fun_eq_iff split: option.splits if_splits)
qed auto

lemma link_effect:
  assumes "link p q w = (r, w')"
  shows "(\<exists>e. r = Inl e \<and> lookup w' = lookup w) \<or>
    (r = Inr () \<and> lookup w' = (lookup w)(q := lookup w p) \<and> lookup w p \<noteq> None \<and> lookup w q = None)"
  using assms unfolding link_def
proof (cases rule: syscall_cases)
  case (call w0)
  then show ?thesis
    by (auto simp: lookup_def fun_eq_iff split: option.splits if_splits)
qed auto

lemma chmod_effect:
  assumes "chmod p m w = (r, w')"
  shows "file_text w' = file_text w \<and> (r = Inr () \<longrightarrow> (\<exists>n. lookup w' p = Some n \<and> mode n = m))"
  using assms unfolding chmod_def
proof (cases rule: syscall_cases)
  case (call w0)
  then show ?thesis
    by (auto simp: file_text_def lookup_def fun_eq_iff split: option.splits if_splits)
qed auto

lemma simple_effect: "simple_call w = (r, w') \<Longrightarrow> lookup w' = lookup w"
  unfolding simple_call_def by (erule syscall_cases) auto

lemma emit_lookup [simp]: "lookup (emit e w) = lookup w"
  by (simp add: emit_def lookup_def fun_eq_iff split: option.split)

lemma lookup_remove: "lookup (w\<lparr>dir := (dir w)(p := None)\<rparr>) = (lookup w)(p := None)"
  by (auto simp: lookup_def fun_eq_iff split: option.split)

lemma lookup_create: "world_inv w \<Longrightarrow> lookup (create p n w) = (lookup w)(p := Some n)"
  by (auto simp: lookup_def create_def fun_eq_iff dest: world_inv_fresh split: option.splits)

lemma text_lookup: "lookup w' = lookup w \<Longrightarrow> file_text w' = file_text w"
  by (simp add: file_text_def fun_eq_iff)

lemma text_update: "lookup w' = (lookup w)(p := n) \<Longrightarrow> file_text w' = (file_text w)(p := map_option contents n)"
  by (simp add: file_text_def fun_eq_iff)

section \<open>Weakest preconditions\<close>

definition wp :: "('s, 'a) act \<Rightarrow> (halt + 'a \<Rightarrow> 's \<Rightarrow> bool) \<Rightarrow> 's \<Rightarrow> bool" where
  "wp m Q s = (case m s of (r, s') \<Rightarrow> Q r s')"

named_theorems wp_intros \<open>rules of the weakest precondition\<close>

lemma wpD: "wp m Q s \<Longrightarrow> m s = (r, s') \<Longrightarrow> Q r s'"
  by (simp add: wp_def)

lemma wp_ret [wp_intros]: "Q (Inr x) s \<Longrightarrow> wp (ret x) Q s"
  by (simp add: wp_def ret_def)

lemma wp_stop [wp_intros]: "Q (Inl h) s \<Longrightarrow> wp (stop h) Q s"
  by (simp add: wp_def stop_def)

lemma wp_gets [wp_intros]: "Q (Inr (f s)) s \<Longrightarrow> wp (gets f) Q s"
  by (simp add: wp_def gets_def)

lemma wp_modify [wp_intros]: "Q (Inr ()) (f s) \<Longrightarrow> wp (modify f) Q s"
  by (simp add: wp_def modify_def)

lemma wp_lift [wp_intros]: "Q r s \<Longrightarrow> wp (lift r) Q s"
  by (simp add: wp_def lift_def)

lemma wp_bnd [wp_intros]:
  assumes "wp m (\<lambda>r s. case r of Inl h \<Rightarrow> Q (Inl h) s | Inr x \<Rightarrow> wp (f x) Q s) s"
  shows "wp (bnd m f) Q s"
  using assms by (auto simp: wp_def bnd_def split: prod.splits sum.splits)

lemma wp_if [wp_intros]: "(c \<Longrightarrow> wp a Q s) \<Longrightarrow> (\<not> c \<Longrightarrow> wp b Q s) \<Longrightarrow> wp (if c then a else b) Q s"
  by simp

lemma wp_conseq: "wp m P s \<Longrightarrow> (\<And>r s'. P r s' \<Longrightarrow> Q r s') \<Longrightarrow> wp m Q s"
  by (auto simp: wp_def split: prod.splits)

text \<open>A process can be killed at every call, so the rules ask for \<open>Q\<close> at that end, too.\<close>

lemma wp_sys:
  assumes "\<And>r w. f (os s) = (r, w) \<Longrightarrow> r \<noteq> Inl KILL \<Longrightarrow> Q (Inr r) (s\<lparr>os := w\<rparr>)"
    and "\<And>w. f (os s) = (Inl KILL, w) \<Longrightarrow> Q (Inl Killed) (s\<lparr>os := w\<rparr>)"
  shows "wp (sys f) Q s"
  using assms by (auto simp: wp_def sys_def returned_def split: prod.split sum.split)

lemma wp_sys_or:
  assumes "\<And>e w h'. f (os s) = (Inl e, w) \<Longrightarrow> Q (Inl h') (s\<lparr>os := w\<rparr>)"
    and "\<And>x w. f (os s) = (Inr x, w) \<Longrightarrow> Q (Inr x) (s\<lparr>os := w\<rparr>)"
  shows "wp (sys_or h f) Q s"
  unfolding sys_or_def using assms
  by (intro wp_bnd wp_sys) (auto simp: wp_def stop_def ret_def split: sum.split)

lemma wp_str_of:
  assumes "p = None \<Longrightarrow> Q (Inl (Undefined ''null pointer'')) s" "\<And>x. p = Some x \<Longrightarrow> Q (Inr x) s"
  shows "wp (str_of p) Q s"
  using assms by (cases p) (simp_all add: str_of_def wp_def stop_def ret_def)

lemma wp_file_exists:
  assumes "\<And>r w. lookup w = lookup (os s) \<Longrightarrow> (r = Inr True \<Longrightarrow> lookup w p \<noteq> None) \<Longrightarrow> Q r (s\<lparr>os := w\<rparr>)"
  shows "wp (file_exists p) Q s"
  unfolding file_exists_def
proof (intro wp_bnd wp_sys)
  fix r w assume "stat p (os s) = (r, w)"
  note e = stat_effect [OF this]
  show "case Inr r of Inl h \<Rightarrow> Q (Inl h) (s\<lparr>os := w\<rparr>)
    | Inr x \<Rightarrow> wp (case x of Inl e \<Rightarrow> if e = ENOENT then ret False else stop (Err ''file_exists stat()'' [])
        | Inr sb \<Rightarrow> ret True) Q (s\<lparr>os := w\<rparr>)"
    using e assms [of w] by (cases r) (auto intro!: wp_intros)
qed (auto dest: stat_effect intro: assms)

section \<open>Rules for a step followed by the rest\<close>

text \<open>The same rules in the form in which code is read: one step, then the rest.\<close>

lemma wp_seq:
  assumes "wp m R s"
    and "\<And>h s'. R (Inl h) s' \<Longrightarrow> Q (Inl h) s'" and "\<And>x s'. R (Inr x) s' \<Longrightarrow> wp (f x) Q s'"
  shows "wp (bnd m f) Q s"
  by (rule wp_bnd, rule wp_conseq [OF assms(1)]) (auto split: sum.split intro: assms(2,3))

lemma bnd_assoc: "bnd (bnd m f) g = bnd m (\<lambda>x. bnd (f x) g)"
  by (auto simp: bnd_def fun_eq_iff split: prod.split sum.split)

lemma wp_sys_then:
  assumes "\<And>r w. f (os s) = (r, w) \<Longrightarrow> wp (g r) Q (s\<lparr>os := w\<rparr>)"
    and "\<And>w. f (os s) = (Inl KILL, w) \<Longrightarrow> Q (Inl Killed) (s\<lparr>os := w\<rparr>)"
  shows "wp (bnd (sys f) g) Q s"
  by (intro wp_bnd wp_sys) (simp_all add: assms)

lemma wp_sys_or_then:
  assumes "\<And>e w h'. f (os s) = (Inl e, w) \<Longrightarrow> Q (Inl h') (s\<lparr>os := w\<rparr>)"
    and "\<And>x w. f (os s) = (Inr x, w) \<Longrightarrow> wp (g x) Q (s\<lparr>os := w\<rparr>)"
  shows "wp (bnd (sys_or h f) g) Q s"
  by (intro wp_bnd wp_sys_or) (simp_all add: assms)

lemma wp_gets_then:
  assumes "wp (g (f s)) Q s"
  shows "wp (bnd (gets f) g) Q s"
  using assms by (intro wp_bnd wp_gets) simp

lemma wp_modify_then:
  assumes "wp (g ()) Q (f s)"
  shows "wp (bnd (modify f) g) Q s"
  using assms by (intro wp_bnd wp_modify) simp

lemma wp_str_then:
  assumes "f s = Some x" "wp (g x) Q s"
  shows "wp (bnd (bnd (gets f) str_of) g) Q s"
  by (intro wp_bnd wp_gets) (auto simp: assms intro: wp_str_of)

lemma wp_str_of_then:
  assumes "p = Some x" "wp (g x) Q s"
  shows "wp (bnd (str_of p) g) Q s"
  by (intro wp_bnd) (auto simp: assms intro: wp_str_of)

lemma wp_run_then:
  assumes "system L cmd (os s) = (r, w)" "wp (g r) Q (s\<lparr>os := w\<rparr>)"
  shows "wp (bnd (run L cmd) g) Q s"
  using assms(2) by (simp add: wp_def bnd_def run_def assms(1))

text \<open>Debugging changes only the log.\<close>

lemma wp_debug:
  assumes "\<And>h w. debug_enabled s \<Longrightarrow> lookup w = lookup (os s) \<Longrightarrow> Q (Inl h) (s\<lparr>os := w\<rparr>)"
    and "\<And>w. lookup w = lookup (os s) \<Longrightarrow> Q (Inr ()) (s\<lparr>os := w\<rparr>)"
  shows "wp (debug fmt args) Q s"
proof (cases "debug_enabled s")
  case True
  have simple: "wp (sys_or h simple_call) (\<lambda>r s'. (\<exists>h. r = Inl h \<and> Q (Inl h) s') \<or>
      (r = Inr () \<and> (\<exists>w. lookup w = lookup (os s) \<and> s' = s\<lparr>os := w\<rparr>))) (s\<lparr>os := w\<rparr>)"
    if "lookup w = lookup (os s)" for h w
    using that assms True by (intro wp_sys_or) (auto dest!: simple_effect)
  note first = simple [of "os s", simplified]
  have second: "wp (bnd (sys_or h simple_call) (\<lambda>_. print (Debug fmt args))) Q (s\<lparr>os := w\<rparr>)"
    if "lookup w = lookup (os s)" for h w
    by (rule wp_seq [OF simple [OF that]]) (auto simp: wp_def print_def modify_def intro!: assms)
  have "wp (bnd (sys_or h1 simple_call) (\<lambda>_. bnd (sys_or h2 simple_call) (\<lambda>_. print (Debug fmt args)))) Q s" for h1 h2
    by (rule wp_seq [OF first]) (auto intro: second)
  then show ?thesis
    unfolding debug_def using True by (intro wp_gets_then) simp
next
  case False
  then show ?thesis using assms(2) [of "os s"] by (simp add: wp_def debug_def ebind_simps)
qed

lemma wp_debug_then:
  assumes "\<And>h w. debug_enabled s \<Longrightarrow> lookup w = lookup (os s) \<Longrightarrow> Q (Inl h) (s\<lparr>os := w\<rparr>)"
    and "\<And>w. lookup w = lookup (os s) \<Longrightarrow> wp (g ()) Q (s\<lparr>os := w\<rparr>)"
  shows "wp (bnd (debug fmt args) g) Q s"
  by (intro wp_bnd wp_debug) (auto simp: assms split: sum.split)

lemma wp_lift_then:
  assumes "\<And>h. r = Inl h \<Longrightarrow> Q (Inl h) s" "\<And>x. r = Inr x \<Longrightarrow> wp (g x) Q s"
  shows "wp (bnd (lift r) g) Q s"
  using assms by (auto intro!: wp_bnd wp_lift split: sum.split)

text \<open>A string that the program makes, if there is memory for it.\<close>

lemma wp_formatted_then:
  assumes "\<And>n h. \<not> ok n \<Longrightarrow> Q (Inl h) s" "wp (g x) Q s"
  shows "wp (bnd (lift (formatted ok x)) g) Q s"
  using formatted_cases [of ok x] assms by (auto intro!: wp_bnd wp_lift)

lemma wp_join_path_then:
  assumes "\<And>n h. \<not> ok n \<Longrightarrow> Q (Inl h) s" "wp (g (in_dir d x)) Q s"
  shows "wp (bnd (lift (join_path ok d x)) g) Q s"
  unfolding join_path_def join_def using assms by (intro wp_formatted_then) (simp_all add: in_dir_def)

lemma wp_file_exists_then:
  assumes "\<And>h w. lookup w = lookup (os s) \<Longrightarrow> Q (Inl h) (s\<lparr>os := w\<rparr>)"
    and "\<And>b w. lookup w = lookup (os s) \<Longrightarrow> (b \<Longrightarrow> lookup w p \<noteq> None) \<Longrightarrow> wp (g b) Q (s\<lparr>os := w\<rparr>)"
  shows "wp (bnd (file_exists p) g) Q s"
  by (intro wp_bnd wp_file_exists) (auto split: sum.split intro: assms)

text \<open>A call that failed changed nothing the abstract file system shows.\<close>

lemma unlink_failed: "unlink p w = (Inl e, w') \<Longrightarrow> file_text w' = file_text w"
  by (drule unlink_effect) (auto intro: text_lookup)

lemma unlink_done: "unlink p w = (Inr x, w') \<Longrightarrow> file_text w' = (file_text w)(p := None)"
  by (drule unlink_effect) (auto dest: text_update)

lemma unlink_other: "unlink p w = (r, w') \<Longrightarrow> q \<noteq> p \<Longrightarrow> file_text w' q = file_text w q"
  by (cases r) (auto dest: unlink_failed unlink_done)

lemma link_failed: "link p q w = (Inl e, w') \<Longrightarrow> file_text w' = file_text w"
  by (drule link_effect) (auto intro: text_lookup)

lemma link_done: "link p q w = (Inr x, w') \<Longrightarrow>
    file_text w' = (file_text w)(q := file_text w p) \<and> file_text w p \<noteq> None \<and> file_text w q = None"
  by (drule link_effect) (auto dest: text_update simp: file_text_def)

lemma chmod_text: "chmod p m w = (r, w') \<Longrightarrow> file_text w' = file_text w"
  by (drule chmod_effect) simp

end
