(* ===== verification/Cmd.thy ===== *)
theory Cmd
  imports State
begin

text \<open>
  The command line, \<open>cmd.c\<close>: matching a command by a prefix of its name, and the option
  parsers. \<open>getopt\<close> is the C library's for short options: it steps through the elements that
  start with a dash, a cluster at a time, and gives the options with their arguments and the
  operands that are left. It stops at the first operand: the \<open>+\<close> of the first call asks for that, and
  the later calls, made with \<open>optind\<close> set to 1, do not start GNU \<open>getopt\<close> anew (POSIX and BSD know
  no other way).
\<close>

section \<open>Matching a command\<close>

text \<open>\<open>strncmp (s, name, strlen (s)) == 0\<close>.\<close>

definition command_match :: "string \<Rightarrow> string \<Rightarrow> nat \<Rightarrow> halt + bool" where
  "command_match s nm min_len =
    (let len = length s in
     if take len nm = s then
       (if len < min_len then Inl (Errx (''ambiguous command '%s'' @ [CHR 0x27]) [ArgS s]) else Inr True)
     else Inr False)"

section \<open>getopt\<close>

text \<open>What one call returns: an option with its argument, or a complaint.\<close>

datatype opt = Opt char "string option" | Bad char

datatype takes = NoArg | NeedsArg | Unknown

fun takes_arg :: "string \<Rightarrow> char \<Rightarrow> takes" where
  "takes_arg [] c = Unknown"
| "takes_arg (o' # spec) c =
    (if o' = c \<and> c \<noteq> CHR '':'' then (if spec \<noteq> [] \<and> hd spec = CHR '':'' then NeedsArg else NoArg)
     else takes_arg spec c)"

text \<open>
  The options of the cluster \<open>cs\<close> (an element without its dash); \<open>args\<close> are the elements behind
  it. An option with an argument takes the rest of the cluster or the next element. The second
  result says whether the next element was used up.
\<close>

fun cluster :: "string \<Rightarrow> string \<Rightarrow> string list \<Rightarrow> opt list \<times> bool" where
  "cluster spec [] args = ([], False)"
| "cluster spec (c # cs) args =
    (case takes_arg spec c of
       Unknown \<Rightarrow> (let (os', b) = cluster spec cs args in (Bad c # os', b))
     | NoArg \<Rightarrow> (let (os', b) = cluster spec cs args in (Opt c None # os', b))
     | NeedsArg \<Rightarrow>
         if cs \<noteq> [] then ([Opt c (Some cs)], False)
         else (case args of [] \<Rightarrow> ([Bad c], False) | a # _ \<Rightarrow> ([Opt c (Some a)], True)))"

text \<open>All calls of \<open>getopt\<close> on the elements: the options in order, and the operands.\<close>

function getopt :: "string \<Rightarrow> string list \<Rightarrow> opt list \<times> string list" where
  "getopt spec [] = ([], [])"
| "getopt spec (a # args) =
    (if a = ''--'' then ([], args)
     else if length a \<ge> 2 \<and> hd a = CHR ''-'' then
       (let (os', used) = cluster spec (tl a) args;
            (more, operands) = getopt spec (if used then tl args else args)
        in (os' @ more, operands))
     else ([], a # args))"
  by pat_completeness auto
termination by (relation "measure (\<lambda>(spec, args). length args)") auto

section \<open>The parsers\<close>

text \<open>Usage messages go to standard output, one call of \<open>printf\<close> for each line.\<close>

fun print_lines :: "string list \<Rightarrow> ('r mdp, unit) act" where
  "print_lines [] = ret ()"
| "print_lines (l # ls) = bnd (print (Printf l [])) (\<lambda>_. print_lines ls)"

definition usage :: "string list \<Rightarrow> int \<Rightarrow> ('r mdp, 'a) act" where
  "usage ls status = bnd (print_lines ls) (\<lambda>_. stop (Exit status))"

definition cmd_usage_core :: "('r mdp, unit) act" where
  "cmd_usage_core = print (Printf ''usage: mdp [-Vh] [-c config] command [command args ...]'' [])"

text \<open>The lines after the usage line, the empty ones included.\<close>

definition command_lines :: "string list" where
  "command_lines =
    [[], ''The mdp commands are:'',
     ''   add        Add new random passwords at the end of your file.'',
     ''   edit       Edit your passwords.'',
     ''   generate   Generate random passwords.'',
     ''   get        Get passwords by keywords or regexes.'',
     ''   prompt     Interactive prompt session.'', [],
     CHR 0x27 # ''mdp <command> -h' returns this command's usage.'']"

definition cmd_usage_core_with_commands :: "('r mdp, unit) act" where
  "cmd_usage_core_with_commands = bnd cmd_usage_core (\<lambda>_. print_lines command_lines)"

definition usage_add :: "string list" where
  "usage_add = [''usage: mdp a[dd] [-h] [-p profile] [-n count] [-l length]'',
    ''                 [-k key_id] [keywords ...]'']"

definition usage_edit :: "string list" where
  "usage_edit = [''usage: mdp edit [-h] [-k key_id]'']"

definition usage_generate :: "string list" where
  "usage_generate = [''usage: mdp gen[erate] [-h] [-p profile] [-n count] [-l length]'']"

definition usage_get :: "string list" where
  "usage_get = [''usage: mdp get [-hrE] keyword ...'']"

definition usage_prompt :: "string list" where
  "usage_prompt = [''usage: mdp prompt [-hE]'']"

definition set_opts :: "(options \<Rightarrow> options) \<Rightarrow> ('r mdp, unit) act" where
  "set_opts f = modify (\<lambda>s. s\<lparr>opts := f (opts s)\<rparr>)"

fun each_opt :: "(char \<Rightarrow> string option \<Rightarrow> ('r mdp, unit) act) \<Rightarrow> opt list \<Rightarrow> ('r mdp, unit) act" where
  "each_opt handle [] = ret ()"
| "each_opt handle (Opt c arg # os') = bnd (handle c arg) (\<lambda>_. each_opt handle os')"
| "each_opt handle (Bad c # os') = stop (Exit exit_failure)"

definition deprecated :: "string \<Rightarrow> ('r mdp, 'a) act" where
  "deprecated cmd = stop (Errx (''this flag is deprecated, use '' @ [CHR 0x27] @ cmd @ [CHR 0x27] @ '' instead'') [])"

definition core_opt :: "('r, 'p) lib \<Rightarrow> char \<Rightarrow> string option \<Rightarrow> ('r mdp, unit) act" where
  "core_opt L c arg =
    (if c = CHR ''h'' then bnd cmd_usage_core_with_commands (\<lambda>_. stop (Exit exit_failure))
     else if c = CHR ''V'' then bnd (print (Printf ''mdp-%s'' [ArgS (mdp_version L)])) (\<lambda>_. stop (Exit exit_success))
     else if c = CHR ''d'' then modify (\<lambda>s. s\<lparr>debug_enabled := True\<rparr>)
     else if c = CHR ''c'' then set_opts (\<lambda>o'. o'\<lparr>cmd_config_path := strdup (lib_ok L) (the arg)\<rparr>)
     else if c = CHR ''e'' then deprecated ''mdp edit''
     else if c = CHR ''g'' then deprecated ''mdp gen''
     else if c = CHR ''r'' then deprecated ''mdp get -r''
     else if c = CHR ''q'' then deprecated ''mdp prompt''
     else stop (Exit exit_failure))"

text \<open>
  \<open>cmd_parse_core\<close> works on the arguments behind the program's name and returns the operands,
  the command first; with none, the result of the C function is -1.
\<close>

definition cmd_parse_core :: "('r, 'p) lib \<Rightarrow> string list \<Rightarrow> ('r mdp, string list) act" where
  "cmd_parse_core L args =
    (if args = [] then bnd cmd_usage_core (\<lambda>_. stop (Exit exit_failure))
     else
       (let (os', operands) = getopt ''hVdc:egrq'' args in
        bnd (each_opt (core_opt L) os') (\<lambda>_. ret operands)))"

definition cmd_parse_add :: "('r, 'p) lib \<Rightarrow> string list \<Rightarrow> ('r mdp, unit) act" where
  "cmd_parse_add L args =
    (let (os', operands) = getopt ''hp:l:n:k:'' args in
     bnd (each_opt (\<lambda>c arg.
       if c = CHR ''h'' then usage usage_add exit_failure
       else if c = CHR ''p'' then set_opts (\<lambda>o'. o'\<lparr>cmd_profile_name := strdup (lib_ok L) (the arg)\<rparr>)
       else if c = CHR ''l'' then set_opts (\<lambda>o'. o'\<lparr>cmd_character_count := to_uint (strtoull (the arg))\<rparr>)
       else if c = CHR ''n'' then set_opts (\<lambda>o'. o'\<lparr>cmd_password_count := to_uint (strtoull (the arg))\<rparr>)
       else if c = CHR ''k'' then set_opts (\<lambda>o'. o'\<lparr>cmd_gpg_key_id := strdup (lib_ok L) (the arg)\<rparr>)
       else stop (Exit exit_failure)) os') (\<lambda>_.
     if operands = [] then ret ()
     else
       bnd (lift (join_list (lib_ok L) (lib_junk L) CHR '' '' operands)) (\<lambda>s.
       bnd (str_of (map_option (cstr NUL) s)) (\<lambda>s.
       bnd (lift (mbs_duplicate_as_wcs (lib_ok L) (lib_cm L) s)) (\<lambda>w.
       case w of
         None \<Rightarrow> stop (Err ''unable to read the prefix (wrong locale?)'' [])
       | Some w \<Rightarrow> set_opts (\<lambda>o'. o'\<lparr>cmd_add_prefix := Some (cstr 0 w)\<rparr>))))))"

definition cmd_parse_edit :: "('r, 'p) lib \<Rightarrow> string list \<Rightarrow> ('r mdp, unit) act" where
  "cmd_parse_edit L args =
    (let (os', operands) = getopt ''hk:'' args in
     bnd (each_opt (\<lambda>c arg.
       if c = CHR ''h'' then usage usage_edit exit_failure
       else if c = CHR ''k'' then set_opts (\<lambda>o'. o'\<lparr>cmd_gpg_key_id := strdup (lib_ok L) (the arg)\<rparr>)
       else stop (Exit exit_failure)) os') (\<lambda>_.
     if operands \<noteq> [] then usage usage_edit exit_failure else ret ()))"

definition cmd_parse_generate :: "('r, 'p) lib \<Rightarrow> string list \<Rightarrow> ('r mdp, unit) act" where
  "cmd_parse_generate L args =
    (let (os', operands) = getopt ''hp:l:n:'' args in
     bnd (each_opt (\<lambda>c arg.
       if c = CHR ''h'' then usage usage_generate exit_failure
       else if c = CHR ''p'' then set_opts (\<lambda>o'. o'\<lparr>cmd_profile_name := strdup (lib_ok L) (the arg)\<rparr>)
       else if c = CHR ''l'' then set_opts (\<lambda>o'. o'\<lparr>cmd_character_count := to_uint (strtoull (the arg))\<rparr>)
       else if c = CHR ''n'' then set_opts (\<lambda>o'. o'\<lparr>cmd_password_count := to_uint (strtoull (the arg))\<rparr>)
       else stop (Exit exit_failure)) os') (\<lambda>_.
     if operands \<noteq> [] then usage usage_generate exit_failure else ret ()))"

definition cmd_parse_get :: "('r, 'p) lib \<Rightarrow> string list \<Rightarrow> ('r mdp, unit) act" where
  "cmd_parse_get L args =
    (let (os', operands) = getopt ''hrE'' args in
     bnd (each_opt (\<lambda>c arg.
       if c = CHR ''h'' then usage usage_get exit_failure
       else if c = CHR ''r'' then set_opts (\<lambda>o'. o'\<lparr>cmd_raw := True\<rparr>)
       else if c = CHR ''E'' then set_opts (\<lambda>o'. o'\<lparr>cmd_regex := True\<rparr>)
       else stop (Exit exit_failure)) os') (\<lambda>_.
     if operands = [] then usage usage_get exit_failure
     else
       bnd (gets kws) (\<lambda>k.
       bnd (lift (keywords_load_from_argv (lib_ok L) operands k)) (\<lambda>k.
       modify (\<lambda>s. s\<lparr>kws := k\<rparr>)))))"

text \<open>The usage that \<open>-h\<close> prints is the one of \<open>get\<close>.\<close>

definition cmd_parse_prompt :: "('r, 'p) lib \<Rightarrow> string list \<Rightarrow> ('r mdp, unit) act" where
  "cmd_parse_prompt L args =
    (let (os', operands) = getopt ''hE'' args in
     bnd (each_opt (\<lambda>c arg.
       if c = CHR ''h'' then usage usage_get exit_failure
       else if c = CHR ''E'' then set_opts (\<lambda>o'. o'\<lparr>cmd_regex := True\<rparr>)
       else stop (Exit exit_failure)) os') (\<lambda>_.
     if operands \<noteq> [] then usage usage_prompt exit_failure else ret ()))"

end
