(* ===== verification/ConfigFiles.thy ===== *)
theory ConfigFiles
  imports Utils
begin

text \<open>
  The checks of \<open>config.c\<close> on the configuration directory, the configuration file and the
  password file.
\<close>

section \<open>The code\<close>

definition my_uid_now :: "('r mdp, nat) act" where
  "my_uid_now = gets (\<lambda>s. my_uid (os s))"

definition config_ensure_directory :: "string \<Rightarrow> ('r mdp, unit) act" where
  "config_ensure_directory path =
    bnd (bnd (sys (stat path)) (\<lambda>r.
         case r of
           Inr sb \<Rightarrow> ret sb
         | Inl e \<Rightarrow>
             if e = ENOENT then
               bnd (sys_or (Err ''can't create %s'' [ArgS path]) (mkdir path 0x1C0)) (\<lambda>_.
               sys_or (Err ''can't stat newly created file %s'' [ArgS path]) (stat path))
             else stop (Err ''can't access %s'' [ArgS path]))) (\<lambda>sb.
    if kind sb \<noteq> Dir then stop (Errx ''%s is not a directory'' [ArgS path])
    else
      bnd my_uid_now (\<lambda>uid.
      if owner sb \<noteq> 0 \<and> owner sb \<noteq> uid then stop (Errx ''bad owner on %s'' [ArgS path])
      else if mode sb AND 0x3F \<noteq> 0 then stop (Errx ''bad permissions on %s'' [ArgS path])
      else ret ()))"

definition config_check_file :: "string \<Rightarrow> ('r mdp, unit) act" where
  "config_check_file path =
    bnd (sys (stat path)) (\<lambda>r.
    case r of
      Inl e \<Rightarrow> if e = ENOENT then ret () else stop (Err ''can't access %s'' [ArgS path])
    | Inr sb \<Rightarrow>
        if kind sb \<noteq> Reg then stop (Errx ''%s is not a regular file'' [ArgS path])
        else
          bnd my_uid_now (\<lambda>uid.
          if owner sb \<noteq> 0 \<and> owner sb \<noteq> uid then stop (Errx ''bad owner on %s'' [ArgS path])
          else ret ()))"

definition config_check_password_file :: "string \<Rightarrow> ('r mdp, unit) act" where
  "config_check_password_file path =
    bnd (sys (stat path)) (\<lambda>r.
    case r of
      Inl e \<Rightarrow> if e = ENOENT then ret () else stop (Err ''can't access %s'' [ArgS path])
    | Inr sb \<Rightarrow>
        if kind sb \<noteq> Reg then stop (Errx ''%s is not a regular file'' [ArgS path])
        else
          bnd my_uid_now (\<lambda>uid.
          if owner sb \<noteq> 0 \<and> owner sb \<noteq> uid then stop (Errx ''bad owner on %s'' [ArgS path])
          else if mode sb AND 0x12 \<noteq> 0 then stop (Errx ''bad permissions on %s'' [ArgS path])
          else ret ()))"

section \<open>Invariants\<close>

context frame_checks
begin

lemma config_ensure_directory_inv [act_inv_intros]: "act_inv (framed f) (config_ensure_directory p)"
  unfolding config_ensure_directory_def my_uid_now_def by (intro act_inv_intros keeps_intros)

lemma config_check_file_inv [act_inv_intros]: "act_inv (framed f) (config_check_file p)"
  unfolding config_check_file_def my_uid_now_def by (intro act_inv_intros keeps_intros)

lemma config_check_password_file_inv [act_inv_intros]: "act_inv (framed f) (config_check_password_file p)"
  unfolding config_check_password_file_def my_uid_now_def by (intro act_inv_intros keeps_intros)

end

section \<open>What the checks accept\<close>

text \<open>One step of a system call under the oracle.\<close>

lemma sys_cases:
  assumes "sys f s = (Inr r, s')"
  shows "r = fst (f (os s)) \<and> s' = s\<lparr>os := snd (f (os s))\<rparr>"
  using assms by (auto simp: sys_def split: prod.splits)

lemma syscall_Inr:
  assumes "syscall f w = (Inr x, w')"
  obtains w0 where "next_fault w = (None, w0)" "f w0 = (Inr x, w')"
  using assms by (auto simp: syscall_def split: prod.splits option.splits)

lemma next_fault_same:
  assumes "next_fault w = (e, w')"
  shows "dir w' = dir w \<and> node w' = node w \<and> my_uid w' = my_uid w \<and> fresh w' = fresh w \<and> umask w' = umask w"
  using assms by (auto simp: next_fault_def split: list.splits)

lemma stat_ok:
  assumes "stat p w = (Inr n, w')"
  shows "lookup w p = Some n \<and> lookup w' = lookup w \<and> my_uid w' = my_uid w"
proof -
  from assms obtain w0 where f: "next_fault w = (None, w0)" "(case lookup w0 p of None \<Rightarrow> Inl ENOENT | Some n \<Rightarrow> Inr n, w0) = (Inr n, w')"
    unfolding stat_def by (rule syscall_Inr) blast
  from next_fault_same [OF f(1)] have "lookup w0 = lookup w" by (auto simp: lookup_def fun_eq_iff split: option.split)
  then show ?thesis using f next_fault_same [OF f(1)] by (auto split: option.splits)
qed

text \<open>
  What a directory must be: a directory of the user or of root that nobody else can look into.
\<close>

definition private_dir :: "nat \<Rightarrow> inode \<Rightarrow> bool" where
  "private_dir uid n \<longleftrightarrow> kind n = Dir \<and> (owner n = 0 \<or> owner n = uid) \<and> mode n AND 0x3F = 0"

lemma ensure_tail:
  assumes "(if kind sb \<noteq> Dir then stop (Errx ''%s is not a directory'' [ArgS path])
    else
      bnd my_uid_now (\<lambda>uid.
      if owner sb \<noteq> 0 \<and> owner sb \<noteq> uid then stop (Errx ''bad owner on %s'' [ArgS path])
      else if mode sb AND 0x3F \<noteq> 0 then stop (Errx ''bad permissions on %s'' [ArgS path])
      else ret ())) s = (Inr (), s')"
  shows "private_dir (my_uid (os s)) sb \<and> s' = s"
  using assms
  by (auto simp: private_dir_def my_uid_now_def ebind_simps split: if_splits)

theorem ensure_directory_private:
  assumes "config_ensure_directory path s = (Inr (), s')"
  shows "\<exists>n. lookup (os s') path = Some n \<and> private_dir (my_uid (os s')) n"
proof -
  from assms obtain sb s1 where a: "(bnd (sys (stat path)) (\<lambda>r.
         case r of
           Inr sb \<Rightarrow> ret sb
         | Inl e \<Rightarrow>
             if e = ENOENT then
               bnd (sys_or (Err ''can't create %s'' [ArgS path]) (mkdir path 0x1C0)) (\<lambda>_.
               sys_or (Err ''can't stat newly created file %s'' [ArgS path]) (stat path))
             else stop (Err ''can't access %s'' [ArgS path]))) s = (Inr sb, s1)"
     and b: "(if kind sb \<noteq> Dir then stop (Errx ''%s is not a directory'' [ArgS path])
    else
      bnd my_uid_now (\<lambda>uid.
      if owner sb \<noteq> 0 \<and> owner sb \<noteq> uid then stop (Errx ''bad owner on %s'' [ArgS path])
      else if mode sb AND 0x3F \<noteq> 0 then stop (Errx ''bad permissions on %s'' [ArgS path])
      else ret ())) s1 = (Inr (), s')"
    unfolding config_ensure_directory_def by (rule bnd_InrE)
  note t = ensure_tail [OF b]
  have "\<exists>w. stat path w = (Inr sb, os s1)"
    using a by (auto simp: ebind_simps sys_def sys_or_def split: prod.splits sum.splits if_splits)
  then have "lookup (os s1) path = Some sb" using stat_ok by metis
  with t show ?thesis by auto
qed

end
