(* ===== verification/Ui.thy ===== *)
theory Ui
  imports Utils
begin

text \<open>
  The terminal: the wrappers of \<open>ui-curses.c\<close> and the pager of \<open>pager.c\<close>. Calls of the curses
  library are events with their numbers; what the user types is taken from \<open>user_keys\<close> and
  \<open>user_lines\<close>.
\<close>

definition curses :: "string \<Rightarrow> arg list \<Rightarrow> ('r mdp, unit) act" where
  "curses f args = print (Curses f args)"

section \<open>ui-curses.c\<close>

definition shutdown_curses :: "('r mdp, unit) act" where
  "shutdown_curses =
    bnd (gets screen) (\<lambda>b.
    if b then
      bnd (curses ''clear'' []) (\<lambda>_.
      bnd (curses ''refresh'' []) (\<lambda>_.
      curses ''endwin'' []))
    else ret ())"

definition resize_handler :: "('r mdp, unit) act" where
  "resize_handler =
    bnd (curses ''clear'' []) (\<lambda>_.
    bnd shutdown_curses (\<lambda>_.
    stop (Errx ''terminal resize'' [])))"

definition waddwcs :: "('r, 'p) lib \<Rightarrow> wchar list \<Rightarrow> ('r mdp, unit) act" where
  "waddwcs L str =
    bnd (lift (wcs_duplicate_as_mbs (lib_ok L) (lib_junk L) (lib_cm L) str)) (\<lambda>mbs.
    case mbs of
      None \<Rightarrow> stop (Err ''waddwcs:wcs_duplicate_as_mbs'' [])
    | Some m \<Rightarrow> curses ''waddstr'' [ArgS (cstr NUL m)])"

text \<open>
  \<open>timeout (cfg_timeout * 1000)\<close>: the product is an \<open>unsigned int\<close>, the parameter an \<open>int\<close>;
  a negative number makes \<open>getch\<close> wait for ever.
\<close>

definition init_curses :: "('r, 'p) lib \<Rightarrow> ('r mdp, unit) act" where
  "init_curses L =
    bnd (case winsize L of
           None \<Rightarrow> ret ()
         | Some (cols, rows) \<Rightarrow> modify (\<lambda>s. s\<lparr>window_width := cols, window_height := rows\<rparr>)) (\<lambda>_.
    bnd (modify (\<lambda>s. s\<lparr>screen := True\<rparr>)) (\<lambda>_.
    bnd (curses ''initscr'' []) (\<lambda>_.
    bnd (curses ''noecho'' []) (\<lambda>_.
    bnd (curses ''cbreak'' []) (\<lambda>_.
    bnd (curses ''curs_set'' [ArgD 0]) (\<lambda>_.
    bnd (gets (\<lambda>s. cfg_timeout (cfg (conf s)))) (\<lambda>t.
    curses ''timeout'' [ArgD (sint (t * 1000))])))))))"

section \<open>pager.c\<close>

definition RESULTS_MAX_LEN :: u32 where "RESULTS_MAX_LEN = 128"

definition MSG_TOO_MANY :: string where
  "MSG_TOO_MANY = ''Too many results, please refine your search.''"

text \<open>An argument of type \<open>int\<close> computed as a \<open>size_t\<close>.\<close>

definition int_of_size :: "size_t \<Rightarrow> int" where
  "int_of_size n = sint (ucast n :: u32)"

text \<open>
  One visible entry: the cursor moves to the next free line, \<open>top_offset\<close>. A line longer than
  the window takes more lines; \<open>top_offset += wcs_len / window_width\<close> is computed as a
  \<open>size_t\<close>, on an \<open>int\<close> read as one.
\<close>

fun listing_loop :: "u32 \<Rightarrow> int \<Rightarrow> result list \<Rightarrow> int \<Rightarrow> ('r mdp, unit) act" where
  "listing_loop width col [] row = ret ()"
| "listing_loop width col (r # rs) row =
    (if \<not> visible r then listing_loop width col rs row
     else
       bnd (curses ''wmove'' [ArgD row, ArgD col]) (\<lambda>_.
       bnd (curses ''waddstr'' [ArgS (mbs_value r)]) (\<lambda>_.
       if ucast width < wcs_len r then
         (if width = 0 then stop (Undefined ''division by zero'')
          else listing_loop width col rs (int_of_size (of_int row + wcs_len r div ucast width) + 1))
       else listing_loop width col rs (row + 1))))"

definition all_items :: "wlist \<Rightarrow> halt + result list" where
  "all_items a = for_items ARRAY_ITEM a (unat (ARRAY_LENGTH a)) 0 (\<lambda>r acc. Inr (acc @ [r])) []"

lemma all_items_list: "carr_inv a \<Longrightarrow> all_items a = Inr (carr_list a)"
proof -
  assume a: "carr_inv a"
  have "fold (\<lambda>r acc. acc @ [r]) rs acc = acc @ rs" for rs acc :: "result list"
    by (induction rs arbitrary: acc) auto
  then show ?thesis
    using carr.for_items_pure [OF a, of "\<lambda>r acc. acc @ [r]" "[]"] by (simp add: all_items_def)
qed

definition refresh_listing :: "('r mdp, unit) act" where
  "refresh_listing =
    bnd (gets results) (\<lambda>rs.
    bnd (gets window_width) (\<lambda>width.
    bnd (gets window_height) (\<lambda>height.
    bnd (lift (results_visible_length rs)) (\<lambda>len.
    if height \<le> len \<or> RESULTS_MAX_LEN \<le> len then
      bnd (curses ''wmove'' [ArgD (sint (height div 2)),
             ArgD (int_of_size ((ucast width - of_nat (length MSG_TOO_MANY + 1) - 1) div 2))]) (\<lambda>_.
      bnd (curses ''waddstr'' [ArgS MSG_TOO_MANY]) (\<lambda>_.
      curses ''refresh'' []))
    else
      bnd (lift (get_max_length rs)) (\<lambda>maxlen.
      let top_offset = sint ((height - len) div 2);
          left_offset = (if width < maxlen then 0 else sint ((width - maxlen) div 2))
      in
      bnd (lift (all_items rs)) (\<lambda>items.
      bnd (listing_loop width left_offset items top_offset) (\<lambda>_.
      curses ''refresh'' [])))))))"

text \<open>
  \<open>getnstr (kw, n)\<close> stores at most \<open>n\<close> characters of the line and a terminator.
\<close>

fun store_str :: "string \<Rightarrow> nat \<Rightarrow> string \<Rightarrow> halt + string" where
  "store_str b i [] = wr_at ''getnstr writes outside kw'' b i NUL"
| "store_str b i (c # cs) = ebind (wr_at ''getnstr writes outside kw'' b i c) (\<lambda>b. store_str b (Suc i) cs)"

definition getnstr :: "string \<Rightarrow> nat \<Rightarrow> string \<Rightarrow> halt + string" where
  "getnstr kw n line = store_str kw 0 (take n line)"

text \<open>
  Waiting for input that does not come: the call returns at the timeout, and never when the number
  given to \<open>timeout\<close> is negative.
\<close>

definition wait_input :: "('r mdp, unit) act" where
  "wait_input =
    bnd (gets (\<lambda>s. cfg_timeout (cfg (conf s)))) (\<lambda>t.
    if sint (t * 1000) < 0 then stop Forever else ret ())"

definition keyword_prompt :: "('r, 'p) lib \<Rightarrow> ('r mdp, unit) act" where
  "keyword_prompt L =
    bnd (curses ''curs_set'' [ArgD 1]) (\<lambda>_.
    bnd (gets window_height) (\<lambda>height.
    bnd (curses ''wmove'' [ArgD (sint (height - 1)), ArgD 0]) (\<lambda>_.
    bnd (curses ''waddstr'' [ArgS ''Keywords: '']) (\<lambda>_.
    bnd (curses ''refresh'' []) (\<lambda>_.
    bnd (curses ''echo'' []) (\<lambda>_.
    bnd (gets user_lines) (\<lambda>ls.
    bnd (if ls = [] then wait_input else ret ()) (\<lambda>_.
    bnd (modify (\<lambda>s. s\<lparr>user_lines := tl ls\<rparr>)) (\<lambda>_.
    bnd (lift (getnstr (replicate 50 NUL) 50 (if ls = [] then [] else hd ls))) (\<lambda>kw.
    bnd (gets kws) (\<lambda>k.
    bnd (lift (keywords_load_from_char (lib_ok L) (cstr NUL kw) k)) (\<lambda>k.
    modify (\<lambda>s. s\<lparr>kws := k\<rparr>)))))))))))))"

definition filter_all :: "('r, 'p) lib \<Rightarrow> ('r mdp, unit) act" where
  "filter_all L =
    (\<lambda>s. case filter_results (lib_cm L) (lib_lower L) (lib_rx L) (lib_kw0 L) (cmd_regex (opts s)) (kws s) (results s) (mbs_line s) of
       Inl h \<Rightarrow> (Inl h, s)
     | Inr (rs, mb) \<Rightarrow> (Inr (), s\<lparr>results := rs, mbs_line := mb\<rparr>))"

text \<open>
  The loop of \<open>_pager\<close>, over the keys still to be pressed: when there are no more, or none before the
  timeout (\<open>None\<close>), \<open>getch\<close> waits.
\<close>

function pager_loop :: "('r, 'p) lib \<Rightarrow> bool \<Rightarrow> char option list \<Rightarrow> ('r mdp, unit) act" where
  "pager_loop L start_with_prompt keys =
    bnd (curses ''clear'' []) (\<lambda>_.
    if start_with_prompt then
      bnd (keyword_prompt L) (\<lambda>_.
      bnd (filter_all L) (\<lambda>_.
      pager_loop L False keys))
    else
      bnd refresh_listing (\<lambda>_.
      case keys of
        [] \<Rightarrow> wait_input
      | key # keys \<Rightarrow>
          if key = None then wait_input
          else if key = Some CHR ''/'' then
            bnd (keyword_prompt L) (\<lambda>_.
            bnd (filter_all L) (\<lambda>_.
            pager_loop L False keys))
          else ret ()))"
  by pat_completeness auto
termination
  by (relation "measures [\<lambda>(L, b, keys). length keys, \<lambda>(L, b, keys). if b then 1 else 0]") auto

declare pager_loop.simps [simp del]

definition pager_from :: "('r, 'p) lib \<Rightarrow> bool \<Rightarrow> ('r mdp, unit) act" where
  "pager_from L start_with_prompt =
    bnd (init_curses L) (\<lambda>_.
    bnd (gets user_keys) (\<lambda>keys.
    bnd (pager_loop L start_with_prompt keys) (\<lambda>_.
    shutdown_curses)))"

section \<open>Only the screen changes\<close>

context frame_checks
begin

lemma curses_inv [act_inv_intros]: "act_inv (framed f) (curses g args)"
  unfolding curses_def by (intro act_inv_intros)

lemma shutdown_curses_inv [act_inv_intros]: "act_inv (framed f) shutdown_curses"
  unfolding shutdown_curses_def by (intro act_inv_intros)

lemma init_curses_inv [act_inv_intros]: "act_inv (framed f) (init_curses L)"
  unfolding init_curses_def by (intro act_inv_intros framed_modify; simp)

lemma listing_loop_inv [act_inv_intros]: "act_inv (framed f) (listing_loop w c rs row)"
  by (induction w c rs row rule: listing_loop.induct) (auto intro!: act_inv_intros)

lemma refresh_listing_inv [act_inv_intros]: "act_inv (framed f) refresh_listing"
  unfolding refresh_listing_def Let_def by (intro act_inv_intros)

lemma wait_input_inv [act_inv_intros]: "act_inv (framed f) wait_input"
  unfolding wait_input_def by (intro act_inv_intros)

lemma keyword_prompt_inv [act_inv_intros]: "act_inv (framed f) (keyword_prompt L)"
  unfolding keyword_prompt_def by (intro act_inv_intros framed_modify; simp)

lemma filter_all_inv [act_inv_intros]: "act_inv (framed f) (filter_all L)"
  by (auto simp: act_inv_def filter_all_def split: sum.split)

lemma pager_loop_inv [act_inv_intros]: "act_inv (framed f) (pager_loop L b keys)"
proof (induction L b keys rule: pager_loop.induct)
  case (1 L b keys)
  show ?case
    using 1 by (subst pager_loop.simps) (auto intro!: act_inv_intros split: list.split)
qed

lemma pager_from_inv [act_inv_intros]: "act_inv (framed f) (pager_from L b)"
  unfolding pager_from_def by (intro act_inv_intros)

end

end
