(* ===== verification/Gpg.thy ===== *)
theory Gpg
  imports Ui
begin

text \<open>
  The end of a run (\<open>cleanup.c\<close>), the dialogue with GnuPG (\<open>gpg.c\<close>) and
  \<open>load_results_gpg\<close>. A child process works on the same file system and ends before the parent
  reads its output; a child that fails before it becomes GnuPG leaves through \<open>err\<close>, so it runs
  the exit handlers the parent had registered.
\<close>

section \<open>cleanup.c\<close>

definition cleanup :: "('r mdp, unit) act" where
  "cleanup =
    bnd lock_unset (\<lambda>_.
    bnd (gets editor_tmp_path) (\<lambda>p.
    bnd (case p of
           None \<Rightarrow> ret ()
         | Some p \<Rightarrow> sys_or (Err (''unable to remove '%s'' @ [CHR 0x27]) [ArgS p]) (unlink p)) (\<lambda>_.
    shutdown_curses)))"

definition atexit_cleanup :: "('r mdp, unit) act" where
  "atexit_cleanup =
    bnd (gets (\<lambda>s. my_pid (os s))) (\<lambda>pid.
    bnd (debug ''atexit_cleanup (PID: %d)'' [ArgD (int pid)]) (\<lambda>_.
    cleanup))"

definition sig_cleanup :: "('r mdp, unit) act" where
  "sig_cleanup =
    bnd (gets (\<lambda>s. my_pid (os s))) (\<lambda>pid.
    bnd (debug ''sig_cleanup (PID: %d)'' [ArgD (int pid)]) (\<lambda>_.
    cleanup))"

text \<open>\<open>exit\<close>: the registered handler runs once.\<close>

definition run_atexit :: "'r mdp \<Rightarrow> 'r mdp" where
  "run_atexit s = (if atexit_registered s then snd (atexit_cleanup (s\<lparr>atexit_registered := False\<rparr>)) else s)"

section \<open>The watcher process\<close>

text \<open>
  What the child of \<open>set_pid_timeout\<close> does: after sleeping it looks whether its parent is still
  there and interrupts GnuPG. \<open>_Exit\<close> runs no handlers: it is the end of the code. When the
  interruption fails, the child leaves through \<open>err\<close>, so it runs the handlers it inherited.
\<close>

definition watcher_code :: "u32 \<Rightarrow> ('r mdp, unit) act" where
  "watcher_code timeout =
    bnd (debug ''set_pid_timeout sleep(%d)'' [ArgD (sint timeout)]) (\<lambda>_.
    bnd (sys simple_call) (\<lambda>r.
    case r of
      Inl e \<Rightarrow> debug ''set_pid_timeout parent is gone, aborting'' []
    | Inr _ \<Rightarrow>
        bnd (debug ''set_pid_timeout kill(%d, SIGINT)'' []) (\<lambda>_.
        bnd (print (Warning ''gpg timed out after %d seconds, aborting'' [ArgD (sint timeout)])) (\<lambda>_.
        sys_or (Err ''set_pid_timeout child kill'' []) simple_call))))"

definition watcher :: "u32 \<Rightarrow> 'r mdp \<Rightarrow> 'r mdp" where
  "watcher timeout s =
    (case watcher_code timeout s of
       (Inr _, s') \<Rightarrow> s\<lparr>os := os s'\<rparr>
     | (Inl h, s') \<Rightarrow> s\<lparr>os := os (if h = Killed then s' else run_atexit s')\<rparr>)"

section \<open>gpg.c\<close>

definition gpg_path :: "'r mdp \<Rightarrow> string option" where
  "gpg_path s = cfg_gpg_path (cfg (conf s))"

definition password_file :: "'r mdp \<Rightarrow> string option" where
  "password_file s = cfg_password_file (cfg (conf s))"

definition gpg_check :: "('r, 'p) lib \<Rightarrow> ('r mdp, unit) act" where
  "gpg_check L =
    bnd (bnd (gets gpg_path) str_of) (\<lambda>path.
    bnd (lift (join (lib_ok L) CHR '' '' path ''--version > /dev/null'')) (\<lambda>cmd.
    bnd (run L cmd) (\<lambda>r.
    if r \<noteq> 0 then stop (Errx ''unable to run gpg (check gpg_path)'' [])
    else
      bnd (lift (join (lib_ok L) CHR '' '' path ''--list-secret-keys | grep -q sec'')) (\<lambda>cmd.
      bnd (run L cmd) (\<lambda>r.
      if r \<noteq> 0 then stop (Errx ''no gpg key found'' [])
      else
        bnd (gets (\<lambda>s. cfg_gpg_key_id (cfg (conf s)))) (\<lambda>k.
        if k = None then stop (Errx ''no gpg_key_id (use -k or ~/.mdp/config).'' []) else ret ()))))))"

text \<open>
  The child: what it wrote to the pipe and how it ended. The pipe's end is not descriptor 1, as
  standard output is open, so the child closes it.
\<close>

definition gpg_child_code :: "('r, 'p) lib \<Rightarrow> string \<Rightarrow> string \<Rightarrow> ('r mdp, string \<times> child_end) act" where
  "gpg_child_code L path pw =
    bnd (sys_or (Err ''child close(pout[0])'' []) simple_call) (\<lambda>_.
    bnd (sys_or (Err ''dup2 (child stdout)'' []) simple_call) (\<lambda>_.
    bnd (sys_or (Err ''child close(pipe_out[1])'' []) simple_call) (\<lambda>_.
    bnd (debug ''gpg_open child pid: %d'' []) (\<lambda>_.
    bnd (gets (\<lambda>s. cfg_gpg_timeout (cfg (conf s)))) (\<lambda>t.
    (\<lambda>s. case execlp L path [''-q'', ''--decrypt'', pw] t (os s) of
            None \<Rightarrow> (Inl (Err ''couldn't execute'' []), s)
          | Some (output, e, w) \<Rightarrow> (Inr (output, e), s\<lparr>os := w\<rparr>)))))))"

text \<open>
  The file system is shared, the variables are the child's own copy. A child that is killed runs no
  handler, and its parent sees the signal.
\<close>

definition gpg_child :: "('r, 'p) lib \<Rightarrow> string \<Rightarrow> string \<Rightarrow> ('r mdp, string \<times> child_end) act" where
  "gpg_child L path pw s =
    (case gpg_child_code L path pw s of
       (Inr r, s') \<Rightarrow> (Inr r, s\<lparr>os := os s'\<rparr>)
     | (Inl h, s') \<Rightarrow>
         if h = Killed then (Inr ([], Signaled), s\<lparr>os := os s'\<rparr>)
         else (Inr ([], Exited exit_failure), s\<lparr>os := os (run_atexit s')\<rparr>))"

text \<open>
  The stream is what GnuPG will have written, with the way it ended. A failing \<open>fdopen\<close> gives
  a null stream, as a missing password file does.
\<close>

definition gpg_open :: "('r, 'p) lib \<Rightarrow> ('r mdp, (string \<times> child_end) option) act" where
  "gpg_open L =
    bnd (bnd (gets password_file) str_of) (\<lambda>pw.
    bnd (file_exists pw) (\<lambda>b.
    if \<not> b then
      bnd (debug ''gpg_open password file does not exist (yet)'' []) (\<lambda>_. ret None)
    else
      bnd (bnd (gets gpg_path) str_of) (\<lambda>path.
      bnd (debug ''gpg_open %s %s'' [ArgS path, ArgS pw]) (\<lambda>_.
      bnd (sys_or (Err ''gpg_decode pipe(pout)'' []) simple_call) (\<lambda>_.
      bnd (sys_or (Err ''gpg_decode fork'' []) simple_call) (\<lambda>_.
      bnd (gpg_child L path pw) (\<lambda>c.
      bnd (sys_or (Err ''close(pout[1])'' []) simple_call) (\<lambda>_.
      bnd (sys simple_call) (\<lambda>fp.
      bnd (gets (\<lambda>s. cfg_gpg_timeout (cfg (conf s)))) (\<lambda>t.
      bnd (set_pid_timeout t) (\<lambda>_.
      ret (case fp of Inl e \<Rightarrow> None | Inr _ \<Rightarrow> Some c))))))))))))"

text \<open>When \<open>waitpid\<close> fails, \<open>status\<close> is read without having been set.\<close>

definition gpg_close :: "string \<times> child_end \<Rightarrow> ('r mdp, int) act" where
  "gpg_close fp =
    bnd (debug ''gpg_close'' []) (\<lambda>_.
    bnd (sys_or (Err ''gpg_close fclose()'' []) simple_call) (\<lambda>_.
    bnd (sys simple_call) (\<lambda>x.
    case x of
      Inl e \<Rightarrow> stop (Undefined ''status is indeterminate'')
    | Inr _ \<Rightarrow>
        (case snd fp of
           Signaled \<Rightarrow> stop (Errx ''gpg_close gpg interrupted'' [])
         | Exited retcode \<Rightarrow>
             bnd (debug ''gpg_close return code: %d'' [ArgD retcode]) (\<lambda>_.
             bnd cancel_pid_timeout (\<lambda>_.
             ret retcode))))))"

text \<open>
  The backup part of \<open>gpg_encrypt\<close>: the old file is linked under the backup's name before its
  own name is removed.
\<close>

definition move_aside :: "string \<Rightarrow> bool \<Rightarrow> ('r mdp, unit) act" where
  "move_aside pw backup =
    bnd (if backup then
           bnd (debug ''gpg_encrypt backup: %s'' [ArgS (pw @ ''.bak'')]) (\<lambda>_.
           bnd (sys (unlink (pw @ ''.bak''))) (\<lambda>r.
           bnd (case r of
                  Inl e \<Rightarrow> if e \<noteq> ENOENT then stop (Err ''gpg_encrypt backup unlink'' []) else ret ()
                | Inr _ \<Rightarrow> ret ()) (\<lambda>_.
           sys_or (Err ''gpg_encrypt backup link'' []) (link pw (pw @ ''.bak'')))))
         else ret ()) (\<lambda>_.
    sys_or (Err ''gpg_encrypt unlink(cfg_password_file)'' []) (unlink pw))"

text \<open>The new file takes the password file's name.\<close>

definition put_in_place :: "string \<Rightarrow> string \<Rightarrow> ('r mdp, unit) act" where
  "put_in_place encrypted pw =
    bnd (sys_or (Err ''gpg_encrypt link(tmp_encrypted_path=%s, cfg_password_file=%s)'' [ArgS encrypted, ArgS pw])
           (link encrypted pw)) (\<lambda>_.
    bnd (sys_or (Err ''gpg_encrypt chmod'' []) (chmod pw 0x180)) (\<lambda>_.
    sys_or (Err ''gpg_encrypt unlink(tmp_encrypted_path)'' []) (unlink encrypted)))"

text \<open>\<open>encrypted\<close> is the text of the third \<open>xasprintf\<close> of \<open>gpg_encrypt\<close>, which comes after \<open>move_aside\<close>.\<close>

definition swap_in :: "allocator \<Rightarrow> string \<Rightarrow> string \<Rightarrow> ('r mdp, unit) act" where
  "swap_in ok encrypted pw =
    bnd (file_exists pw) (\<lambda>b.
    bnd (if b then bnd (gets (\<lambda>s. cfg_backup (cfg (conf s)))) (\<lambda>backup. move_aside pw backup) else ret ()) (\<lambda>_.
    bnd (lift (formatted ok encrypted)) (\<lambda>tmp_encrypted_path.
    put_in_place tmp_encrypted_path pw)))"

definition gpg_encrypt :: "('r, 'p) lib \<Rightarrow> string \<Rightarrow> ('r mdp, unit) act" where
  "gpg_encrypt L tmp_path =
    bnd (bnd (gets gpg_path) str_of) (\<lambda>path.
    bnd (bnd (gets (\<lambda>s. cfg_gpg_key_id (cfg (conf s)))) str_of) (\<lambda>key.
    bnd (lift (formatted (lib_ok L) (path @ '' -r '' @ key @ '' -e '' @ tmp_path))) (\<lambda>cmd.
    bnd (debug ''gpg_encrypt system(%s)'' [ArgS cmd]) (\<lambda>_.
    bnd (run L cmd) (\<lambda>r.
    if r \<noteq> 0 then stop (Errx ''gpg_encrypt system(%s) != 0'' [ArgS cmd])
    else
      bnd (bnd (gets password_file) str_of) (\<lambda>pw.
      bnd (lift (formatted (lib_ok L) (pw @ ''.bak''))) (\<lambda>_.
      swap_in (lib_ok L) (tmp_path @ ''.gpg'') pw)))))))"

section \<open>load_results_gpg of results.c\<close>

text \<open>\<open>load_results_fp\<close> on the global variables.\<close>

definition load_fp :: "('r, 'p) lib \<Rightarrow> string option \<Rightarrow> ('r mdp, u32) act" where
  "load_fp L fp =
    (\<lambda>s. case load_results_fp (lib_ok L) (lib_junk L) (lib_cm L) fp (wline s) (results s) of
       None \<Rightarrow> (Inl Forever, s)
     | Some (Inl h) \<Rightarrow> (Inl h, s)
     | Some (Inr (n, c, wl, rs, warn)) \<Rightarrow>
         (Inr n, s\<lparr>result_crc32 := c, wline := wl, results := rs,
                  os := fold emit (map (\<lambda>i. Warning ''WARNING: Line %d is too long (max:%ld) or does not end with a new line.''
                      [ArgD (uint i), ArgD (int MAX_LINE_SIZE)]) warn) (os s)\<rparr>))"

definition load_results_gpg :: "('r, 'p) lib \<Rightarrow> ('r mdp, u32) act" where
  "load_results_gpg L =
    bnd (gpg_open L) (\<lambda>fp.
    case fp of
      None \<Rightarrow> ret 0
    | Some f \<Rightarrow>
        bnd (load_fp L (Some (fst f))) (\<lambda>n.
        bnd (gpg_close f) (\<lambda>r.
        if r \<noteq> 0 then stop (Errx ''GnuPG returned with an error'' []) else ret n)))"

section \<open>Invariants\<close>

lemma act_inv_child_end [act_inv_intros]:
  "(\<And>n. x = Exited n \<Longrightarrow> act_inv P (f n)) \<Longrightarrow> (x = Signaled \<Longrightarrow> act_inv P g) \<Longrightarrow>
   act_inv P (case x of Exited n \<Rightarrow> f n | Signaled \<Rightarrow> g)"
  by (cases x) simp_all

context frame_guards
begin

lemma cleanup_inv [act_inv_intros]: "act_inv (framed f) cleanup"
proof -
  have "act_inv (framed f) (bnd (gets editor_tmp_path) (\<lambda>p. bnd (case p of None \<Rightarrow> ret ()
      | Some p \<Rightarrow> sys_or (h p) (unlink p)) (\<lambda>_. shutdown_curses)) :: ('a mdp, unit) act)" for h
  proof (rule act_inv_with)
    fix s :: "'a mdp" assume a: "framed f s"
    have "framed f (snd ((case editor_tmp_path s of None \<Rightarrow> ret () | Some p \<Rightarrow> sys_or (h p) (unlink p)) s))"
    proof (cases "editor_tmp_path s")
      case None
      then show ?thesis using a by (simp add: ret_def)
    next
      case (Some p)
      then have "keeps (\<lambda>w. f w (lock_path s) (editor_tmp_path s) (cfg (conf s)) (atexit_registered s)) (unlink p)"
        by (simp add: frame_forget)
      from framed_sys_at(2) [of f, OF this a] show ?thesis by (simp only: Some option.case)
    qed
    then show "framed f (snd (bnd (case editor_tmp_path s of None \<Rightarrow> ret () | Some p \<Rightarrow> sys_or (h p) (unlink p))
        (\<lambda>_. shutdown_curses) s))"
      by (rule act_inv_after [where P = "framed f", OF _ shutdown_curses_inv])
  qed
  then show ?thesis unfolding cleanup_def by (rule act_inv_bnd [OF lock_unset_inv])
qed

lemma atexit_cleanup_inv [act_inv_intros]: "act_inv (framed f) atexit_cleanup"
  unfolding atexit_cleanup_def by (intro act_inv_intros)

lemma sig_cleanup_inv [act_inv_intros]: "act_inv (framed f) sig_cleanup"
  unfolding sig_cleanup_def by (intro act_inv_intros)

lemma run_atexit_inv: "framed f s \<Longrightarrow> framed f (run_atexit s)"
  using atexit_cleanup_inv [unfolded act_inv_def, rule_format, of "s\<lparr>atexit_registered := False\<rparr>"]
  by (simp add: run_atexit_def frame_exit)

end

context frame_checks
begin

lemma gpg_check_inv [act_inv_intros]: "(\<And>l t c b. tame (\<lambda>w. f w l t c b) L) \<Longrightarrow> act_inv (framed f) (gpg_check L)"
  unfolding gpg_check_def by (intro act_inv_intros)

lemma load_fp_inv [act_inv_intros]: "act_inv (framed f) (load_fp L fp)"
  by (auto simp: act_inv_def load_fp_def frame_emits split: option.split sum.split)

end

context frame_reads
begin

lemma watcher_code_inv: "act_inv (framed f) (watcher_code t)"
  unfolding watcher_code_def by (intro act_inv_intros keeps_intros)

lemma gpg_child_code_inv: "(\<And>l t c b. tame (\<lambda>w. f w l t c b) L) \<Longrightarrow> act_inv (framed f) (gpg_child_code L path pw)"
  unfolding gpg_child_code_def
  by (intro act_inv_intros keeps_intros) (auto simp: act_inv_def tame_def split: option.split)

end

text \<open>None of these operations changes a name or a setting.\<close>

interpretation same: frame_reads "\<lambda>w l t c b. l = l0 \<and> t = t0 \<and> c = c0 \<and> b = b0" for l0 t0 c0 b0
  by unfold_locales (simp_all add: keeps_def)

interpretation names: frame_guards "\<lambda>w l t c b. l = l0 \<and> t = t0 \<and> c = c0" for l0 t0 c0
  by unfold_locales (simp_all add: keeps_def)

lemma any_tame [simp]: "tame (\<lambda>w. b) L"
  by (simp add: tame_def keeps_def)

section \<open>Child processes\<close>

text \<open>A child that fails runs its copy of the exit handler, which must keep the predicate.\<close>

abbreviation exits_keep :: "'r itself \<Rightarrow> (world \<Rightarrow> string option \<Rightarrow> string option \<Rightarrow> config \<Rightarrow> bool \<Rightarrow> bool) \<Rightarrow> bool" where
  "exits_keep T f \<equiv> (\<forall>s :: 'r mdp. framed f s \<longrightarrow> framed f (s\<lparr>os := os (run_atexit s)\<rparr>))"

lemma child_inv:
  fixes s :: "'r mdp"
  assumes "act_inv (framed f) m"
    and "act_inv (framed (\<lambda>w l t c b. l = lock_path s \<and> t = editor_tmp_path s \<and> c = cfg (conf s) \<and> b = atexit_registered s)) m"
    and "m s = (r, s')" "framed f s" "exits_keep TYPE('r) f"
  shows "framed f (s\<lparr>os := os s'\<rparr>)" "framed f (s\<lparr>os := os (run_atexit s')\<rparr>)"
proof -
  have f: "framed f s'" using assms(1,3,4) by (metis act_inv_def snd_conv)
  have n: "lock_path s' = lock_path s \<and> editor_tmp_path s' = editor_tmp_path s \<and> cfg (conf s') = cfg (conf s)
      \<and> atexit_registered s' = atexit_registered s"
    using assms(2) [unfolded act_inv_def, rule_format, of s] assms(3) by (metis snd_conv)
  have "framed f (s'\<lparr>os := os (run_atexit s')\<rparr>)" using assms(5) f by blast
  then show "framed f (s\<lparr>os := os s'\<rparr>)" "framed f (s\<lparr>os := os (run_atexit s')\<rparr>)" using f n by simp_all
qed

context frame_reads
begin

lemma gpg_child_keeps:
  assumes "\<And>l t c b. tame (\<lambda>w. f w l t c b) L" "exits_keep TYPE('r) f"
  shows "act_inv (framed f) (gpg_child L path pw :: ('r mdp, string \<times> child_end) act)"
  unfolding act_inv_def
proof (intro allI impI)
  fix s :: "'r mdp" assume s: "framed f s"
  obtain r s' where e: "gpg_child_code L path pw s = (r, s')" by fastforce
  from child_inv [OF gpg_child_code_inv [OF assms(1)] same.gpg_child_code_inv [OF any_tame] e s assms(2)]
  show "framed f (snd (gpg_child L path pw s))" using e by (cases r) (simp_all add: gpg_child_def)
qed

lemma watcher_keeps:
  fixes s :: "'r mdp"
  assumes "framed f s" "exits_keep TYPE('r) f"
  shows "framed f (watcher t s)"
proof -
  obtain r s' where e: "watcher_code t s = (r, s')" by fastforce
  from child_inv [OF watcher_code_inv same.watcher_code_inv e assms]
  show "framed f (watcher t s)" using e by (cases r) (simp_all add: watcher_def)
qed

lemma gpg_close_inv [act_inv_intros]: "act_inv (framed f) (gpg_close fp)"
  unfolding gpg_close_def by (intro act_inv_intros keeps_intros)

lemma load_results_gpg_keeps:
  assumes "\<And>l t c b. tame (\<lambda>w. f w l t c b) L" "exits_keep TYPE('r) f"
  shows "act_inv (framed f) (load_results_gpg L :: ('r mdp, u32) act)"
  unfolding load_results_gpg_def gpg_open_def using assms by (intro act_inv_intros keeps_intros gpg_child_keeps)

end

context frame_guards
begin

lemma guarded_exits: "exits_keep TYPE('r) f"
proof (intro allI impI)
  fix s :: "'r mdp" assume "framed f s"
  moreover have "lock_path (run_atexit s) = lock_path s \<and> editor_tmp_path (run_atexit s) = editor_tmp_path s
      \<and> cfg (conf (run_atexit s)) = cfg (conf s)"
    by (rule names.run_atexit_inv) simp
  ultimately show "framed f (s\<lparr>os := os (run_atexit s)\<rparr>)" using run_atexit_inv [of s] by (simp add: frame_exit)
qed

lemma watcher_inv: "framed f s \<Longrightarrow> framed f (watcher t s)"
  by (rule watcher_keeps [OF _ guarded_exits])

lemma load_results_gpg_inv [act_inv_intros]:
  "(\<And>l t c b. tame (\<lambda>w. f w l t c b) L) \<Longrightarrow> act_inv (framed f) (load_results_gpg L)"
  by (rule load_results_gpg_keeps [OF _ guarded_exits])

end

context frame_unregistered
begin

lemma unregistered_exits: "exits_keep TYPE('r) f"
  using frame_no_exit by (auto simp: run_atexit_def)

lemma load_results_gpg_inv [act_inv_intros]:
  "(\<And>l t c b. tame (\<lambda>w. f w l t c b) L) \<Longrightarrow> act_inv (framed f) (load_results_gpg L)"
  by (rule load_results_gpg_keeps [OF _ unregistered_exits])

end

context os_invariant
begin

lemma gpg_encrypt_inv [act_inv_intros]: "tame R L \<Longrightarrow> act_inv (on_os R) (gpg_encrypt L tmp)"
  unfolding gpg_encrypt_def swap_in_def put_in_place_def move_aside_def by (intro act_inv_intros keeps_intros)

end

end
