(* ===== verification/Editor.thy ===== *)
theory Editor
  imports Gpg
begin

text \<open>
  The edit cycle of \<open>editor.c\<close>: dump the entries to a temporary file, run the editor on it, and
  encrypt the file if its checksum is not the one of the decrypted text.
\<close>

section \<open>The code\<close>

definition editor_init :: "('r, 'p) lib \<Rightarrow> string \<Rightarrow> ('r mdp, unit) act" where
  "editor_init L config_dir =
    bnd (lift (join_path (lib_ok L) config_dir ''tmp_edit.XXXXXXXX'')) (\<lambda>p.
    bnd (modify (\<lambda>s. s\<lparr>editor_tmp_path := Some p\<rparr>)) (\<lambda>_.
    bnd (gets (\<lambda>s. environ (os s) ''EDITOR'')) (\<lambda>e.
    case e of
      None \<Rightarrow> ret ()
    | Some v \<Rightarrow> modify (\<lambda>s. s\<lparr>conf := (conf s)\<lparr>cfg := (cfg (conf s))\<lparr>cfg_editor := strdup (lib_ok L) v\<rparr>\<rparr>\<rparr>))))"

text \<open>The literal \<open>" \0\t"\<close> ends, as a C string, before the NUL: only a blank separates.\<close>

definition editor_is_vim :: "string \<Rightarrow> bool" where
  "editor_is_vim command =
    (let s = (case strpbrk '' '' command of None \<Rightarrow> length command | Some i \<Rightarrow> i) in
     if s < 3 then False
     else if take 3 (drop (s - 3) command) = ''vim'' then True else False)"

definition spawn_editor :: "('r, 'p) lib \<Rightarrow> string \<Rightarrow> ('r mdp, unit) act" where
  "spawn_editor L path =
    bnd (bnd (gets (\<lambda>s. cfg_editor (cfg (conf s)))) str_of) (\<lambda>cfg_ed.
    bnd (if editor_is_vim cfg_ed then lift (join (lib_ok L) CHR '' '' cfg_ed ''-n'')
         else str_of (strdup (lib_ok L) cfg_ed)) (\<lambda>editor.
    bnd (lift (formatted (lib_ok L) (editor @ '' '' @ [CHR 0x22] @ path @ [CHR 0x22]))) (\<lambda>cmd.
    bnd (debug ''spawn_editor: %s'' [ArgS cmd]) (\<lambda>_.
    bnd (run L cmd) (\<lambda>r.
    if r = -1 then stop (Err ''unable to spawn editor: %s'' [ArgS cmd])
    else if r > 0 then stop (Err ''editor returned with an error: %s'' [ArgS cmd])
    else ret ())))))"

text \<open>
  The stream may be null: \<open>load_results_fp\<close> then reads nothing, and \<open>fclose\<close> gets a null pointer.
\<close>

definition has_changed :: "('r, 'p) lib \<Rightarrow> string \<Rightarrow> ('r mdp, bool) act" where
  "has_changed L path =
    bnd (gets result_crc32) (\<lambda>previous_crc32.
    bnd (sys (fopen_r path)) (\<lambda>fp.
    bnd (load_fp L (case fp of Inl e \<Rightarrow> None | Inr s \<Rightarrow> Some s)) (\<lambda>_.
    bnd (case fp of Inl e \<Rightarrow> stop (Undefined ''fclose of a null stream'') | Inr _ \<Rightarrow> ret ()) (\<lambda>_.
    bnd (gets result_crc32) (\<lambda>c.
    ret (previous_crc32 \<noteq> c))))))"

fun dump_loop :: "nat \<Rightarrow> result list \<Rightarrow> ('r mdp, unit) act" where
  "dump_loop fd [] = ret ()"
| "dump_loop fd (r # rs) =
    bnd (sys_or (Err ''edit_results write'' []) (write_fd fd (take (unat (mbs_len r)) (mbs_value r)))) (\<lambda>_.
    bnd (sys_or (Err ''edit_results write (new-line)'' []) (write_fd fd [NL])) (\<lambda>_.
    dump_loop fd rs))"

definition edit_results :: "('r, 'p) lib \<Rightarrow> ('r mdp, unit) act" where
  "edit_results L =
    bnd (bnd (gets editor_tmp_path) str_of) (\<lambda>template.
    bnd (sys_or (Err ''edit_results mkstemp()'' []) (mkstemp template)) (\<lambda>(tmp_fd, path).
    bnd (modify (\<lambda>s. s\<lparr>editor_tmp_path := Some path\<rparr>)) (\<lambda>_.
    bnd (bnd (gets results) (\<lambda>rs. lift (all_items rs))) (\<lambda>items.
    bnd (dump_loop tmp_fd items) (\<lambda>_.
    bnd (sys_or (Err ''edit_results close(tmp_fd)'' []) (close_fd tmp_fd)) (\<lambda>_.
    bnd (spawn_editor L path) (\<lambda>_.
    bnd (has_changed L path) (\<lambda>b.
    if b then gpg_encrypt L path
    else print (Warning ''No changes, exiting...'' [])))))))))"

section \<open>Invariants\<close>

context frame_free
begin

lemma editor_init_inv [act_inv_intros]: "act_inv (framed f) (editor_init L d)"
  unfolding editor_init_def by (intro act_inv_intros act_inv_modify) (auto intro: frame_any)

end

context frame_checks
begin

lemma spawn_editor_inv [act_inv_intros]:
  "(\<And>l t c b. tame (\<lambda>w. f w l t c b) L) \<Longrightarrow> act_inv (framed f) (spawn_editor L path)"
  unfolding spawn_editor_def by (intro act_inv_intros)

lemma has_changed_inv [act_inv_intros]: "act_inv (framed f) (has_changed L path)"
  unfolding has_changed_def by (intro act_inv_intros keeps_intros)

end

context os_invariant
begin

lemma dump_loop_inv [act_inv_intros]: "act_inv (on_os R) (dump_loop fd rs)"
  by (induction rs) (auto intro!: act_inv_intros keeps_intros)

lemma edit_results_inv [act_inv_intros]: "tame R L \<Longrightarrow> act_inv (on_os R) (edit_results L)"
  unfolding edit_results_def by (intro act_inv_intros act_inv_modify keeps_intros) simp_all

end

end
