(* ===== verification/Mdp.thy ===== *)
theory Mdp
  imports Cmd ConfigFiles Editor
begin

text \<open>
  The program, \<open>main.c\<close>: reading the configuration, the five commands and their dispatch, and
  the end of a run, when the exit handler is called unless the run ended in undefined behaviour
  or does not end.
\<close>

section \<open>Reading the configuration\<close>

definition do_config_read :: "('r, 'p) lib \<Rightarrow> string \<Rightarrow> ('r mdp, unit) act" where
  "do_config_read L path =
    bnd (sys (fopen_r path)) (\<lambda>fp.
    bnd (gets conf) (\<lambda>c.
    bnd (lift (config_read (lib_ok L) (lib_cm L) path
                 (case fp of Inl e \<Rightarrow> None | Inr s \<Rightarrow> Some s) c)) (\<lambda>c.
    modify (\<lambda>s. s\<lparr>conf := c\<rparr>))))"

definition do_set_defaults :: "('r, 'p) lib \<Rightarrow> string \<Rightarrow> ('r mdp, unit) act" where
  "do_set_defaults L config_dir =
    bnd (bnd (gets (\<lambda>s. config_set_defaults (lib_ok L) (opts s) config_dir (cfg (conf s)))) lift) (\<lambda>(c, warn).
    bnd (modify (\<lambda>s. s\<lparr>conf := (conf s)\<lparr>cfg := c\<rparr>\<rparr>)) (\<lambda>_.
    bnd (if warn then print (Warning ''WARNING: neither $EDITOR or 'set editor' was defined, defaulting to /usr/bin/vi.'' [])
         else ret ()) (\<lambda>_.
    bnd (lift (join_path (lib_ok L) config_dir ''lock'')) (\<lambda>lock.
    modify (\<lambda>s. s\<lparr>lock_path := Some lock\<rparr>)))))"

definition read_config :: "('r, 'p) lib \<Rightarrow> ('r mdp, unit) act" where
  "read_config L =
    bnd (bnd (get_home L) str_of) (\<lambda>home.
    bnd (lift (join_path (lib_ok L) home ''.mdp'')) (\<lambda>config_dir.
    bnd (config_ensure_directory config_dir) (\<lambda>_.
    bnd (editor_init L config_dir) (\<lambda>_.
    bnd (gets (\<lambda>s. cmd_config_path (opts s))) (\<lambda>c.
    bnd (lift (case c of None \<Rightarrow> join_path (lib_ok L) config_dir ''config'' | Some p \<Rightarrow> Inr p)) (\<lambda>path.
    bnd (set_opts (\<lambda>o'. o'\<lparr>cmd_config_path := Some path\<rparr>)) (\<lambda>_.
    bnd (config_check_file path) (\<lambda>_.
    bnd (do_config_read L path) (\<lambda>_.
    bnd (do_set_defaults L config_dir) (\<lambda>_.
    bnd (bnd (gets password_file) str_of) (\<lambda>pw.
    bnd (bnd (lift (xdirname (lib_ok L) pw)) str_of) (\<lambda>password_dir.
    bnd (config_ensure_directory password_dir) (\<lambda>_.
    config_check_password_file pw)))))))))))))"

section \<open>The commands\<close>

text \<open>
  The handler of \<open>SIGINT\<close> is \<open>sig_cleanup\<close>. \<open>signal\<close> fails for \<open>SIGKILL\<close>, which cannot be caught, and
  its result is not looked at: a killed process ends without a handler.
\<close>

definition setup_signals_and_atexit :: "('r mdp, unit) act" where
  "setup_signals_and_atexit =
    bnd (sys_or (Err ''get_results atexit'' []) simple_call) (\<lambda>_.
    modify (\<lambda>s. s\<lparr>atexit_registered := True\<rparr>))"

text \<open>The profile of \<open>add\<close> and \<open>generate\<close>: a new one with the defaults, or the one named.\<close>

definition chosen_profile :: "('r, 'p) lib \<Rightarrow> ('r mdp, profile) act" where
  "chosen_profile L =
    bnd (gets (\<lambda>s. cmd_profile_name (opts s))) (\<lambda>nm.
    bnd (gets conf) (\<lambda>c.
    bnd (case nm of
           None \<Rightarrow>
             bnd (lift (profile_new (lib_ok L) (cfg c) ''default'' (reg c))) (\<lambda>(p, r).
             bnd (modify (\<lambda>s. s\<lparr>conf := c\<lparr>reg := r\<rparr>\<rparr>)) (\<lambda>_. ret (Some p)))
         | Some nm \<Rightarrow> lift (profile_get_from_name nm (reg c))) (\<lambda>p.
    case p of
      None \<Rightarrow> stop (Errx ''unknown profile'' [])
    | Some p \<Rightarrow> bnd (gets (\<lambda>s. store (reg (conf s)))) (\<lambda>ps. lift (rd ps p)))))"

definition add_passwords :: "('r, 'p) lib \<Rightarrow> profile \<Rightarrow> ('r mdp, unit) act" where
  "add_passwords L profile =
    bnd (gets (\<lambda>s. s)) (\<lambda>s.
    bnd (lift_opt (profile_passwords_to_results (lib_ok L) (lib_junk L) (lib_cm L) (lib_uniform L) (opts s)
           profile (cmd_add_prefix (opts s)) (results s) (rng s))) (\<lambda>(rs, g).
    modify (\<lambda>s. s\<lparr>results := rs, rng := g\<rparr>)))"

definition mdp_add :: "('r, 'p) lib \<Rightarrow> ('r mdp, unit) act" where
  "mdp_add L =
    bnd (debug ''mdp_add()'' []) (\<lambda>_.
    bnd (chosen_profile L) (\<lambda>profile.
    bnd (gpg_check L) (\<lambda>_.
    bnd lock_set (\<lambda>_.
    bnd setup_signals_and_atexit (\<lambda>_.
    bnd (load_results_gpg L) (\<lambda>_.
    bnd (add_passwords L profile) (\<lambda>_.
    edit_results L)))))))"

definition mdp_edit :: "('r, 'p) lib \<Rightarrow> ('r mdp, unit) act" where
  "mdp_edit L =
    bnd (debug ''mdp_edit()'' []) (\<lambda>_.
    bnd (gpg_check L) (\<lambda>_.
    bnd lock_set (\<lambda>_.
    bnd setup_signals_and_atexit (\<lambda>_.
    bnd (load_results_gpg L) (\<lambda>_.
    edit_results L)))))"

fun printw_lines :: "wchar list option list \<Rightarrow> ('r mdp, unit) act" where
  "printw_lines [] = ret ()"
| "printw_lines (l # ls) = bnd (print (PrintW l)) (\<lambda>_. printw_lines ls)"

definition mdp_generate :: "('r, 'p) lib \<Rightarrow> ('r mdp, unit) act" where
  "mdp_generate L =
    bnd (debug ''mdp_generate()'' []) (\<lambda>_.
    bnd (chosen_profile L) (\<lambda>profile.
    bnd (gets (\<lambda>s. s)) (\<lambda>s.
    bnd (lift_opt (profile_fprint_passwords (lib_ok L) (lib_uniform L) (opts s) profile (rng s))) (\<lambda>(ls, g).
    bnd (modify (\<lambda>s. s\<lparr>rng := g\<rparr>)) (\<lambda>_.
    printw_lines (map Some ls))))))"

definition mdp_get :: "('r, 'p) lib \<Rightarrow> ('r mdp, unit) act" where
  "mdp_get L =
    bnd (debug ''mdp_get()'' []) (\<lambda>_.
    bnd (gpg_check L) (\<lambda>_.
    bnd (load_results_gpg L) (\<lambda>n.
    if n = 0 then stop (Errx ''no passwords'' [])
    else
      bnd (filter_all L) (\<lambda>_.
      bnd (gets (\<lambda>s. cmd_raw (opts s))) (\<lambda>raw.
      if raw then bnd (bnd (gets results) (\<lambda>rs. lift (print_results rs))) printw_lines
      else pager_from L False)))))"

definition mdp_prompt :: "('r, 'p) lib \<Rightarrow> ('r mdp, unit) act" where
  "mdp_prompt L =
    bnd (debug ''mdp_prompt()'' []) (\<lambda>_.
    bnd (gpg_check L) (\<lambda>_.
    bnd (load_results_gpg L) (\<lambda>n.
    if n = 0 then stop (Errx ''no passwords'' []) else pager_from L True)))"

section \<open>main\<close>

datatype command = Edit | Generate | Add | Get | Prompt

text \<open>The chain of \<open>command_match\<close> calls of \<open>main\<close>.\<close>

definition which_command :: "string \<Rightarrow> halt + command" where
  "which_command a =
    ebind (command_match a ''edit'' 1) (\<lambda>b. if b then Inr Edit else
    ebind (command_match a ''generate'' 3) (\<lambda>b. if b then Inr Generate else
    ebind (command_match a ''add'' 1) (\<lambda>b. if b then Inr Add else
    ebind (command_match a ''get'' 3) (\<lambda>b. if b then Inr Get else
    ebind (command_match a ''prompt'' 1) (\<lambda>b. if b then Inr Prompt else
    Inl (Errx (''unknown command '%s'' @ [CHR 0x27] @ '' (try mdp -h)'') [ArgS a]))))))"

definition run_command :: "('r, 'p) lib \<Rightarrow> command \<Rightarrow> string list \<Rightarrow> ('r mdp, unit) act" where
  "run_command L c args =
    (case c of
       Edit \<Rightarrow> bnd (cmd_parse_edit L args) (\<lambda>_. mdp_edit L)
     | Generate \<Rightarrow> bnd (cmd_parse_generate L args) (\<lambda>_. mdp_generate L)
     | Add \<Rightarrow> bnd (cmd_parse_add L args) (\<lambda>_. mdp_add L)
     | Get \<Rightarrow> bnd (cmd_parse_get L args) (\<lambda>_. mdp_get L)
     | Prompt \<Rightarrow> bnd (cmd_parse_prompt L args) (\<lambda>_. mdp_prompt L))"

text \<open>\<open>main\<close> on the arguments behind the program's name.\<close>

definition mdp_main :: "('r, 'p) lib \<Rightarrow> string list \<Rightarrow> ('r mdp, int) act" where
  "mdp_main L args =
    bnd (if locale_found L then ret ()
         else bnd (gets (\<lambda>s. environ (os s) ''LC_ALL'')) (\<lambda>v.
           case v of
             None \<Rightarrow> stop (Undefined ''null pointer for %s'')
           | Some l \<Rightarrow>
               print (Warning ''WARNING: setting the locale failed, make sure %s is available on your system.''
                 [ArgS l]))) (\<lambda>_.
    bnd (cmd_parse_core L args) (\<lambda>operands.
    if operands = [] then bnd cmd_usage_core (\<lambda>_. stop (Exit exit_failure))
    else
      bnd (read_config L) (\<lambda>_.
      bnd (lift (which_command (hd operands))) (\<lambda>c.
      bnd (run_command L c (tl operands)) (\<lambda>_.
      bnd (debug ''normal shutdown'' []) (\<lambda>_.
      ret exit_success))))))"

section \<open>The end of a run\<close>

datatype outcome = Status int | Crash string | Running | Slain

definition outcome_of :: "halt + int \<Rightarrow> outcome" where
  "outcome_of r =
    (case r of
       Inr n \<Rightarrow> Status n
     | Inl (Exit n) \<Rightarrow> Status n
     | Inl (Errx m as) \<Rightarrow> Status exit_failure
     | Inl (Err m as) \<Rightarrow> Status exit_failure
     | Inl (Undefined m) \<Rightarrow> Crash m
     | Inl Forever \<Rightarrow> Running
     | Inl Killed \<Rightarrow> Slain)"

text \<open>
  The exit handler runs once, and not at all in a process that is killed. When it ends the program itself, through \<open>err\<close>, \<open>exit\<close> is called
  a second time, which C leaves undefined.
\<close>

definition finish :: "(halt + int) \<times> 'r mdp \<Rightarrow> outcome \<times> 'r mdp" where
  "finish rs =
    (case rs of (r, s) \<Rightarrow>
       case outcome_of r of
         Status n \<Rightarrow>
           (if \<not> atexit_registered s then (Status n, s)
            else case atexit_cleanup (s\<lparr>atexit_registered := False\<rparr>) of
                   (Inl h, s) \<Rightarrow> (if h = Killed then Slain else Crash ''exit called twice'', s)
                 | (Inr _, s) \<Rightarrow> (Status n, s))
       | oc \<Rightarrow> (oc, s))"

definition run_mdp :: "('r, 'p) lib \<Rightarrow> string list \<Rightarrow> 'r mdp \<Rightarrow> outcome \<times> 'r mdp" where
  "run_mdp L args s = finish (mdp_main L args s)"

text \<open>The state a process starts in.\<close>

definition initial_state :: "world \<Rightarrow> 'r \<Rightarrow> char option list \<Rightarrow> string list \<Rightarrow> 'r mdp" where
  "initial_state w g keys ls =
    \<lparr>os = w, conf = conf_initial, opts = options_initial, kws = keywords_initial, results = results_initial,
     result_crc32 = 0, wline = wline_initial, mbs_line = replicate MAX_LINE_SIZE NUL, rng = g,
     lock_path = None, editor_tmp_path = None, watcher_pid = 0, atexit_registered = False,
     debug_enabled = False, window_width = 0, window_height = 0, screen = False,
     user_keys = keys, user_lines = ls\<rparr>"

end
