(* ===== verification/Demo.thy ===== *)
theory Demo
  imports Mdp
begin

text \<open>
  Concrete surroundings for the properties that have hypotheses: a C library in a UTF-8 locale
  whose source of random numbers counts, a file system given by a list of files, and a process
  that has read its configuration. Programs that mdp starts are arguments.
\<close>

definition demo_lib ::
  "(string \<Rightarrow> world \<Rightarrow> int \<times> world) \<Rightarrow>
   (string \<Rightarrow> string list \<Rightarrow> u32 \<Rightarrow> world \<Rightarrow> (string \<times> child_end \<times> world) option) \<Rightarrow> (nat, unit) lib" where
  "demo_lib sh ex =
    \<lparr>lib_ok = always, lib_junk = (\<lambda>i. CHR ''x''), lib_kw0 = (\<lambda>i. 7), lib_cm = utf8, lib_lower = latin_lower,
     lib_rx = \<lparr>regcomp = (\<lambda>s. None), regexec = (\<lambda>r s. False)\<rparr>, lib_uniform = counter_source,
     system = sh, execlp = ex, winsize = Some (80, 24), mdp_version = ''0.7.4'', locale_found = True\<rparr>"

definition regular :: "string \<Rightarrow> inode" where
  "regular s = \<lparr>kind = Reg, mode = 0x180, owner = 1000, contents = s\<rparr>"

definition directory :: inode where
  "directory = \<lparr>kind = Dir, mode = 0x1C0, owner = 1000, contents = []\<rparr>"

fun position :: "string \<Rightarrow> (string \<times> 'a) list \<Rightarrow> nat option" where
  "position p [] = None"
| "position p ((q, x) # fs) = (if p = q then Some 0 else map_option Suc (position p fs))"

definition demo_world :: "(string \<times> inode) list \<Rightarrow> world" where
  "demo_world fs =
    \<lparr>dir = (\<lambda>p. position p fs), node = (\<lambda>i. if i < length fs then Some (snd (fs ! i)) else None),
     fresh = length fs, umask = 0x12, my_uid = 1000, my_pid = 42,
     environ = [''HOME'' \<mapsto> ''/h'', ''EDITOR'' \<mapsto> ''vi''], faults = [],
     tmp_names = [''aaaaaaaa'', ''bbbbbbbb''], out = []\<rparr>"

lemma position_less: "position p fs = Some i \<Longrightarrow> i < length fs"
  by (induction p fs arbitrary: i rule: position.induct) (auto split: if_splits)

lemma demo_world_inv: "world_inv (demo_world fs)"
  by (auto simp: world_inv_def demo_world_def dest: position_less)

lemma demo_lookup: "lookup (demo_world fs) p = map_of fs p"
proof -
  have "(case position p fs of None \<Rightarrow> None | Some i \<Rightarrow> if i < length fs then Some (snd (fs ! i)) else None) = map_of fs p"
    by (induction p fs rule: position.induct) (auto split: option.splits if_splits)
  then show ?thesis by (auto simp: lookup_def demo_world_def split: option.splits)
qed

lemma demo_world_simps [simp]:
  "faults (demo_world fs) = []" "my_pid (demo_world fs) = 42" "my_uid (demo_world fs) = 1000" "out (demo_world fs) = []"
  by (simp_all add: demo_world_def)

text \<open>A process with the configuration of \<open>key\<close> and \<open>/h/p.gpg\<close>, the lock and the edit template.\<close>

definition demo_state :: "string option \<Rightarrow> world \<Rightarrow> nat mdp" where
  "demo_state key w =
    (initial_state w 0 [] [])\<lparr>
      conf := conf_initial\<lparr>cfg := config_initial\<lparr>cfg_gpg_path := Some ''gpg'', cfg_gpg_key_id := key,
        cfg_password_file := Some ''/h/p.gpg'', cfg_editor := Some ''vi''\<rparr>\<rparr>,
      lock_path := Some ''/h/lock'', editor_tmp_path := Some ''/h/tmp''\<rparr>"

lemma demo_state_simps [simp]:
  "os (demo_state key w) = w"
  "lock_path (demo_state key w) = Some ''/h/lock''"
  "editor_tmp_path (demo_state key w) = Some ''/h/tmp''"
  "gpg_path (demo_state key w) = Some ''gpg''"
  "password_file (demo_state key w) = Some ''/h/p.gpg''"
  "cfg_gpg_key_id (cfg (conf (demo_state key w))) = key"
  "cfg_backup (cfg (conf (demo_state key w))) = True"
  "debug_enabled (demo_state key w) = False"
  "screen (demo_state key w) = False"
  by (simp_all add: demo_state_def initial_state_def conf_initial_def config_initial_def gpg_path_def password_file_def)

end
