(* ===== verification/Safety.thy ===== *)
theory Safety
  imports Wp Demo
begin

text \<open>
  What the file operations guarantee whatever system call fails, and wherever they are killed: GnuPG's output and the backup
  are never lost by \<open>gpg_encrypt\<close>, and a successful \<open>cleanup\<close> leaves neither the lock nor the
  plain text behind.
\<close>

section \<open>gpg_encrypt\<close>

text \<open>The text \<open>c\<close> is under the name \<open>p\<close> or under the name \<open>q\<close>.\<close>

definition kept :: "string \<Rightarrow> string \<Rightarrow> string \<Rightarrow> world \<Rightarrow> bool" where
  "kept p q c w \<longleftrightarrow> file_text w p = Some c \<or> file_text w q = Some c"

text \<open>What holds when \<open>move_aside\<close> ends: with a backup the old text is still reachable.\<close>

definition aside :: "string \<Rightarrow> string \<Rightarrow> string \<Rightarrow> bool \<Rightarrow> string \<Rightarrow> world \<Rightarrow> bool" where
  "aside enc new pw backup old w \<longleftrightarrow>
     file_text w enc = Some new \<and> (backup \<longrightarrow> kept pw (pw @ ''.bak'') old w)"

text \<open>The last step of \<open>move_aside\<close>.\<close>

lemma unlink_old_wp:
  assumes "aside enc new pw backup old (os s)" "enc \<noteq> pw"
    and "backup \<Longrightarrow> file_text (os s) (pw @ ''.bak'') = Some old"
  shows "wp (sys_or h (unlink pw)) (\<lambda>r s'. \<exists>w. s' = s\<lparr>os := w\<rparr> \<and> aside enc new pw backup old w) s"
proof (rule wp_sys_or)
  fix e w assume "unlink pw (os s) = (Inl e, w)"
  from unlink_failed [OF this] show "\<exists>w'. s\<lparr>os := w\<rparr> = s\<lparr>os := w'\<rparr> \<and> aside enc new pw backup old w'"
    using assms by (intro exI [of _ w]) (simp add: aside_def kept_def)
next
  fix x w assume "unlink pw (os s) = (Inr x, w)"
  from unlink_done [OF this] show "\<exists>w'. s\<lparr>os := w\<rparr> = s\<lparr>os := w'\<rparr> \<and> aside enc new pw backup old w'"
    using assms by (intro exI [of _ w]) (simp add: aside_def kept_def)
qed

lemma move_aside_wp:
  assumes a: "aside enc new pw backup old (os s)" "file_text (os s) pw = Some old"
    and ne: "enc \<noteq> pw" "enc \<noteq> pw @ ''.bak''"
  shows "wp (move_aside pw backup) (\<lambda>r s'. \<exists>w. s' = s\<lparr>os := w\<rparr> \<and> aside enc new pw backup old w) s"
    (is "wp _ ?Q s")
proof -
  let ?bak = "pw @ ''.bak''"
  have Q: "?Q r (s\<lparr>os := w\<rparr>)" if "aside enc new pw backup old w" for r w
    using that by blast
  have unlink_pw: "wp (sys_or h (unlink pw)) ?Q (s\<lparr>os := w\<rparr>)"
    if "aside enc new pw backup old w" "backup \<Longrightarrow> file_text w ?bak = Some old" for h w
    by (rule wp_conseq [OF unlink_old_wp]) (use that ne in auto)
  have old_text: "aside enc new pw backup old w" if "file_text w enc = Some new" "file_text w pw = Some old" for w
    using that by (simp add: aside_def kept_def)
  show ?thesis
  proof (cases backup)
    case False
    then show ?thesis unfolding move_aside_def using unlink_pw [of "os s"] a(1)
      by (auto intro!: wp_bnd wp_ret)
  next
    case True
    have aside_old: "file_text w' enc = Some new \<and> file_text w' pw = Some old"
      if "lookup w = lookup (os s)" "unlink ?bak (os (s\<lparr>os := w\<rparr>)) = (r, w')" for r w w'
      using unlink_other [of ?bak w r w'] that ne text_lookup [OF that(1)] a by (auto simp: aside_def)
    have link_bak: "wp (bnd (sys_or h (link pw ?bak)) (\<lambda>_. sys_or h' (unlink pw))) ?Q (s\<lparr>os := w\<rparr>)"
      if w: "file_text w enc = Some new" "file_text w pw = Some old" for h h' w
    proof (rule wp_sys_or_then)
      fix e w' assume "link pw ?bak (os (s\<lparr>os := w\<rparr>)) = (Inl e, w')"
      then show "?Q (Inl h) (s\<lparr>os := w\<rparr>\<lparr>os := w'\<rparr>)"
        using w by (auto dest!: link_failed intro!: Q old_text)
    next
      fix x w' assume "link pw ?bak (os (s\<lparr>os := w\<rparr>)) = (Inr x, w')"
      then have "file_text w' = (file_text w)(?bak := Some old)" using w by (auto dest: link_done)
      then show "wp (sys_or h' (unlink pw)) ?Q (s\<lparr>os := w\<rparr>\<lparr>os := w'\<rparr>)"
        using unlink_pw [of w'] old_text [of w'] w ne by simp
    qed
    show ?thesis unfolding move_aside_def if_P [OF True] bnd_assoc
    proof (intro wp_debug_then wp_sys_then)
      fix h w assume "lookup w = lookup (os s)"
      then have "file_text w = file_text (os s)" by (rule text_lookup)
      then show "?Q (Inl h) (s\<lparr>os := w\<rparr>)" using Q [OF old_text] a by (simp add: aside_def)
    next
      fix w r w' assume w: "lookup w = lookup (os s)" and u: "unlink ?bak (os (s\<lparr>os := w\<rparr>)) = (r, w')"
      have t: "file_text w' enc = Some new" "file_text w' pw = Some old" using aside_old [OF w u] by auto
      show "wp (bnd (case r of Inl e \<Rightarrow> if e \<noteq> ENOENT then stop (Err ''gpg_encrypt backup unlink'' []) else ret ()
              | Inr _ \<Rightarrow> ret ())
            (\<lambda>_. bnd (sys_or (Err ''gpg_encrypt backup link'' []) (link pw ?bak))
              (\<lambda>_. sys_or (Err ''gpg_encrypt unlink(cfg_password_file)'' []) (unlink pw)))) ?Q (s\<lparr>os := w\<rparr>\<lparr>os := w'\<rparr>)"
        using link_bak [OF t] Q [OF old_text [OF t]]
        by (cases r) (auto intro!: wp_bnd wp_if wp_stop wp_ret)
    next
      fix w w' assume "lookup w = lookup (os s)" "unlink ?bak (os (s\<lparr>os := w\<rparr>)) = (Inl KILL, w')"
      from aside_old [OF this] have "?Q (Inl Killed) (s\<lparr>os := w'\<rparr>)" by (intro Q old_text) auto
      then show "?Q (Inl Killed) (s\<lparr>os := w\<rparr>\<lparr>os := w'\<rparr>)" by simp
    qed
  qed
qed

text \<open>What follows the backup: the new file gets the password file's name.\<close>

definition installed :: "string \<Rightarrow> string \<Rightarrow> string \<Rightarrow> world \<Rightarrow> bool" where
  "installed enc pw new w \<longleftrightarrow> file_text w pw = Some new \<and> (\<exists>n. lookup w pw = Some n \<and> mode n = 0x180)
     \<and> file_text w enc = None"

text \<open>The state in which every later step leaves the file system, with the result of the step.\<close>

definition swapped :: "string \<Rightarrow> string \<Rightarrow> string \<Rightarrow> bool \<Rightarrow> string \<Rightarrow> halt + unit \<Rightarrow> world \<Rightarrow> bool" where
  "swapped enc new pw backup old r w \<longleftrightarrow> kept enc pw new w \<and>
     (backup \<longrightarrow> kept pw (pw @ ''.bak'') old w) \<and>
     (r = Inr () \<longrightarrow> installed enc pw new w \<and> (backup \<longrightarrow> file_text w (pw @ ''.bak'') = Some old))"

lemma aside_swapped: "aside enc new pw backup old w \<Longrightarrow> swapped enc new pw backup old (Inl h) w"
  by (simp add: aside_def swapped_def kept_def)

lemma put_in_place_wp:
  assumes a: "aside enc new pw backup old (os s)" and ne: "enc \<noteq> pw" "enc \<noteq> pw @ ''.bak''"
  shows "wp (put_in_place enc pw) (\<lambda>r s'. \<exists>w. s' = s\<lparr>os := w\<rparr> \<and> swapped enc new pw backup old r w) s"
    (is "wp _ ?Q s")
  unfolding put_in_place_def
proof (intro wp_sys_or_then wp_sys_or)
  let ?bak = "pw @ ''.bak''"
  let ?h = "\<lambda>h w. ?Q (Inl h) (s\<lparr>os := w\<rparr>)"
  show "?h h w" if "link enc pw (os s) = (Inl e, w)" for h e w
    using link_failed [OF that] aside_swapped [OF a] by (auto simp: swapped_def kept_def)
  fix x w1 assume "link enc pw (os s) = (Inr x, w1)"
  from link_done [OF this] have t1: "file_text w1 = (file_text (os s))(pw := Some new)" "file_text (os s) pw = None"
    using a by (auto simp: aside_def)
  have l: "file_text w1 pw = Some new" "file_text w1 enc = Some new" "backup \<longrightarrow> file_text w1 ?bak = Some old"
    using t1 a ne by (auto simp: aside_def kept_def)
  show "?Q (Inl h) (s\<lparr>os := w1\<rparr>\<lparr>os := w\<rparr>)" if "chmod pw 0x180 (os (s\<lparr>os := w1\<rparr>)) = (Inl e, w)" for h e w
    using chmod_text [of _ _ w1, OF that [simplified]] l by (auto simp: swapped_def kept_def)
  fix y w2 assume c: "chmod pw 0x180 (os (s\<lparr>os := w1\<rparr>)) = (Inr y, w2)"
  have t2: "file_text w2 = file_text w1" "\<exists>n. lookup w2 pw = Some n \<and> mode n = 0x180"
    using chmod_effect [of pw _ w1, OF c [simplified]] by auto
  show "?Q (Inl h) (s\<lparr>os := w1\<rparr>\<lparr>os := w2\<rparr>\<lparr>os := w\<rparr>)"
    if "unlink enc (os (s\<lparr>os := w1\<rparr>\<lparr>os := w2\<rparr>)) = (Inl e, w)" for h e w
    using unlink_failed [of _ w2, OF that [simplified]] t2(1) l by (auto simp: swapped_def kept_def)
  show "?Q (Inr z) (s\<lparr>os := w1\<rparr>\<lparr>os := w2\<rparr>\<lparr>os := w\<rparr>)"
    if "unlink enc (os (s\<lparr>os := w1\<rparr>\<lparr>os := w2\<rparr>)) = (Inr z, w)" for z w
    using unlink_effect [of enc w2, OF that [simplified]] unlink_done [of _ w2, OF that [simplified]] t2 l ne
    by (auto simp: swapped_def kept_def installed_def)
qed

lemma swap_in_wp:
  assumes t: "file_text (os s) enc = Some new" "file_text (os s) pw = Some old"
    and ne: "enc \<noteq> pw" "enc \<noteq> pw @ ''.bak''"
  shows "wp (swap_in ok enc pw)
    (\<lambda>r s'. \<exists>w. s' = s\<lparr>os := w\<rparr> \<and> swapped enc new pw (cfg_backup (cfg (conf s))) old r w) s"
    (is "wp _ ?Q s")
  unfolding swap_in_def
proof (rule wp_file_exists_then)
  let ?B = "cfg_backup (cfg (conf s))"
  have a: "aside enc new pw ?B old w" if "lookup w = lookup (os s)" for w
    using text_lookup [OF that] t by (simp add: aside_def kept_def)
  show "?Q (Inl h) (s\<lparr>os := w\<rparr>)" if "lookup w = lookup (os s)" for h w
    using aside_swapped [OF a [OF that]] by auto
  fix b w assume w: "lookup w = lookup (os s)"
  let ?R = "\<lambda>r s'. \<exists>w. s' = s\<lparr>os := w\<rparr> \<and> aside enc new pw ?B old w"
  have m: "wp (move_aside pw ?B) ?R (s\<lparr>os := w\<rparr>)"
    by (rule wp_conseq [OF move_aside_wp]) (use a [OF w] text_lookup [OF w] t ne in auto)
  have "wp (if b then bnd (gets (\<lambda>s. cfg_backup (cfg (conf s)))) (\<lambda>backup. move_aside pw backup) else ret ()) ?R (s\<lparr>os := w\<rparr>)"
    using m a [OF w] by (auto intro!: wp_if wp_gets_then wp_ret)
  then show "wp (bnd (if b then bnd (gets (\<lambda>s. cfg_backup (cfg (conf s)))) (\<lambda>backup. move_aside pw backup) else ret ())
      (\<lambda>_. bnd (lift (formatted ok enc)) (\<lambda>p. put_in_place p pw))) ?Q (s\<lparr>os := w\<rparr>)"
  proof (rule wp_seq)
    show "?Q (Inl h) s'" if "?R (Inl h) s'" for h s'
      using that aside_swapped by blast
    fix x s' assume "?R (Inr x) s'"
    then obtain w' where w': "s' = s\<lparr>os := w'\<rparr>" "aside enc new pw ?B old w'" by blast
    then have "aside enc new pw ?B old (os s')" by simp
    from wp_conseq [OF put_in_place_wp [OF this ne]] have "wp (put_in_place enc pw) ?Q s'"
      using w'(1) by auto
    then show "wp (bnd (lift (formatted ok enc)) (\<lambda>p. put_in_place p pw)) ?Q s'"
      using aside_swapped w' by (auto intro!: wp_formatted_then)
  qed
qed

text \<open>
  What \<open>gpg -e\<close> does when it succeeds on the file system \<open>w0\<close>: it writes its output beside the
  file and leaves the password file alone.
\<close>

definition encrypts :: "('r, 'p) lib \<Rightarrow> string \<Rightarrow> string \<Rightarrow> string \<Rightarrow> string \<Rightarrow> world \<Rightarrow> bool" where
  "encrypts L cmd enc new pw w0 \<longleftrightarrow>
     (\<forall>w. lookup w = lookup w0 \<longrightarrow>
        (\<exists>w'. system L cmd w = (0, w') \<and> file_text w' enc = Some new \<and> file_text w' pw = file_text w pw))"

text \<open>The ways to stop before GnuPG is started, which change no file.\<close>

definition not_started :: "('r, 'p) lib \<Rightarrow> 'r mdp \<Rightarrow> halt + unit \<Rightarrow> world \<Rightarrow> bool" where
  "not_started L s r w \<longleftrightarrow>
     (debug_enabled s \<or> (\<exists>n. \<not> lib_ok L n)) \<and> r \<noteq> Inr () \<and> file_text w = file_text (os s)"

lemma gpg_encrypt_wp:
  assumes s: "gpg_path s = Some path" "cfg_gpg_key_id (cfg (conf s)) = Some key" "password_file s = Some pw"
    and e: "encrypts L (path @ '' -r '' @ key @ '' -e '' @ tmp) (tmp @ ''.gpg'') new pw (os s)"
    and ne: "tmp @ ''.gpg'' \<noteq> pw" "tmp @ ''.gpg'' \<noteq> pw @ ''.bak''"
    and old: "file_text (os s) pw = Some old"
  shows "wp (gpg_encrypt L tmp) (\<lambda>r s'. \<exists>w. s' = s\<lparr>os := w\<rparr> \<and>
      (swapped (tmp @ ''.gpg'') new pw (cfg_backup (cfg (conf s))) old r w \<or> not_started L s r w)) s" (is "wp _ ?Q s")
  unfolding gpg_encrypt_def
proof (rule wp_str_then [where f = gpg_path, OF s(1)],
    rule wp_str_then [where f = "\<lambda>s. cfg_gpg_key_id (cfg (conf s))", OF s(2)], rule wp_formatted_then)
  let ?cmd = "path @ '' -r '' @ key @ '' -e '' @ tmp"
  show "?Q (Inl h) s" if "\<not> lib_ok L n" for n h
    using that by (intro exI [of _ "os s"]) (auto simp: not_started_def)
  show "wp (bnd (debug ''gpg_encrypt system(%s)'' [ArgS ?cmd]) (\<lambda>_.
    bnd (run L ?cmd) (\<lambda>r.
    if r \<noteq> 0 then stop (Errx ''gpg_encrypt system(%s) != 0'' [ArgS ?cmd])
    else
      bnd (bnd (gets password_file) str_of) (\<lambda>pw.
      bnd (lift (formatted (lib_ok L) (pw @ ''.bak''))) (\<lambda>_.
      swap_in (lib_ok L) (tmp @ ''.gpg'') pw))))) ?Q s"
  proof (rule wp_debug_then)
    show "?Q (Inl h) (s\<lparr>os := w\<rparr>)" if "debug_enabled s" "lookup w = lookup (os s)" for h w
      using that by (auto simp: not_started_def intro: text_lookup)
    fix w assume w: "lookup w = lookup (os s)"
    obtain w' where r: "system L ?cmd w = (0, w')" "file_text w' (tmp @ ''.gpg'') = Some new" "file_text w' pw = file_text w pw"
      using e w unfolding encrypts_def by blast
    have "wp (swap_in (lib_ok L) (tmp @ ''.gpg'') pw) ?Q (s\<lparr>os := w'\<rparr>)"
      by (rule wp_conseq [OF swap_in_wp]) (use r old text_lookup [OF w] ne in auto)
    moreover have "?Q (Inl h) (s\<lparr>os := w'\<rparr>)" for h
      using r(2,3) old text_lookup [OF w] by (auto simp: swapped_def kept_def)
    moreover have "password_file (s\<lparr>os := w'\<rparr>) = Some pw" using s(3) by (simp add: password_file_def)
    ultimately show "wp (bnd (run L ?cmd) (\<lambda>r.
      if r \<noteq> 0 then stop (Errx ''gpg_encrypt system(%s) != 0'' [ArgS ?cmd])
      else
        bnd (bnd (gets password_file) str_of) (\<lambda>pw.
        bnd (lift (formatted (lib_ok L) (pw @ ''.bak''))) (\<lambda>_.
        swap_in (lib_ok L) (tmp @ ''.gpg'') pw)))) ?Q (s\<lparr>os := w\<rparr>)"
      using r(1) by (intro wp_run_then [where r = 0 and w = w']) (auto intro!: wp_str_then [where x = pw] wp_formatted_then)
  qed
qed

text \<open>C5. Whatever system call fails, and at whichever it is killed, \<open>gpg_encrypt\<close> never loses the new ciphertext: it is under the
  temporary name or under the password file's. With \<open>backup\<close> on, the old password file is never
  lost either: it keeps its name or is the backup. When the function returns, the new file is in
  place with mode 0600, the temporary name is gone and the backup holds the old text. If memory is
  refused, or the debugging output fails, it may stop before GnuPG made a ciphertext: then all
  files are as they were.\<close>

theorem gpg_encrypt_loses_nothing:
  assumes "gpg_path s = Some path" "cfg_gpg_key_id (cfg (conf s)) = Some key" "password_file s = Some pw"
    and "encrypts L (path @ '' -r '' @ key @ '' -e '' @ tmp) (tmp @ ''.gpg'') new pw (os s)"
    and "tmp @ ''.gpg'' \<noteq> pw" "tmp @ ''.gpg'' \<noteq> pw @ ''.bak''"
    and "file_text (os s) pw = Some old"
    and "gpg_encrypt L tmp s = (r, s')"
  shows "(kept (tmp @ ''.gpg'') pw new (os s') \<and>
     (cfg_backup (cfg (conf s)) \<longrightarrow> kept pw (pw @ ''.bak'') old (os s')) \<and>
     (r = Inr () \<longrightarrow> installed (tmp @ ''.gpg'') pw new (os s') \<and>
       (cfg_backup (cfg (conf s)) \<longrightarrow> file_text (os s') (pw @ ''.bak'') = Some old)))
     \<or> ((debug_enabled s \<or> (\<exists>n. \<not> lib_ok L n)) \<and> r \<noteq> Inr () \<and> file_text (os s') = file_text (os s))"
  using wpD [OF gpg_encrypt_wp [OF assms(1-7)] assms(8)] by (auto simp: swapped_def not_started_def)

text \<open>A GnuPG that writes its output, beside the password file, whatever the command is.\<close>

definition demo_gpg :: "string \<Rightarrow> world \<Rightarrow> int \<times> world" where
  "demo_gpg cmd w = (0, create ''/h/tmp.gpg'' (regular ''NEW'')
     (if dir w ''/h/p.gpg'' = Some (fresh w) then w\<lparr>fresh := Suc (fresh w)\<rparr> else w))"

lemma demo_gpg_writes:
  "file_text (snd (demo_gpg cmd w)) ''/h/tmp.gpg'' = Some ''NEW''"
  "file_text (snd (demo_gpg cmd w)) ''/h/p.gpg'' = file_text w ''/h/p.gpg''"
  by (auto simp: demo_gpg_def create_def file_text_def lookup_def regular_def split: option.split)

lemma demo_gpg_encrypts: "encrypts (demo_lib demo_gpg ex) cmd ''/h/tmp.gpg'' ''NEW'' ''/h/p.gpg'' w0"
  using demo_gpg_writes by (auto simp: encrypts_def demo_lib_def demo_gpg_def)

theorem gpg_encrypt_loses_nothing_witness:
  "\<exists>r s'. gpg_encrypt (demo_lib demo_gpg (\<lambda>f args t w. None)) ''/h/tmp''
      (demo_state (Some ''K'') ((demo_world [(''/h/p.gpg'', regular ''OLD'')])\<lparr>faults := [None, None, None, None, Some EXDEV]\<rparr>)) = (r, s')
    \<and> kept ''/h/tmp.gpg'' ''/h/p.gpg'' ''NEW'' (os s') \<and> kept ''/h/p.gpg'' ''/h/p.gpg.bak'' ''OLD'' (os s')"
proof -
  let ?s = "demo_state (Some ''K'') ((demo_world [(''/h/p.gpg'', regular ''OLD'')])\<lparr>faults := [None, None, None, None, Some EXDEV]\<rparr>)"
  let ?L = "demo_lib demo_gpg (\<lambda>f args t w. None)"
  obtain r s' where g: "gpg_encrypt ?L ''/h/tmp'' ?s = (r, s')" by fastforce
  have old: "file_text (os ?s) ''/h/p.gpg'' = Some ''OLD''"
    by (simp add: file_text_def lookup_def demo_world_def regular_def)
  have p: "\<not> debug_enabled ?s" "\<forall>n. lib_ok ?L n" "cfg_backup (cfg (conf ?s))"
    by (simp_all add: demo_state_def initial_state_def demo_lib_def config_initial_def)
  show ?thesis
    using gpg_encrypt_loses_nothing [where s = ?s and L = ?L and tmp = "''/h/tmp''" and new = "''NEW''"
        and path = "''gpg''" and key = "''K''", OF _ _ _ _ _ _ old g] demo_gpg_encrypts p g
    by simp
qed

section \<open>cleanup\<close>

lemma stat_enoent:
  assumes "stat p w = (Inl ENOENT, w')" "honest w"
  shows "lookup w p = None"
  using assms(1) unfolding stat_def
proof (cases rule: syscall_cases)
  case (fault e)
  then show ?thesis using assms
    by (auto simp: stat_def syscall_def next_fault_def honest_def split: list.splits option.splits)
next
  case (call w0)
  then show ?thesis by (auto split: option.splits)
qed

lemma file_exists_wp:
  assumes "honest (os s)"
    and "\<And>h w. lookup w = lookup (os s) \<Longrightarrow> Q (Inl h) (s\<lparr>os := w\<rparr>)"
    and "\<And>b w. lookup w = lookup (os s) \<Longrightarrow> b = (lookup w p \<noteq> None) \<Longrightarrow> Q (Inr b) (s\<lparr>os := w\<rparr>)"
  shows "wp (file_exists p) Q s"
  unfolding file_exists_def
proof (intro wp_sys_then)
  fix r w assume st: "stat p (os s) = (r, w)"
  note e = stat_effect [OF st]
  show "wp (case r of Inl e \<Rightarrow> if e = ENOENT then ret False else stop (Err ''file_exists stat()'' [])
      | Inr sb \<Rightarrow> ret True) Q (s\<lparr>os := w\<rparr>)"
  proof (cases r)
    case (Inl x)
    have "x = ENOENT \<Longrightarrow> lookup w p = None" using stat_enoent [of p "os s" w] st Inl assms(1) e by simp
    then show ?thesis using Inl e assms(2) assms(3) [of w False] by (auto intro!: wp_ret wp_stop)
  next
    case (Inr sb)
    then show ?thesis using e assms(3) [of w True] by (auto intro!: wp_ret)
  qed
qed (use stat_effect assms(2) in blast)

lemma lock_unset_wp:
  assumes "honest (os s)" "lock_path s = Some l"
  shows "wp lock_unset (\<lambda>r s'. \<exists>w. s' = s\<lparr>os := w\<rparr> \<and> (\<forall>p. p \<noteq> l \<longrightarrow> lookup w p = lookup (os s) p)
      \<and> (r = Inr () \<longrightarrow> lookup w l = None)) s" (is "wp _ ?Q s")
proof -
  have failed: "?Q (Inl h) (s\<lparr>os := w'\<rparr>)"
    if "lookup w = lookup (os s)" "unlink l w = (Inl e, w')" for h e w w'
    using unlink_effect [OF that(2)] that(1) by auto
  have removed: "?Q (Inr ()) (s\<lparr>os := w'\<rparr>)"
    if "lookup w = lookup (os s)" "unlink l w = (Inr x, w')" for x w w'
    using unlink_effect [OF that(2)] that(1) by auto
  have "wp lock_exists (\<lambda>r s'. case r of Inl h \<Rightarrow> ?Q (Inl h) s' | Inr b \<Rightarrow>
      wp (if b then bnd (gets lock_path) (\<lambda>p. bnd (str_of p) (\<lambda>p. sys_or (Err ''lock_unset:unlink()'' []) (unlink p)))
          else ret ()) ?Q s') s"
    unfolding lock_exists_def
  proof (rule wp_gets_then, simp only: assms(2) option.case, rule file_exists_wp [OF assms(1)])
    fix b w assume w: "lookup w = lookup (os s)" "b = (lookup w l \<noteq> None)"
    have "wp (sys_or (Err ''lock_unset:unlink()'' []) (unlink l)) ?Q (s\<lparr>os := w\<rparr>)"
    proof (rule wp_sys_or)
      show "?Q (Inl h) (s\<lparr>os := w\<rparr>\<lparr>os := w'\<rparr>)" if "unlink l (os (s\<lparr>os := w\<rparr>)) = (Inl e, w')" for h e w'
        using failed [OF w(1)] that by simp
      show "?Q (Inr x) (s\<lparr>os := w\<rparr>\<lparr>os := w'\<rparr>)" if "unlink l (os (s\<lparr>os := w\<rparr>)) = (Inr x, w')" for x w'
        using removed [OF w(1)] that by simp
    qed
    then show "case Inr b of Inl h \<Rightarrow> ?Q (Inl h) (s\<lparr>os := w\<rparr>) | Inr b \<Rightarrow>
      wp (if b then bnd (gets lock_path) (\<lambda>p. bnd (str_of p) (\<lambda>p. sys_or (Err ''lock_unset:unlink()'' []) (unlink p)))
          else ret ()) ?Q (s\<lparr>os := w\<rparr>)"
      using w assms(2) by (auto intro!: wp_ret wp_gets_then wp_str_of_then)
  qed auto
  then show ?thesis unfolding lock_unset_def by (rule wp_bnd)
qed

lemma shutdown_curses_wp:
  assumes "\<And>w. lookup w = lookup (os s) \<Longrightarrow> Q (Inr ()) (s\<lparr>os := w\<rparr>)"
  shows "wp shutdown_curses Q s"
  unfolding shutdown_curses_def
proof (intro wp_gets_then wp_if)
  show "wp (ret ()) Q s" using assms [of "os s"] by (intro wp_ret) simp
  show "wp (bnd (curses ''clear'' []) (\<lambda>_. bnd (curses ''refresh'' []) (\<lambda>_. curses ''endwin'' []))) Q s"
    unfolding curses_def print_def by (intro wp_modify_then wp_modify) (simp add: assms)
qed

text \<open>When \<open>cleanup\<close> returns, the lock is released and the plain text is removed from the disk.\<close>

lemma cleanup_removes:
  assumes "cleanup s = (Inr (), s')" "lock_path s = Some l" "honest (os s)"
  shows "lookup (os s') l = None \<and> (\<forall>t. editor_tmp_path s = Some t \<longrightarrow> lookup (os s') t = None)"
proof -
  let ?Q = "\<lambda>r s'. r = Inr () \<longrightarrow> lookup (os s') l = None \<and>
    (\<forall>t. editor_tmp_path s = Some t \<longrightarrow> lookup (os s') t = None)"
  have "wp cleanup ?Q s"
    unfolding cleanup_def
  proof (rule wp_seq [OF lock_unset_wp [OF assms(3,2)]])
    fix x s1 assume "\<exists>w. s1 = s\<lparr>os := w\<rparr> \<and> (\<forall>p. p \<noteq> l \<longrightarrow> lookup w p = lookup (os s) p)
      \<and> (Inr x = Inr () \<longrightarrow> lookup w l = None)"
    then obtain w where s1: "s1 = s\<lparr>os := w\<rparr>" "lookup w l = None" by auto
    show "wp (bnd (gets editor_tmp_path) (\<lambda>p. bnd (case p of None \<Rightarrow> ret ()
           | Some p \<Rightarrow> sys_or (Err (''unable to remove '%s'' @ [CHR 0x27]) [ArgS p]) (unlink p)) (\<lambda>_. shutdown_curses))) ?Q s1"
    proof (rule wp_gets_then, cases "editor_tmp_path s1")
      case None
      then show "wp (bnd (case editor_tmp_path s1 of None \<Rightarrow> ret ()
           | Some p \<Rightarrow> sys_or (Err (''unable to remove '%s'' @ [CHR 0x27]) [ArgS p]) (unlink p)) (\<lambda>_. shutdown_curses)) ?Q s1"
        using s1 by (auto intro!: wp_bnd wp_ret shutdown_curses_wp)
    next
      case (Some t)
      have u: "lookup w' l = None \<and> lookup w' t = None" if "unlink t w = (Inr (), w')" for w'
        using unlink_effect [OF that] s1(2) by auto
      show "wp (bnd (case editor_tmp_path s1 of None \<Rightarrow> ret ()
           | Some p \<Rightarrow> sys_or (Err (''unable to remove '%s'' @ [CHR 0x27]) [ArgS p]) (unlink p)) (\<lambda>_. shutdown_curses)) ?Q s1"
        unfolding Some option.case using s1(1) Some u
        by (auto intro!: wp_sys_or_then shutdown_curses_wp)
    qed
  qed simp
  from wpD [OF this assms(1)] show ?thesis by simp
qed

text \<open>The exit handler does not expect an edit that has not started: from \<open>editor_init\<close> on until
  \<open>edit_results\<close> has made its temporary file, \<open>editor_tmp_path\<close> is the template, and \<open>cleanup\<close>
  ends with an error when no file has that name.\<close>

theorem cleanup_before_edit_fails:
  assumes "editor_init L d s = (Inr (), s1)" "lock_path s1 = Some l" "honest (os s1)"
    and "lookup (os s1) (in_dir d ''tmp_edit.XXXXXXXX'') = None" "l \<noteq> in_dir d ''tmp_edit.XXXXXXXX''"
  shows "\<exists>h s2. cleanup s1 = (Inl h, s2)"
proof -
  let ?t = "in_dir d ''tmp_edit.XXXXXXXX''"
  have t: "editor_tmp_path s1 = Some ?t"
    using assms(1) by (auto simp: editor_init_def ebind_simps dest: join_path_Inr split: option.splits sum.splits)
  have "wp cleanup (\<lambda>r s'. \<exists>h. r = Inl h) s1"
    unfolding cleanup_def
  proof (rule wp_seq [OF lock_unset_wp [OF assms(3,2)]])
    fix x s' assume "\<exists>w. s' = s1\<lparr>os := w\<rparr> \<and> (\<forall>p. p \<noteq> l \<longrightarrow> lookup w p = lookup (os s1) p)
      \<and> (Inr x = Inr () \<longrightarrow> lookup w l = None)"
    then obtain w where s': "s' = s1\<lparr>os := w\<rparr>" "lookup w ?t = None" using assms(4,5) by auto
    have "r \<noteq> Inr ()" if "unlink ?t w = (r, w')" for r w'
      using that s'(2) by (auto simp: unlink_def syscall_def next_fault_def lookup_def split: list.splits option.splits if_splits)
    then show "wp (bnd (gets editor_tmp_path) (\<lambda>p. bnd (case p of None \<Rightarrow> ret ()
           | Some p \<Rightarrow> sys_or (Err (''unable to remove '%s'' @ [CHR 0x27]) [ArgS p]) (unlink p)) (\<lambda>_. shutdown_curses)))
        (\<lambda>r s'. \<exists>h. r = Inl h) s'"
      using s' t by (auto intro!: wp_gets_then wp_sys_or_then)
  qed simp
  then show ?thesis by (auto simp: wp_def split: prod.splits)
qed

theorem cleanup_before_edit_fails_witness:
  "\<exists>h s2. cleanup (snd (editor_init (demo_lib (\<lambda>c w. (0, w)) (\<lambda>f args t w. None)) ''/h/.mdp''
      (demo_state None (demo_world [(''/h/lock'', regular ''42'')])))) = (Inl h, s2)"
proof -
  let ?L = "demo_lib (\<lambda>c w. (0, w)) (\<lambda>f args t w. None)"
  let ?s = "demo_state None (demo_world [(''/h/lock'', regular ''42'')])"
  have e: "editor_init ?L ''/h/.mdp'' ?s = (Inr (), snd (editor_init ?L ''/h/.mdp'' ?s))"
    and o: "os (snd (editor_init ?L ''/h/.mdp'' ?s)) = demo_world [(''/h/lock'', regular ''42'')]"
    and l: "lock_path (snd (editor_init ?L ''/h/.mdp'' ?s)) = Some ''/h/lock''"
    by (simp_all add: editor_init_def ebind_simps demo_world_def demo_lib_def)
  show ?thesis
    by (rule cleanup_before_edit_fails [OF e l])
      (simp_all add: o honest_def demo_lookup, simp_all add: demo_world_def in_dir_def)
qed

section \<open>The lock\<close>

text \<open>The file \<open>lock_set\<close> creates.\<close>

definition lock_node :: "world \<Rightarrow> inode" where
  "lock_node w = \<lparr>kind = Reg, mode = 0x1B6 AND NOT (umask w), owner = my_uid w, contents = dec_int (int (my_pid w))\<rparr>"

lemma lock_set_creates:
  assumes "lock_path s = Some l" "faults (os s) = []" "world_inv (os s)" "lookup (os s) l = None"
  shows "lock_set s = (Inr (), s\<lparr>os := create l (lock_node (os s)) (os s)\<rparr>)"
proof -
  have "dir (os s) l = None" using lookup_iff [OF assms(3)] assms(4) by simp
  then show ?thesis
    using assms(1,2,4) by (simp add: lock_set_def lock_exists_def file_exists_def str_of_def ebind_simps sys_def
        stat_def fopen_w_def write_fd_def close_fd_def syscall_def next_fault_def create_def lock_node_def)
qed

text \<open>C27. \<open>lock_set\<close> stops with the message and without touching a file when the lock exists; when it
  does not and every call succeeds, the lock is a new file with the number of the process, a
  second \<open>lock_set\<close> is refused, and \<open>lock_unset\<close> brings the file system back.\<close>

theorem lock_set_unset:
  assumes "lock_path s = Some l" "faults (os s) = []" "world_inv (os s)"
  shows "(lookup (os s) l \<noteq> None \<longrightarrow> lock_set s = (Inl (Errx ''locked (%s)'' [ArgS l]), s))
    \<and> (lookup (os s) l = None \<longrightarrow> (\<exists>s1 s2. lock_set s = (Inr (), s1)
        \<and> file_text (os s1) = (file_text (os s))(l := Some (dec_int (int (my_pid (os s)))))
        \<and> fst (lock_set s1) = Inl (Errx ''locked (%s)'' [ArgS l])
        \<and> lock_unset s1 = (Inr (), s2) \<and> file_text (os s2) = file_text (os s)))"
proof (intro conjI impI)
  assume "lookup (os s) l \<noteq> None"
  then show "lock_set s = (Inl (Errx ''locked (%s)'' [ArgS l]), s)"
    using assms(1,2) by (auto simp: lock_set_def lock_exists_def file_exists_def
        ebind_simps sys_def stat_def syscall_def next_fault_def)
next
  assume n: "lookup (os s) l = None"
  let ?w = "create l (lock_node (os s)) (os s)"
  let ?s1 = "s\<lparr>os := ?w\<rparr>"
  have set: "lock_set s = (Inr (), ?s1)" using assms n by (rule lock_set_creates)
  have l1: "lookup ?w = (lookup (os s))(l := Some (lock_node (os s)))" by (rule lookup_create [OF assms(3)])
  then have t1: "file_text ?w = (file_text (os s))(l := Some (dec_int (int (my_pid (os s)))))"
    by (auto dest: text_update simp: lock_node_def)
  have f1: "faults ?w = []" using assms(2) by (simp add: create_def)
  let ?w2 = "?w\<lparr>dir := (dir ?w)(l := None)\<rparr>"
  have unset: "lock_unset ?s1 = (Inr (), s\<lparr>os := ?w2\<rparr>)"
    using assms(1) f1 l1 by (simp add: lock_node_def lock_unset_def lock_exists_def file_exists_def str_of_def ebind_simps sys_or_def
        sys_def stat_def unlink_def syscall_def next_fault_def)
  have "file_text ?w2 = (file_text ?w)(l := None)" by (simp add: text_update [OF lookup_remove])
  then have "file_text ?w2 = file_text (os s)" using t1 n by (auto simp: file_text_def fun_eq_iff)
  moreover have "fst (lock_set ?s1) = Inl (Errx ''locked (%s)'' [ArgS l])"
    using assms(1) f1 l1 by (simp add: lock_set_def lock_exists_def file_exists_def
        ebind_simps sys_def stat_def syscall_def next_fault_def)
  ultimately show "\<exists>s1 s2. lock_set s = (Inr (), s1)
        \<and> file_text (os s1) = (file_text (os s))(l := Some (dec_int (int (my_pid (os s)))))
        \<and> fst (lock_set s1) = Inl (Errx ''locked (%s)'' [ArgS l])
        \<and> lock_unset s1 = (Inr (), s2) \<and> file_text (os s2) = file_text (os s)"
    using set unset t1 by (intro exI [of _ ?s1] exI [of _ "s\<lparr>os := ?w2\<rparr>"]) simp
qed

theorem lock_set_unset_witness:
  "\<exists>s1 s2. lock_set (demo_state None (demo_world [])) = (Inr (), s1)
    \<and> fst (lock_set s1) = Inl (Errx ''locked (%s)'' [ArgS ''/h/lock''])
    \<and> lock_unset s1 = (Inr (), s2) \<and> file_text (os s2) = file_text (demo_world [])"
  using lock_set_unset [of "demo_state None (demo_world [])" "''/h/lock''"] demo_world_inv [of "[]"]
  by (auto simp: demo_lookup)

section \<open>Children that fail\<close>

text \<open>The exit handler of a child removes the lock of its parent, if no call fails on the way.\<close>

lemma run_atexit_unlocks:
  assumes "atexit_registered s" "lock_path s = Some l" "lookup (os s) l = Some n" "kind n \<noteq> Dir"
    and "faults (os s) = []" "\<not> debug_enabled s"
  shows "lookup (os (run_atexit s)) l = None"
proof -
  let ?s = "s\<lparr>atexit_registered := False\<rparr>" and ?w = "(os s)\<lparr>dir := (dir (os s))(l := None)\<rparr>"
  have u: "lock_unset ?s = (Inr (), ?s\<lparr>os := ?w\<rparr>)"
    using assms(2-5) by (simp add: lock_unset_def lock_exists_def file_exists_def str_of_def ebind_simps sys_or_def
      sys_def stat_def unlink_def syscall_def next_fault_def)
  have w: "lookup ?w l = None" by (simp add: lookup_remove)
  have gone: "lookup w' l = None" if "unlink t ?w = (r, w')" for t r w'
    using unlink_effect [OF that] w by auto
  have "wp (bnd (gets editor_tmp_path) (\<lambda>p. bnd (case p of None \<Rightarrow> ret ()
         | Some p \<Rightarrow> sys_or (h p) (unlink p)) (\<lambda>_. shutdown_curses)))
      (\<lambda>r s'. lookup (os s') l = None) (?s\<lparr>os := ?w\<rparr>)" for h
  proof (rule wp_gets_then)
    show "wp (bnd (case editor_tmp_path (?s\<lparr>os := ?w\<rparr>) of None \<Rightarrow> ret ()
        | Some p \<Rightarrow> sys_or (h p) (unlink p)) (\<lambda>_. shutdown_curses)) (\<lambda>r s'. lookup (os s') l = None) (?s\<lparr>os := ?w\<rparr>)"
      using w gone by (cases "editor_tmp_path s") (auto intro!: wp_bnd wp_ret wp_sys_or shutdown_curses_wp)
  qed
  then have "wp cleanup (\<lambda>r s'. lookup (os s') l = None) ?s"
    unfolding cleanup_def by (intro wp_bnd) (simp add: wp_def [of lock_unset] u)
  then show ?thesis
    using assms(1,6) by (auto simp: run_atexit_def atexit_cleanup_def debug_def ebind_simps wp_def split: prod.splits)
qed

text \<open>C37. A child that ends through \<open>err\<close> runs the exit handler it inherited, and the lock of the
  parent, which is still running, is removed: this is so when GnuPG cannot be started, and when
  the watcher finds that GnuPG has ended.\<close>

theorem failing_children_release_the_lock:
  assumes "atexit_registered s" "lock_path s = Some l" "lookup (os s) l = Some n" "kind n \<noteq> Dir" "\<not> debug_enabled s"
  shows "(faults (os s) = [] \<and> (\<forall>w. execlp L path [''-q'', ''--decrypt'', pw] (cfg_gpg_timeout (cfg (conf s))) w = None) \<longrightarrow>
      (\<exists>s'. gpg_child L path pw s = (Inr ([], Exited exit_failure), s') \<and> lookup (os s') l = None))
    \<and> (faults (os s) = [None, Some ESRCH] \<longrightarrow> lookup (os (watcher t s)) l = None)"
proof (intro conjI impI)
  assume a: "faults (os s) = [] \<and> (\<forall>w. execlp L path [''-q'', ''--decrypt'', pw] (cfg_gpg_timeout (cfg (conf s))) w = None)"
  then have "gpg_child_code L path pw s = (Inl (Err ''couldn't execute'' []), s)"
    using assms(5) by (simp add: gpg_child_code_def ebind_simps sys_or_def sys_def simple_call_def
        syscall_def next_fault_def debug_def)
  then show "\<exists>s'. gpg_child L path pw s = (Inr ([], Exited exit_failure), s') \<and> lookup (os s') l = None"
    using run_atexit_unlocks [OF assms(1-4) _ assms(5)] a by (simp add: gpg_child_def)
next
  assume f: "faults (os s) = [None, Some ESRCH]"
  let ?m = "Warning ''gpg timed out after %d seconds, aborting'' [ArgD (sint t)]"
  let ?s = "s\<lparr>os := (emit ?m (os s))\<lparr>faults := []\<rparr>\<rparr>"
  have "watcher_code t s = (Inl (Err ''set_pid_timeout child kill'' []), ?s)"
    using assms(5) f by (simp add: watcher_code_def ebind_simps sys_or_def sys_def simple_call_def syscall_def next_fault_def
        debug_def print_def emit_def)
  moreover have "lookup (os ?s) l = Some n" using assms(3) by (auto simp: lookup_def emit_def split: option.splits)
  ultimately show "lookup (os (watcher t s)) l = None"
    using run_atexit_unlocks [of ?s l n] assms(1,2,4,5) by (simp add: watcher_def)
qed

theorem failing_children_release_the_lock_witness:
  "(\<exists>s'. gpg_child (demo_lib (\<lambda>c w. (0, w)) (\<lambda>f args t w. None)) ''gpg'' ''/h/p.gpg''
      ((demo_state None (demo_world [(''/h/lock'', regular ''42'')]))\<lparr>atexit_registered := True\<rparr>) =
        (Inr ([], Exited exit_failure), s') \<and> lookup (os s') ''/h/lock'' = None)
   \<and> lookup (os (watcher 20 ((demo_state None ((demo_world [(''/h/lock'', regular ''42'')])\<lparr>faults := [None, Some ESRCH]\<rparr>))
        \<lparr>atexit_registered := True\<rparr>))) ''/h/lock'' = None"
proof -
  let ?L = "demo_lib (\<lambda>c w. (0, w)) (\<lambda>f args t w. None)" and ?w = "demo_world [(''/h/lock'', regular ''42'')]"
  have "lookup ?w ''/h/lock'' = Some (regular ''42'')" "kind (regular ''42'') \<noteq> Dir"
      "execlp ?L p as c w = None" for p as c w
    by (simp add: demo_lookup, simp add: regular_def, simp add: demo_lib_def)
  moreover from this have "lookup (?w\<lparr>faults := [None, Some ESRCH]\<rparr>) ''/h/lock'' = Some (regular ''42'')"
    by (auto simp: lookup_def split: option.splits)
  ultimately show ?thesis
    using failing_children_release_the_lock [of "(demo_state None ?w)\<lparr>atexit_registered := True\<rparr>" "''/h/lock''" _ ?L "''gpg''" "''/h/p.gpg''"]
      failing_children_release_the_lock [of "(demo_state None (?w\<lparr>faults := [None, Some ESRCH]\<rparr>))\<lparr>atexit_registered := True\<rparr>" "''/h/lock''" _ ?L _ _ 20]
    by simp
qed

end
