(* ===== verification/Session.thy ===== *)
theory Session
  imports Safety
begin

text \<open>
  Sessions in which the programs mdp starts work and no system call fails: what the editor gets
  to see and when the password file is written, what \<open>get\<close> prints, what \<open>generate\<close> prints.
\<close>

section \<open>Calls that do not fail\<close>

definition quiet :: "'r mdp \<Rightarrow> bool" where
  "quiet s \<longleftrightarrow> faults (os s) = [] \<and> \<not> debug_enabled s"

named_theorems calls \<open>what the calls do when none fails\<close>

lemma syscall_calls [calls]: "faults w = [] \<Longrightarrow> syscall f w = f w"
  by (simp add: syscall_def next_fault_def)

lemma debug_calls [calls]: "\<not> debug_enabled s \<Longrightarrow> debug f as s = (Inr (), s)"
  by (simp add: debug_def ebind_simps)

lemma sys_calls [calls]: "sys f s = (case f (os s) of (r, w) \<Rightarrow> (returned r, s\<lparr>os := w\<rparr>))"
  by (simp add: sys_def)

lemma sys_or_calls [calls]:
  "sys_or h f s = (case f (os s) of (Inl e, w) \<Rightarrow> (Inl (if e = KILL then Killed else h), s\<lparr>os := w\<rparr>)
      | (Inr x, w) \<Rightarrow> (Inr x, s\<lparr>os := w\<rparr>))"
  by (simp add: sys_or_def sys_def ebind_simps split: prod.split sum.split)

lemma str_of_calls [calls]: "str_of (Some x) s = (Inr x, s)"
  by (simp add: str_of_def ebind_simps)

section \<open>Lines and entries\<close>

definition file_of :: "string list \<Rightarrow> string" where
  "file_of ls = concat (map (\<lambda>l. l @ [NL]) ls)"

definition good_lines :: "string list \<Rightarrow> bool" where
  "good_lines ls \<longleftrightarrow>
     (\<forall>l\<in>set ls. NUL \<notin> set l \<and> NL \<notin> set l \<and> length l + 1 < MAX_LINE_SIZE \<and> decode utf8 l \<noteq> None)
     \<and> length ls < 2 ^ 31 \<and> length (file_of ls) < 2 ^ 63"

text \<open>A line without its trailing blanks.\<close>

definition trimmed :: "string \<Rightarrow> string" where
  "trimmed l = the (encode utf8 (strip_right is_wspace (the (decode utf8 l))))"

definition loaded :: "string list \<Rightarrow> wlist \<Rightarrow> bool" where
  "loaded ls rs \<longleftrightarrow> carr_inv rs \<and> carr_list rs = map (\<lambda>l. line_entry utf8 (l @ [NL])) ls"

lemma load_fp_lines:
  assumes "lib_ok L = always" "lib_cm L = utf8" "good_lines ls" "wline_inv (wline s)" "carr_inv (results s)"
    and "length (carr_list (results s)) < 2 ^ 31"
  shows "\<exists>c wl rs. load_fp L (Some (file_of ls)) s =
        (Inr (ARRAY_LENGTH rs), s\<lparr>result_crc32 := c, wline := wl, results := rs\<rparr>)
    \<and> cksum (bytes (file_of ls)) = Some c \<and> wline_inv wl \<and> carr_inv rs
    \<and> carr_list rs = carr_list (results s) @ map (\<lambda>l. line_entry utf8 (l @ [NL])) ls"
proof -
  let ?s = "file_of ls" and ?ctx = "CKSUM_Init \<lparr>crc = 0, len = 0\<rparr>"
  have ls: "\<forall>l\<in>set ls. NUL \<notin> set l \<and> NL \<notin> set l \<and> length l + 1 < MAX_LINE_SIZE \<and> decode utf8 l \<noteq> None"
    and n: "length ls < 2 ^ 31" "length ?s < 2 ^ 63" using assms(3) by (auto simp: good_lines_def)
  have cs: "chunks ?s = map (\<lambda>l. l @ [NL]) ls" unfolding file_of_def using ls by (intro chunks_lines) auto
  have "NUL \<notin> set ?s" using ls by (auto simp: NL_def file_of_def)
  moreover have "\<forall>c\<in>set (chunks ?s). decode utf8 c \<noteq> None"
    using ls utf8.decode_NL [OF utf8_NL] by (auto simp: cs)
  moreover have "length (carr_list (results s)) + length (chunks ?s) < 2 ^ 32"
    using assms(6) n(1) by (simp add: cs)
  ultimately obtain wl rs warn where l:
      "load_loop always (lib_junk L) utf8 ?s 0 (wline s) ?ctx (results s) [] =
        Inr (wl, CKSUM_Update ?ctx (bytes ?s) (length ?s), rs, warn)"
      "wline_inv wl" "carr_inv rs" "carr_list rs = carr_list (results s) @ map (line_entry utf8) (chunks ?s)"
      "(\<forall>c\<in>set (chunks ?s). NL \<in> set c) \<longrightarrow> warn = []"
    using utf8.load_loop_ok [OF _ _ assms(4,5), where s = ?s and junk = "lib_junk L" and
      n = 0 and ctx = ?ctx and warn = "[]"] by blast
  have w: "warn = []" using l(5) by (simp add: cs)
  obtain c where c: "cksum (bytes ?s) = Some c"
    using cksum_eq [of "bytes ?s"] n(2) by (auto simp: bytes_def)
  then obtain z where z: "CKSUM_Final (CKSUM_Update ?ctx (bytes ?s) (length ?s)) = Some z" "crc z = c"
    by (auto simp: cksum_def bytes_def)
  have "load_results_fp always (lib_junk L) utf8 (Some ?s) (wline s) (results s)
      = Some (Inr (ARRAY_LENGTH rs, c, wl, rs, []))"
    unfolding load_results_fp_def Let_def using l(1) z w by simp
  then have "load_fp L (Some ?s) s = (Inr (ARRAY_LENGTH rs), s\<lparr>result_crc32 := c, wline := wl, results := rs\<rparr>)"
    using assms(1,2) by (simp add: load_fp_def)
  with c l(2,3,4) cs show ?thesis by (auto simp: o_def)
qed

text \<open>What is dumped for an entry.\<close>

definition dumped :: "result \<Rightarrow> string" where
  "dumped r = take (unat (mbs_len r)) (mbs_value r)"

lemma dumped_line:
  assumes "NUL \<notin> set l" "NL \<notin> set l" "length l + 1 < MAX_LINE_SIZE" "decode utf8 l \<noteq> None"
  shows "dumped (line_entry utf8 (l @ [NL])) = trimmed l"
proof -
  obtain ws where ws: "decode utf8 l = Some ws" using assms(4) by blast
  have "length l < MAX_LINE_SIZE" using assms(3) by simp
  from utf8.line_value [OF ws assms(1) this refl]
  obtain m where m: "encode utf8 (strip_right is_wspace ws) = Some m" "length m + 1 < 2 ^ 64"
    by blast
  have e: "line_entry utf8 (l @ [NL]) = entry (strip_right is_wspace ws) m"
    using utf8.decode_NL [OF utf8_NL ws] m(1) by (simp add: line_entry_def Let_def is_wspace_def WCS_WHITESPACE_def)
  have "unat (of_nat (length m) :: size_t) = length m" using m(2) by (intro of_nat_size_t_unat) simp
  then show ?thesis using ws m(1) by (simp add: e dumped_def entry_def trimmed_def)
qed

lemma trimmed_clean:
  "decode utf8 l = Some ws \<Longrightarrow> strip_right is_wspace ws = ws \<Longrightarrow> trimmed l = l"
  by (simp add: trimmed_def utf8.encode_decode)

section \<open>The dump\<close>

lemma dump_loop_writes:
  assumes "quiet s" "node (os s) fd = Some n"
  shows "dump_loop fd rs s = (Inr (), s\<lparr>os := (os s)\<lparr>node := (node (os s))(fd :=
    Some (n\<lparr>contents := contents n @ file_of (map dumped rs)\<rparr>))\<rparr>\<rparr>)"
  using assms
proof (induction rs arbitrary: s n)
  case Nil
  then have "(node (os s))(fd := Some n) = node (os s)" by auto
  then show ?case by (simp add: file_of_def ebind_simps)
next
  case (Cons r rs)
  let ?n = "n\<lparr>contents := contents n @ dumped r @ [NL]\<rparr>"
  let ?s = "s\<lparr>os := (os s)\<lparr>node := (node (os s))(fd := Some ?n)\<rparr>\<rparr>"
  have "dump_loop fd (r # rs) s = dump_loop fd rs ?s"
    using Cons.prems by (simp add: ebind_simps calls quiet_def write_fd_def dumped_def)
  moreover have "dump_loop fd rs ?s = (Inr (), ?s\<lparr>os := (os ?s)\<lparr>node := (node (os ?s))(fd :=
      Some (?n\<lparr>contents := contents ?n @ file_of (map dumped rs)\<rparr>))\<rparr>\<rparr>)"
    using Cons.prems by (intro Cons.IH) (simp_all add: quiet_def)
  ultimately show ?case by (simp add: file_of_def fun_upd_def cong: if_cong)
qed

section \<open>The edit cycle\<close>

text \<open>What is known of the entries before an edit.\<close>

definition ready :: "string list \<Rightarrow> 'r mdp \<Rightarrow> bool" where
  "ready ls s \<longleftrightarrow> quiet s \<and> world_inv (os s) \<and> wline_inv (wline s) \<and> good_lines ls \<and> loaded ls (results s)"

lemma loaded_dump: "good_lines ls \<Longrightarrow> loaded ls rs \<Longrightarrow> file_of (map dumped (carr_list rs)) = file_of (map trimmed ls)"
  by (auto simp: loaded_def good_lines_def dumped_line o_def intro!: arg_cong [where f = file_of])

lemma has_changed_lines:
  assumes "lib_ok L = always" "lib_cm L = utf8" "quiet s" "wline_inv (wline s)" "loaded ls (results s)"
    and "good_lines ls" "good_lines ls'" "file_text (os s) path = Some (file_of ls')"
  shows "\<exists>c wl rs. has_changed L path s =
        (Inr (result_crc32 s \<noteq> c), s\<lparr>result_crc32 := c, wline := wl, results := rs\<rparr>)
    \<and> cksum (bytes (file_of ls')) = Some c"
proof -
  have "length (carr_list (results s)) < 2 ^ 31" "carr_inv (results s)"
    using assms(5,6) by (auto simp: loaded_def good_lines_def)
  then obtain c wl rs where l: "load_fp L (Some (file_of ls')) s =
        (Inr (ARRAY_LENGTH rs), s\<lparr>result_crc32 := c, wline := wl, results := rs\<rparr>)"
      "cksum (bytes (file_of ls')) = Some c"
    using load_fp_lines [OF assms(1,2,7,4)] by blast
  obtain n where n: "lookup (os s) path = Some n" "contents n = file_of ls'"
    using assms(8) by (auto simp: file_text_def)
  have "fopen_r path (os s) = (Inr (file_of ls'), os s)"
    using assms(3) n by (simp add: fopen_r_def calls quiet_def)
  then have "has_changed L path s = (Inr (result_crc32 s \<noteq> c), s\<lparr>result_crc32 := c, wline := wl, results := rs\<rparr>)"
    using l(1) by (simp add: has_changed_def ebind_simps calls)
  then show ?thesis using l(2) by blast
qed

text \<open>The command line of the editor.\<close>

definition editor_command :: "string \<Rightarrow> string" where
  "editor_command cmd = (if editor_is_vim cmd then cmd @ '' -n'' else cmd)"

text \<open>
  The editor: it is started on the temporary file that holds \<open>shown\<close> and leaves \<open>ls\<close> in it,
  and nothing else in the file system changes.
\<close>

definition edits :: "('r, 'p) lib \<Rightarrow> string \<Rightarrow> string \<Rightarrow> string list \<Rightarrow> string list \<Rightarrow> bool" where
  "edits L ed tmp shown ls \<longleftrightarrow>
     (\<forall>w m. faults w = [] \<and> world_inv w \<and> lookup w tmp = Some m \<and> kind m = Reg \<and> contents m = file_of shown \<longrightarrow>
        (\<exists>w' n. system L (editor_command ed @ '' '' @ [CHR 0x22] @ tmp @ [CHR 0x22]) w = (0, w')
          \<and> lookup w' = (lookup w)(tmp := Some n) \<and> kind n = Reg \<and> contents n = file_of ls
          \<and> faults w' = [] \<and> world_inv w'))"

text \<open>The name \<open>mkstemp\<close> will pick.\<close>

definition next_name :: "string \<Rightarrow> world \<Rightarrow> string \<Rightarrow> bool" where
  "next_name t w tmp \<longleftrightarrow> (\<exists>ns. pick_name (take (length t - 8) t) (dir w) (tmp_names w) = Some (tmp, ns))"

lemma pick_name_new: "pick_name b d ns = Some (p, ns') \<Longrightarrow> d p = None"
  by (induction b d ns rule: pick_name.induct) (auto split: if_splits)

lemma spawn_editor_calls:
  assumes "lib_ok L = always" "\<not> debug_enabled s" "cfg_editor (cfg (conf s)) = Some ed"
    and r: "system L (editor_command ed @ '' '' @ [CHR 0x22] @ path @ [CHR 0x22]) (os s) = (0, w)"
  shows "spawn_editor L path s = (Inr (), s\<lparr>os := w\<rparr>)"
proof -
  have e: "(if editor_is_vim ed then lift (join (lib_ok L) CHR '' '' ed ''-n'') else str_of (strdup (lib_ok L) ed)) s
      = (Inr (editor_command ed), s)"
    using assms(1) by (simp add: editor_command_def strdup_def join_def ebind_simps calls)
  have "run L (editor_command ed @ '' '' @ [CHR 0x22] @ path @ [CHR 0x22]) s = (Inr 0, s\<lparr>os := w\<rparr>)"
    using r by (simp add: run_def)
  then show ?thesis
    using assms(1-3) e unfolding spawn_editor_def by (simp add: ebind_simps calls)
qed

lemma lookup_names: "lookup (w\<lparr>tmp_names := ns\<rparr>) = lookup w"
  by (auto simp: lookup_def fun_eq_iff split: option.split)

lemma edit_results_cycle:
  assumes L: "lib_ok L = always" "lib_cm L = utf8"
    and s: "ready ls s" "editor_tmp_path s = Some t" "next_name t (os s) tmp" "cfg_editor (cfg (conf s)) = Some ed"
    and e: "edits L ed tmp (map trimmed ls) ls'" "good_lines ls'"
  shows "\<exists>w n c wl rs. lookup w = (lookup (os s))(tmp := Some n) \<and> kind n = Reg \<and> contents n = file_of ls'
    \<and> faults w = [] \<and> world_inv w \<and> cksum (bytes (file_of ls')) = Some c
    \<and> edit_results L s = (if result_crc32 s \<noteq> c then gpg_encrypt L tmp else print (Warning ''No changes, exiting...'' []))
        (s\<lparr>editor_tmp_path := Some tmp, os := w, result_crc32 := c, wline := wl, results := rs\<rparr>)"
proof -
  have q: "faults (os s) = []" "\<not> debug_enabled s" "world_inv (os s)" "wline_inv (wline s)" "good_lines ls"
      "loaded ls (results s)" "carr_inv (results s)"
    using s(1) by (auto simp: ready_def quiet_def loaded_def)
  obtain ns where p: "pick_name (take (length t - 8) t) (dir (os s)) (tmp_names (os s)) = Some (tmp, ns)"
    using s(3) by (auto simp: next_name_def)
  let ?node = "\<lambda>c. \<lparr>kind = Reg, mode = 0x180, owner = my_uid (os s), contents = c\<rparr>"
  let ?fd = "fresh (os s)"
  let ?w1 = "create tmp (?node []) ((os s)\<lparr>tmp_names := ns\<rparr>)"
  let ?w2 = "?w1\<lparr>node := (node ?w1)(?fd := Some (?node (file_of (map trimmed ls))))\<rparr>"
  let ?s1 = "s\<lparr>os := ?w1, editor_tmp_path := Some tmp\<rparr>"
  let ?s2 = "?s1\<lparr>os := ?w2\<rparr>"
  have mk: "mkstemp t (os s) = (Inr (?fd, tmp), ?w1)" using p q(1) by (simp add: mkstemp_def calls)
  have "world_inv ((os s)\<lparr>tmp_names := ns\<rparr>)" using q(3) by (simp add: world_inv_def)
  then have w1: "world_inv ?w1" "lookup ?w1 = (lookup (os s))(tmp := Some (?node []))"
    using lookup_create [of "(os s)\<lparr>tmp_names := ns\<rparr>" tmp] create_inv lookup_names [of ns "os s"] by simp_all
  have q1: "quiet ?s1" using q by (simp add: quiet_def create_def)
  have dump: "dump_loop ?fd (carr_list (results s)) ?s1 = (Inr (), ?s2)"
    using dump_loop_writes [OF q1, of ?fd "?node []"] loaded_dump [OF q(5,6)] by (simp add: create_def)
  have l2: "lookup ?w2 = (lookup (os s))(tmp := Some (?node (file_of (map trimmed ls))))"
    using pick_name_new [OF p] world_inv_fresh [OF q(3)]
    by (auto simp: lookup_def create_def fun_eq_iff split: option.splits)
  then have t2: "lookup ?w2 tmp = Some (?node (file_of (map trimmed ls)))" by simp
  have w2: "world_inv ?w2"
    using wf.dump_loop_inv [of ?fd "carr_list (results s)"] dump w1(1) by (auto simp: act_inv_def dest: spec [of _ ?s1])
  have f2: "faults ?w2 = []" using q(1) by (simp add: create_def)
  obtain w3 n where w3: "system L (editor_command ed @ '' '' @ [CHR 0x22] @ tmp @ [CHR 0x22]) ?w2 = (0, w3)"
      "lookup w3 = (lookup ?w2)(tmp := Some n)" "kind n = Reg" "contents n = file_of ls'" "faults w3 = []" "world_inv w3"
    using e(1) [unfolded edits_def, rule_format, of ?w2] f2 t2 w2 by auto
  have l3: "lookup w3 = (lookup (os s))(tmp := Some n)" using w3(2) l2 by simp
  let ?s3 = "?s2\<lparr>os := w3\<rparr>"
  have spawn: "spawn_editor L tmp ?s2 = (Inr (), ?s3)"
    using spawn_editor_calls [of L ?s2 ed tmp w3] s(4) w3(1) q(2) L(1) by simp
  have "quiet ?s3" using w3(5) q(2) by (simp add: quiet_def)
  moreover have "file_text (os ?s3) tmp = Some (file_of ls')" using w3(4) l3 by (simp add: file_text_def)
  ultimately obtain c wl rs where h: "has_changed L tmp ?s3 =
        (Inr (result_crc32 ?s3 \<noteq> c), ?s3\<lparr>result_crc32 := c, wline := wl, results := rs\<rparr>)"
      "cksum (bytes (file_of ls')) = Some c"
    using has_changed_lines [OF L, of ?s3 ls ls' tmp] q e(2) by auto
  have "edit_results L s = (if result_crc32 s \<noteq> c then gpg_encrypt L tmp else print (Warning ''No changes, exiting...'' []))
        (s\<lparr>editor_tmp_path := Some tmp, os := w3, result_crc32 := c, wline := wl, results := rs\<rparr>)"
    using s(2) mk dump spawn h(1) q f2 all_items_list [OF q(7)]
    by (simp add: edit_results_def ebind_simps calls close_fd_def)
  then show ?thesis using h(2) w3(3-6) l3 by blast
qed

text \<open>GnuPG encrypts the file \<open>tmp\<close> with \<open>E\<close> and writes nothing but its output.\<close>

definition ciphers :: "('r, 'p) lib \<Rightarrow> string \<Rightarrow> string \<Rightarrow> (string \<Rightarrow> string) \<Rightarrow> string \<Rightarrow> bool" where
  "ciphers L cmd tmp E pw \<longleftrightarrow>
     (\<forall>w x. file_text w tmp = Some x \<longrightarrow> (\<exists>w'. system L cmd w = (0, w')
        \<and> file_text w' (tmp @ ''.gpg'') = Some (E x) \<and> file_text w' pw = file_text w pw))"

text \<open>An edit that changes the text encrypts exactly what the editor left. Whatever call fails
  after that, the encryption of the new lines is under its temporary name or under the password
  file's, and with backups on the old file keeps its name or is the backup; when the function
  returns, the new file is in place with mode 0600 and the old one is the backup.\<close>

theorem edit_with_changes:
  assumes "lib_ok L = always" "lib_cm L = utf8"
    and "ready ls s" "editor_tmp_path s = Some t" "next_name t (os s) tmp" "cfg_editor (cfg (conf s)) = Some ed"
    and "edits L ed tmp (map trimmed ls) ls'" "good_lines ls'" "cksum (bytes (file_of ls')) \<noteq> Some (result_crc32 s)"
    and "gpg_path s = Some path" "cfg_gpg_key_id (cfg (conf s)) = Some key" "password_file s = Some pw"
    and "ciphers L (path @ '' -r '' @ key @ '' -e '' @ tmp) tmp E pw"
    and "pw \<notin> {tmp, tmp @ ''.gpg''}" "tmp @ ''.gpg'' \<noteq> pw @ ''.bak''"
    and "file_text (os s) pw = Some old" "edit_results L s = (r, s')"
  shows "swapped (tmp @ ''.gpg'') (E (file_of ls')) pw (cfg_backup (cfg (conf s))) old r (os s')"
proof -
  obtain w n c wl rs where c: "lookup w = (lookup (os s))(tmp := Some n)" "contents n = file_of ls'"
      "cksum (bytes (file_of ls')) = Some c"
      "edit_results L s = (if result_crc32 s \<noteq> c then gpg_encrypt L tmp else print (Warning ''No changes, exiting...'' []))
        (s\<lparr>editor_tmp_path := Some tmp, os := w, result_crc32 := c, wline := wl, results := rs\<rparr>)"
    using edit_results_cycle [OF assms(1-8)] by blast
  define s1 where "s1 = s\<lparr>editor_tmp_path := Some tmp, os := w, result_crc32 := c, wline := wl, results := rs\<rparr>"
  have s1: "conf s1 = conf s" "file_text (os s1) = (file_text (os s))(tmp := Some (file_of ls'))"
      "edit_results L s = gpg_encrypt L tmp s1"
    using text_update [OF c(1)] c(2-4) assms(9) by (auto simp: s1_def)
  have old: "file_text (os s1) pw = Some old" using s1(2) assms(14,16) by simp
  have "encrypts L (path @ '' -r '' @ key @ '' -e '' @ tmp) (tmp @ ''.gpg'') (E (file_of ls')) pw (os s1)"
    unfolding encrypts_def
  proof (intro allI impI)
    fix w assume "lookup w = lookup (os s1)"
    then have "file_text w tmp = Some (file_of ls')" using text_lookup [of w "os s1"] s1(2) by simp
    then show "\<exists>w'. system L (path @ '' -r '' @ key @ '' -e '' @ tmp) w = (0, w')
        \<and> file_text w' (tmp @ ''.gpg'') = Some (E (file_of ls')) \<and> file_text w' pw = file_text w pw"
      using assms(13) unfolding ciphers_def by blast
  qed
  then have "wp (gpg_encrypt L tmp) (\<lambda>r s'. \<exists>w. s' = s1\<lparr>os := w\<rparr> \<and>
      (swapped (tmp @ ''.gpg'') (E (file_of ls')) pw (cfg_backup (cfg (conf s1))) old r w \<or> not_started L s1 r w)) s1"
    using s1(1) assms(10-12,14,15) old by (intro gpg_encrypt_wp) (auto simp: gpg_path_def password_file_def)
  moreover have "gpg_encrypt L tmp s1 = (r, s')" using s1(3) assms(17) by simp
  ultimately have "\<exists>w. s' = s1\<lparr>os := w\<rparr> \<and>
      (swapped (tmp @ ''.gpg'') (E (file_of ls')) pw (cfg_backup (cfg (conf s1))) old r w \<or> not_started L s1 r w)"
    by (rule wpD)
  moreover have "\<not> debug_enabled s1" using assms(3) by (simp add: s1_def ready_def quiet_def)
  ultimately have "\<exists>w. s' = s1\<lparr>os := w\<rparr> \<and>
      swapped (tmp @ ''.gpg'') (E (file_of ls')) pw (cfg_backup (cfg (conf s1))) old r w"
    using assms(1) by (simp add: not_started_def)
  then show ?thesis using s1(1) by auto
qed

section \<open>Generating passwords\<close>

lemma printw_lines_calls:
  "printw_lines ls s = (Inr (), s\<lparr>os := (os s)\<lparr>out := out (os s) @ map PrintW ls\<rparr>\<rparr>)"
proof (induction ls arbitrary: s)
  case Nil
  then show ?case by (simp add: ebind_simps)
next
  case (Cons l ls)
  then show ?case by (simp add: print_def emit_def ebind_simps)
qed

text \<open>The profile of the defaults.\<close>

definition default_profile :: "config \<Rightarrow> profile" where
  "default_profile c = \<lparr>name = Some ''default'', password_count = cfg_password_count c,
     character_count = cfg_character_count c,
     character_set = Some (case cfg_character_set c of Some cs \<Rightarrow> cs | None \<Rightarrow> CHARSET_ALPHANUMERIC)\<rparr>"

lemma alphanumeric_nul_free: "0 \<notin> set CHARSET_ALPHANUMERIC"
  by (simp add: CHARSET_ALPHANUMERIC_def CHARSET_ALPHA_def CHARSET_LOWERCASE_def CHARSET_UPPERCASE_def
      CHARSET_DIGITS_def wcs_def)

lemma chosen_default:
  assumes "lib_ok L = always" "cmd_profile_name (opts s) = None"
    and "\<And>cs. cfg_character_set (cfg (conf s)) = Some cs \<Longrightarrow> 0 \<notin> set cs"
  shows "\<exists>r. chosen_profile L s = (Inr (default_profile (cfg (conf s))), s\<lparr>conf := (conf s)\<lparr>reg := r\<rparr>\<rparr>)"
proof -
  have set: "(case cfg_character_set (cfg (conf s)) of Some cset \<Rightarrow> wcsdup_set always cset | None \<Rightarrow> wcsdup_set always CHARSET_ALPHANUMERIC)
      = character_set (default_profile (cfg (conf s)))"
    using assms(3) by (auto simp: default_profile_def wcsdup_set_always alphanumeric_nul_free split: option.split)
  have "profile_new always (cfg (conf s)) ''default'' (reg (conf s)) =
      Inr (length (store (reg (conf s))), (reg (conf s))\<lparr>store := store (reg (conf s)) @ [default_profile (cfg (conf s))]\<rparr>)"
    by (simp add: profile_new_def xcalloc_def SIZE_MAX_def strdup_def set Let_def) (simp add: default_profile_def)
  then show ?thesis
    using assms(1,2) by (simp add: chosen_profile_def ebind_simps rd_def) blast
qed

text \<open>C16. \<open>mdp generate\<close> without a profile prints as many lines as the option \<open>-n\<close> or the configuration
  asks for; each is a password of the length \<open>-l\<close> or the configuration asks for, made of the
  characters of the configured set.\<close>

theorem generate_prints_passwords:
  assumes "lib_ok L = always" "serves (lib_uniform L)" "quiet s" "cmd_profile_name (opts s) = None"
    and "good_profile (opts s) (default_profile (cfg (conf s))) cset"
    and "cfg_character_set (cfg (conf s)) \<in> {None, Some cset}"
  shows "\<exists>s' pws. mdp_generate L s = (Inr (), s')
    \<and> out (os s') = out (os s) @ map (\<lambda>pw. PrintW (Some pw)) pws
    \<and> length pws = unat (if cmd_password_count (opts s) > 0 then cmd_password_count (opts s)
                            else cfg_password_count (cfg (conf s)))
    \<and> (\<forall>pw\<in>set pws. length pw = unat (if cmd_character_count (opts s) > 0 then cmd_character_count (opts s)
                            else cfg_character_count (cfg (conf s))) \<and> set pw \<subseteq> set cset)"
proof -
  let ?p = "default_profile (cfg (conf s))"
  have "cs = cset" if "cfg_character_set (cfg (conf s)) = Some cs" for cs using assms(6) that by auto
  then have "0 \<notin> set cs" if "cfg_character_set (cfg (conf s)) = Some cs" for cs
    using assms(5) that by (auto simp: good_profile_def)
  from chosen_default [OF assms(1,4) this]
  obtain r where c: "chosen_profile L s = (Inr ?p, s\<lparr>conf := (conf s)\<lparr>reg := r\<rparr>\<rparr>)" by blast
  obtain pws g where f: "profile_fprint_passwords always (lib_uniform L) (opts s) ?p (rng s) = Some (Inr (pws, g))"
      "length pws = unat (profile_get_password_count (opts s) ?p)" "\<forall>pw\<in>set pws. good_password (opts s) ?p cset pw"
    using fprint_loop_ok [OF assms(2,5), of "unat (profile_get_password_count (opts s) ?p)" "[]" "rng s"]
    by (auto simp: profile_fprint_passwords_def)
  have "mdp_generate L s = (Inr (), s\<lparr>conf := (conf s)\<lparr>reg := r\<rparr>, rng := g,
      os := (os s)\<lparr>out := out (os s) @ map (\<lambda>pw. PrintW (Some pw)) pws\<rparr>\<rparr>)"
    using assms(1,3) c f(1)
    by (simp add: mdp_generate_def quiet_def ebind_simps calls lift_opt_def printw_lines_calls o_def)
  then show ?thesis using f(2,3)
    by (auto simp: good_password_def requested_def profile_get_password_count_def default_profile_def)
qed

lemma default_good:
  assumes "cfg_character_set c = None" "cfg_character_count c = DEFAULT_CHARACTER_COUNT" "cmd_character_count o' = 0"
  shows "good_profile o' (default_profile c) CHARSET_ALPHANUMERIC"
proof -
  have l: "length CHARSET_ALPHANUMERIC = 62"
    by (simp add: CHARSET_ALPHANUMERIC_def CHARSET_ALPHA_def CHARSET_LOWERCASE_def CHARSET_UPPERCASE_def
        CHARSET_DIGITS_def wcs_def)
  then have "CHARSET_ALPHANUMERIC \<noteq> []" by auto
  then show ?thesis using assms alphanumeric_nul_free
    by (simp add: good_profile_def default_profile_def requested_def DEFAULT_CHARACTER_COUNT_def l)
qed

theorem generate_prints_passwords_witness:
  "\<exists>s' pws. mdp_generate (demo_lib (\<lambda>c w. (0, w)) (\<lambda>f args t w. None)) (demo_state None (demo_world [])) = (Inr (), s')
    \<and> out (os s') = map (\<lambda>pw. PrintW (Some pw)) pws \<and> length pws = 4
    \<and> (\<forall>pw\<in>set pws. length pw = 16 \<and> set pw \<subseteq> set CHARSET_ALPHANUMERIC)"
proof -
  let ?s = "demo_state None (demo_world [])" and ?L = "demo_lib (\<lambda>c w. (0, w)) (\<lambda>f args t w. None)"
  have c: "cfg (conf ?s) = config_initial\<lparr>cfg_gpg_path := Some ''gpg'', cfg_gpg_key_id := None,
        cfg_password_file := Some ''/h/p.gpg'', cfg_editor := Some ''vi''\<rparr>" "opts ?s = options_initial"
    by (simp_all add: demo_state_def initial_state_def)
  have "good_profile (opts ?s) (default_profile (cfg (conf ?s))) CHARSET_ALPHANUMERIC"
    by (rule default_good) (simp_all add: c config_initial_def options_initial_def)
  then have "\<exists>s' pws. mdp_generate ?L ?s = (Inr (), s') \<and> out (os s') = out (os ?s) @ map (\<lambda>pw. PrintW (Some pw)) pws
    \<and> length pws = unat (if cmd_password_count (opts ?s) > 0 then cmd_password_count (opts ?s)
                            else cfg_password_count (cfg (conf ?s)))
    \<and> (\<forall>pw\<in>set pws. length pw = unat (if cmd_character_count (opts ?s) > 0 then cmd_character_count (opts ?s)
                            else cfg_character_count (cfg (conf ?s))) \<and> set pw \<subseteq> set CHARSET_ALPHANUMERIC)"
    by (intro generate_prints_passwords)
      (simp_all add: quiet_def c, simp_all add: demo_lib_def counter_source_serves options_initial_def config_initial_def)
  then show ?thesis
    by (simp add: c options_initial_def config_initial_def DEFAULT_CHARACTER_COUNT_def DEFAULT_PASSWORD_COUNT_def)
qed

section \<open>Concrete sessions\<close>

definition demo_results :: wlist where
  "demo_results = \<lparr>items = [Some (line_entry utf8 (''ab'' @ [NL]))] @ replicate 9 None, num = 1, space = 80\<rparr>"

definition demo_edit :: "u32 \<Rightarrow> nat mdp" where
  "demo_edit c = (demo_state (Some ''K'') (demo_world [(''/h/p.gpg'', regular ''OLD'')]))
    \<lparr>editor_tmp_path := Some ''/h/tmp.XXXXXXXX'', results := demo_results, result_crc32 := c\<rparr>"

lemma demo_lines: "good_lines [''ab'']" "good_lines [''cd'']"
  by (auto simp: good_lines_def NL_def MAX_LINE_SIZE_def file_of_def utf8_def utf8_mbtowc_def)

lemma demo_ready: "ready [''ab''] (demo_edit c)"
proof -
  have "loaded [''ab''] demo_results"
    by (simp add: loaded_def demo_results_def carr_inv_def carr_list_def ARRAY_ITEMSIZE_def ARRAY_INITIALSPACE_def)
  then show ?thesis
    by (simp add: ready_def quiet_def demo_edit_def demo_world_inv demo_lines)
      (simp add: demo_state_def initial_state_def wline_initial_inv)
qed

lemma demo_name: "next_name ''/h/tmp.XXXXXXXX'' (os (demo_edit c)) ''/h/tmp.aaaaaaaa''"
  by (simp add: next_name_def demo_edit_def demo_world_def)

lemma demo_clean: "decode utf8 ''ab'' = Some [97, 98]" "strip_right is_wspace [97, 98] = [97, 98]"
  by (simp_all add: utf8_def utf8_mbtowc_def strip_right_def is_wspace_def WCS_WHITESPACE_def)

lemma demo_clean_lines: "\<forall>l\<in>set [''ab'']. strip_right is_wspace (the (decode utf8 l)) = the (decode utf8 l)"
  unfolding list.set(2) list.set(1) ball_simps demo_clean option.sel by (simp add: demo_clean del: decode.simps)

text \<open>An editor that writes another line, and a GnuPG that puts a mark before the text.\<close>

definition demo_tools :: "string \<Rightarrow> world \<Rightarrow> int \<times> world" where
  "demo_tools cmd w =
    (if take 2 cmd = ''vi'' then (0, create ''/h/tmp.aaaaaaaa'' (regular (file_of [''cd''])) w)
     else (0, create ''/h/tmp.aaaaaaaa.gpg'' (regular (''PGP'' @ (case file_text w ''/h/tmp.aaaaaaaa'' of None \<Rightarrow> [] | Some x \<Rightarrow> x)))
        (if dir w ''/h/p.gpg'' = Some (fresh w) then w\<lparr>fresh := Suc (fresh w)\<rparr> else w)))"

theorem edit_with_changes_witness:
  "\<exists>c r s'. edit_results (demo_lib demo_tools (\<lambda>f args t w. None)) (demo_edit c) = (r, s')
    \<and> swapped ''/h/tmp.aaaaaaaa.gpg'' (''PGP'' @ file_of [''cd'']) ''/h/p.gpg'' True ''OLD'' r (os s')"
proof -
  let ?L = "demo_lib demo_tools (\<lambda>f args t w. None)"
  obtain c where c: "cksum (bytes (file_of [''cd''])) \<noteq> Some c"
    by (metis option.inject zero_neq_one)
  have vi: "editor_command ''vi'' = ''vi''" by (simp add: editor_command_def editor_is_vim_def)
  have "trimmed ''ab'' = ''ab''" by (rule trimmed_clean [OF demo_clean])
  then have e: "edits ?L ''vi'' ''/h/tmp.aaaaaaaa'' (map trimmed [''ab'']) [''cd'']"
    by (auto simp: edits_def demo_lib_def demo_tools_def vi lookup_create create_inv
        intro!: exI [of _ "regular (file_of [''cd''])"])
      (simp_all add: create_def regular_def)
  have g: "ciphers ?L (''gpg'' @ '' -r '' @ ''K'' @ '' -e '' @ ''/h/tmp.aaaaaaaa'') ''/h/tmp.aaaaaaaa'' (\<lambda>x. ''PGP'' @ x) ''/h/p.gpg''"
    by (auto simp: ciphers_def demo_lib_def demo_tools_def)
      (auto simp: create_def file_text_def lookup_def regular_def split: option.split)
  obtain r s' where r: "edit_results ?L (demo_edit c) = (r, s')" by fastforce
  have "swapped (''/h/tmp.aaaaaaaa'' @ ''.gpg'') (''PGP'' @ file_of [''cd'']) ''/h/p.gpg''
      (cfg_backup (cfg (conf (demo_edit c)))) ''OLD'' r (os s')"
    by (rule edit_with_changes [where E = "\<lambda>x. ''PGP'' @ x", OF _ _ demo_ready _ demo_name _ e demo_lines(2) _ _ _ _ g _ _ _ r])
      (use c in \<open>simp_all add: demo_edit_def gpg_path_def password_file_def\<close>,
       simp_all add: demo_lib_def demo_state_def initial_state_def conf_initial_def config_initial_def
        file_text_def demo_lookup regular_def)
  then show ?thesis using r
    by (auto simp: demo_edit_def)
qed

end
