(* ===== verification/Queries.thy ===== *)
theory Queries
  imports Session
begin

text \<open>
  Reading passwords: \<open>mdp get -r\<close> from the decryption to the printed lines, and the pager's
  keyword prompt.
\<close>

section \<open>GnuPG works\<close>

text \<open>The checks of GnuPG succeed and change nothing; decrypting gives \<open>plain\<close> in time.\<close>

definition decrypts :: "('r, 'p) lib \<Rightarrow> string \<Rightarrow> string \<Rightarrow> bool" where
  "decrypts L path plain \<longleftrightarrow>
     (\<forall>w. system L (path @ '' --version > /dev/null'') w = (0, w)
        \<and> system L (path @ '' --list-secret-keys | grep -q sec'') w = (0, w))
     \<and> (\<forall>pw t w. execlp L path [''-q'', ''--decrypt'', pw] t w = Some (plain, Exited 0, w))"

text \<open>A process whose configuration names GnuPG, the key and an existing password file.\<close>

definition configured :: "'r mdp \<Rightarrow> bool" where
  "configured s \<longleftrightarrow> quiet s \<and> gpg_path s \<noteq> None \<and> cfg_gpg_key_id (cfg (conf s)) \<noteq> None
     \<and> (\<exists>pw. password_file s = Some pw \<and> lookup (os s) pw \<noteq> None)"

lemma gpg_check_calls:
  "decrypts L path plain \<Longrightarrow> configured s \<Longrightarrow> gpg_path s = Some path \<Longrightarrow> lib_ok L = always \<Longrightarrow> gpg_check L s = (Inr (), s)"
  by (auto simp: gpg_check_def configured_def decrypts_def join_def ebind_simps calls run_def)

lemma gpg_open_calls:
  assumes "decrypts L path plain" "configured s" "gpg_path s = Some path"
  shows "gpg_open L s = (Inr (Some (plain, Exited 0)), s\<lparr>watcher_pid := 1\<rparr>)"
proof -
  have q: "faults (os s) = []" "\<not> debug_enabled s" using assms(2) by (auto simp: configured_def quiet_def)
  obtain pw n where p: "password_file s = Some pw" "lookup (os s) pw = Some n"
    using assms(2) by (auto simp: configured_def)
  have c: "simple_call w = (Inr (), w)" if "faults w = []" for w
    using that by (simp add: simple_call_def calls)
  have child: "gpg_child L path pw s = (Inr (plain, Exited 0), s)"
    using q assms(1) by (simp add: gpg_child_def gpg_child_code_def ebind_simps calls c decrypts_def)
  have "file_exists pw s = (Inr True, s)" using q(1) p(2) by (simp add: file_exists_def stat_def ebind_simps calls)
  then show ?thesis using q p child assms(3)
    by (simp add: gpg_open_def set_pid_timeout_def ebind_simps calls c)
qed

lemma gpg_close_calls:
  assumes "quiet s"
  shows "gpg_close (x, Exited n) s = (Inr n, s\<lparr>watcher_pid := 0\<rparr>)"
  using assms by (simp add: gpg_close_def cancel_pid_timeout_def quiet_def ebind_simps calls simple_call_def)

lemma load_results_gpg_calls:
  assumes "decrypts L path (file_of ls)" "configured s" "lib_ok L = always" "lib_cm L = utf8" "good_lines ls"
    and "gpg_path s = Some path" "wline_inv (wline s)" "carr_inv (results s)" "carr_list (results s) = []"
  shows "\<exists>c wl rs. load_results_gpg L s =
        (Inr (of_nat (length ls)), s\<lparr>watcher_pid := 0, result_crc32 := c, wline := wl, results := rs\<rparr>)
    \<and> cksum (bytes (file_of ls)) = Some c \<and> wline_inv wl \<and> loaded ls rs"
proof -
  let ?s = "s\<lparr>watcher_pid := 1\<rparr>"
  obtain c wl rs where l: "load_fp L (Some (file_of ls)) ?s =
        (Inr (ARRAY_LENGTH rs), ?s\<lparr>result_crc32 := c, wline := wl, results := rs\<rparr>)"
      "cksum (bytes (file_of ls)) = Some c" "wline_inv wl" "carr_inv rs" "carr_list rs = map (\<lambda>l. line_entry utf8 (l @ [NL])) ls"
    using load_fp_lines [OF assms(3-5), of ?s] assms(7-9) by auto
  have "of_nat (unat (ARRAY_LENGTH rs)) = (of_nat (length ls) :: u32)"
    using carr.len_abs [OF l(4)] l(5) by simp
  then have n: "ARRAY_LENGTH rs = of_nat (length ls)" by simp
  have "quiet (?s\<lparr>result_crc32 := c, wline := wl, results := rs\<rparr>)" using assms(2) by (simp add: configured_def quiet_def)
  from gpg_close_calls [OF this, of "file_of ls" 0]
  have "load_results_gpg L s =
        (Inr (of_nat (length ls)), s\<lparr>watcher_pid := 0, result_crc32 := c, wline := wl, results := rs\<rparr>)"
    using gpg_open_calls [OF assms(1,2,6)] l(1) n by (simp add: load_results_gpg_def ebind_simps)
  then show ?thesis using l by (auto simp: loaded_def)
qed

section \<open>get\<close>

text \<open>
  The lines \<open>get\<close> selects: no comments, and every keyword occurs, up to the case that the locale's
  \<open>towlower\<close> removes.
\<close>

definition matching :: "(wchar \<Rightarrow> wchar) \<Rightarrow> string list \<Rightarrow> wchar list \<Rightarrow> bool" where
  "matching lower ks line \<longleftrightarrow> wc_at line \<noteq> 35 \<and>
     (\<forall>k\<in>set ks. sublist (map lower (the (decode utf8 k))) (map lower line))"

lemma selected_utf8: "selected utf8 lower ks line = matching lower ks line"
  by (simp add: selected_def kw_matches_def matching_def)

lemma loaded_values:
  assumes "good_lines ls" "loaded ls rs"
  shows "map wcs_value (carr_list rs) = map (\<lambda>l. Some (strip_right is_wspace (the (decode utf8 l)))) ls"
  using assms utf8.line_entry_NL(1) [OF utf8_NL] by (fastforce simp: good_lines_def loaded_def)

lemma visible_values:
  "map wcs_value xs = map Some ys \<Longrightarrow>
   map wcs_value (filter visible (map (\<lambda>r. r\<lparr>visible := P (the (wcs_value r))\<rparr>) xs)) = map Some (filter P ys)"
proof (induction xs arbitrary: ys)
  case (Cons x xs)
  then show ?case by (cases ys) auto
qed simp

text \<open>C11. \<open>mdp get -r\<close> prints exactly the lines of the decrypted file that are not comments and
  contain every keyword, in their order and without trailing blanks, and nothing else. Letters are
  compared as the locale's \<open>towlower\<close> folds them, whichever function that is.\<close>

theorem get_prints_matching_lines:
  assumes "decrypts L path (file_of ls)" "configured s" "lib_ok L = always" "lib_cm L = utf8" "good_lines ls" "ls \<noteq> []"
    and "gpg_path s = Some path" "wline_inv (wline s)" "carr_inv (results s)" "carr_list (results s) = []"
    and "cmd_raw (opts s)" "\<not> cmd_regex (opts s)" "keywords_inv (kws s)" "\<forall>k\<in>set (keywords_abs (kws s)). kw_fits utf8 k"
  shows "\<exists>s'. mdp_get L s = (Inr (), s') \<and>
    out (os s') = out (os s) @ map (\<lambda>ws. PrintW (Some ws))
      (filter (matching (lib_lower L) (keywords_abs (kws s))) (map (\<lambda>l. strip_right is_wspace (the (decode utf8 l))) ls))"
proof -
  obtain c wl rs where l: "load_results_gpg L s =
        (Inr (of_nat (length ls)), s\<lparr>watcher_pid := 0, result_crc32 := c, wline := wl, results := rs\<rparr>)" "loaded ls rs"
    using load_results_gpg_calls [OF assms(1-5,7-10)] by blast
  have vals: "map wcs_value (carr_list rs) = map (\<lambda>l. Some (strip_right is_wspace (the (decode utf8 l)))) ls"
    using loaded_values [OF assms(5) l(2)] .
  have "wcs_value r \<noteq> None" if "r \<in> set (carr_list rs)" for r
  proof -
    have "wcs_value r \<in> set (map wcs_value (carr_list rs))" using that by simp
    then show ?thesis unfolding vals by auto
  qed
  then have v: "\<forall>r\<in>set (carr_list rs). wcs_value r \<noteq> None" by blast
  have inv: "carr_inv rs" using l(2) by (simp add: loaded_def)
  obtain rs' where f: "filter_results utf8 (lib_lower L) (lib_rx L) (lib_kw0 L) False (kws s) rs (mbs_line s) = Inr (rs', mbs_line s)"
      "carr_inv rs'" "carr_list rs' = map (\<lambda>r. r\<lparr>visible := matching (lib_lower L) (keywords_abs (kws s)) (the (wcs_value r))\<rparr>) (carr_list rs)"
    using utf8.filter_plain [OF inv assms(13,14) v, of "lib_lower L" "lib_rx L" "lib_kw0 L" "mbs_line s", unfolded selected_utf8]
    by blast
  let ?sel = "\<lambda>ws. PrintW (Some ws)"
  have p: "map PrintW (map wcs_value (filter visible (carr_list rs'))) = map ?sel
      (filter (matching (lib_lower L) (keywords_abs (kws s))) (map (\<lambda>l. strip_right is_wspace (the (decode utf8 l))) ls))"
  proof -
    have "map wcs_value (filter visible (carr_list rs')) = map Some
        (filter (matching (lib_lower L) (keywords_abs (kws s))) (map (\<lambda>l. strip_right is_wspace (the (decode utf8 l))) ls))"
      unfolding f(3) by (rule visible_values) (simp add: vals o_def)
    then show ?thesis by (simp only: map_map o_def)
  qed
  have n: "(of_nat (length ls) :: u32) \<noteq> 0"
  proof -
    have "unat (of_nat (length ls) :: u32) = length ls"
      using assms(5) by (simp add: good_lines_def unat_of_nat)
    then show ?thesis using assms(6) by (metis length_0_conv unat_0)
  qed
  have "mdp_get L s = (Inr (), s\<lparr>watcher_pid := 0, result_crc32 := c, wline := wl, results := rs',
      os := (os s)\<lparr>out := out (os s) @ map PrintW (map wcs_value (filter visible (carr_list rs')))\<rparr>\<rparr>)"
    using assms(2) gpg_check_calls [OF assms(1,2,7,3)] l(1) n assms(4,11,12) f(1) print_results_spec [OF f(2)]
    by (simp add: mdp_get_def configured_def quiet_def ebind_simps calls filter_all_def printw_lines_calls)
  then show ?thesis using p by auto
qed

lemma matching_lines: "good_lines [''ab'', ''am'']"
  by (auto simp: good_lines_def NL_def MAX_LINE_SIZE_def file_of_def utf8_def utf8_mbtowc_def)

theorem get_prints_matching_lines_witness:
  "\<exists>s'. mdp_get (demo_lib (\<lambda>c w. (0, w)) (\<lambda>f args t w. Some (file_of [''ab'', ''am''], Exited 0, w)))
      ((demo_state (Some ''K'') (demo_world [(''/h/p.gpg'', regular ''OLD'')]))
        \<lparr>opts := options_initial\<lparr>cmd_raw := True\<rparr>, kws := one_keyword\<rparr>) = (Inr (), s')
    \<and> out (os s') = [PrintW (Some [97, 109])]"
proof -
  let ?L = "demo_lib (\<lambda>c w. (0, w)) (\<lambda>f args t w. Some (file_of [''ab'', ''am''], Exited 0, w))"
  let ?s = "(demo_state (Some ''K'') (demo_world [(''/h/p.gpg'', regular ''OLD'')]))
        \<lparr>opts := options_initial\<lparr>cmd_raw := True\<rparr>, kws := one_keyword\<rparr>"
  have c: "configured ?s"
    by (simp add: configured_def quiet_def gpg_path_def password_file_def demo_lookup)
      (simp add: demo_state_def initial_state_def)
  have d: "decrypts ?L ''gpg'' (file_of [''ab'', ''am''])" by (simp add: decrypts_def demo_lib_def)
  have k: "\<forall>k\<in>set (keywords_abs (kws ?s)). kw_fits utf8 k"
    by (simp add: one_keyword_inv kw_fits_def KEYWORD_LENGTH_def utf8_def utf8_mbtowc_def)
  have m: "filter (matching (lib_lower ?L) (keywords_abs (kws ?s))) (map (\<lambda>l. strip_right is_wspace (the (decode utf8 l))) [''ab'', ''am''])
      = [[97, 109]]"
    by (simp add: one_keyword_inv matching_def demo_lib_def utf8_def utf8_mbtowc_def latin_lower_def strip_right_def is_wspace_def
        WCS_WHITESPACE_def sublist_code wc_at_def)
  have o': "out (os ?s) = []" by simp
  have "\<exists>s'. mdp_get ?L ?s = (Inr (), s') \<and>
    out (os s') = out (os ?s) @ map (\<lambda>ws. PrintW (Some ws))
      (filter (matching (lib_lower ?L) (keywords_abs (kws ?s))) (map (\<lambda>l. strip_right is_wspace (the (decode utf8 l))) [''ab'', ''am'']))"
    by (rule get_prints_matching_lines [OF d c _ _ matching_lines _ _ _ _ _ _ _ _ k])
      (simp_all add: gpg_path_def conf_initial_def config_initial_def demo_lib_def one_keyword_inv demo_state_def initial_state_def wline_initial_inv
        results_initial_inv options_initial_def)
  then show ?thesis unfolding m o' by simp
qed

section \<open>The keyword prompt\<close>

lemma store_str_ok:
  "i + length cs < length b \<Longrightarrow> \<exists>b'. store_str b i cs = Inr b' \<and> b' = take i b @ cs @ NUL # drop (Suc (i + length cs)) b"
proof (induction b i cs rule: store_str.induct)
  case (1 b i)
  then show ?case by (simp add: wr_at_def upd_conv_take_nth_drop)
next
  case (2 b i c cs)
  have "\<exists>b'. store_str (b[i := c]) (Suc i) cs = Inr b'
      \<and> b' = take (Suc i) (b[i := c]) @ cs @ NUL # drop (Suc (Suc i + length cs)) (b[i := c])"
    using 2 by (intro 2(1)) auto
  moreover have "take (Suc i) (b[i := c]) = take i b @ [c]" using 2(2) by (simp add: take_Suc_conv_app_nth)
  ultimately show ?case using 2(2) by (simp add: wr_at_def)
qed

lemma store_str_overflow: "length b \<le> i + length cs \<Longrightarrow> \<exists>m. store_str b i cs = Inl (Undefined m)"
proof (induction b i cs rule: store_str.induct)
  case (2 b i c cs)
  then show ?case by (cases "i < length b") (auto simp: wr_at_def)
qed (simp add: wr_at_def)

text \<open>The prompt sets the keywords to the words of the line that was typed as long as it has
  fewer than fifty characters; with fifty or more, the terminator is stored outside the buffer.\<close>

theorem prompt_reads_short_lines:
  assumes "lib_ok L = always" "keywords_inv (kws s)" "user_lines s = line # rest" "NUL \<notin> set line"
  shows "(length line < 50 \<longrightarrow> (\<exists>s'. keyword_prompt L s = (Inr (), s') \<and> keywords_inv (kws s')
        \<and> keywords_abs (kws s') = words line \<and> user_lines s' = rest))
    \<and> (50 \<le> length line \<longrightarrow> (\<exists>m s'. keyword_prompt L s = (Inl (Undefined m), s')))"
proof (intro conjI impI)
  assume l: "length line < 50"
  obtain b where b: "getnstr (replicate 50 NUL) 50 line = Inr (line @ NUL # b)"
    using store_str_ok [of 0 line "replicate 50 NUL"] l by (auto simp: getnstr_def)
  have "cstr NUL (line @ NUL # b) = line" using assms(4) by simp
  moreover have "length (words line) < 2 ^ 32"
  proof -
    have "length (words w) \<le> length w" for w
      by (induction w rule: words.induct) (auto intro: le_trans [OF _ length_dropWhile_le])
    from this [of line] show ?thesis using l by simp
  qed
  ultimately obtain k where "keywords_load_from_char always (cstr NUL (line @ NUL # b)) (kws s) = Inr k"
      "keywords_inv k" "keywords_abs k = words line"
    using keywords_load_from_char_ok [OF assms(2)] by metis
  then show "\<exists>s'. keyword_prompt L s = (Inr (), s') \<and> keywords_inv (kws s')
        \<and> keywords_abs (kws s') = words line \<and> user_lines s' = rest"
    using assms b by (simp add: keyword_prompt_def curses_def print_def ebind_simps)
next
  assume "50 \<le> length line"
  then obtain m where "getnstr (replicate 50 NUL) 50 line = Inl (Undefined m)"
    using store_str_overflow [of "replicate 50 NUL" 0 "take 50 line"] by (auto simp: getnstr_def)
  then show "\<exists>m s'. keyword_prompt L s = (Inl (Undefined m), s')"
    using assms(3) by (simp add: keyword_prompt_def curses_def print_def ebind_simps)
qed

theorem prompt_reads_short_lines_witness:
  "\<exists>s'. keyword_prompt (demo_lib (\<lambda>c w. (0, w)) (\<lambda>f args t w. None))
      ((demo_state None (demo_world []))\<lparr>user_lines := [''web mail'']\<rparr>) = (Inr (), s')
    \<and> keywords_abs (kws s') = [''web'', ''mail'']"
  using prompt_reads_short_lines [of "demo_lib (\<lambda>c w. (0, w)) (\<lambda>f args t w. None)"
      "(demo_state None (demo_world []))\<lparr>user_lines := [''web mail'']\<rparr>" "''web mail''" "[]"]
  by (auto simp: demo_lib_def demo_state_def initial_state_def keywords_initial_inv)

section \<open>The timeout of the pager\<close>

lemma thousand_le: "1000 * int n < 2 ^ 31 \<Longrightarrow> n \<le> 2147483"
  by simp

lemma sint_product:
  "sint (t * 1000 :: u32) = 1000 * int (unat t) \<longleftrightarrow> unat t \<le> 2147483"
proof
  assume e: "sint (t * 1000) = 1000 * int (unat t)"
  have "sint (t * 1000) < 2 ^ 31" using sint_lt [of "t * 1000"] by simp
  then have "1000 * int (unat t) < 2 ^ 31" by (simp only: e)
  then show "unat t \<le> 2147483" by (rule thousand_le)
next
  assume a: "unat t \<le> 2147483"
  then have "unat (t * 1000) = unat t * 1000" by (simp add: unat_word_ariths)
  moreover from this a have "sint (t * 1000) = int (unat (t * 1000))" by (intro sint_small) simp
  ultimately show "sint (t * 1000) = 1000 * int (unat t)" by simp
qed

text \<open>The pager waits for a key for \<open>timeout\<close> seconds exactly when that is at most 2147483
  seconds; for larger values the product wraps around, and where it is negative as an \<open>int\<close> the
  pager shows the passwords for ever.\<close>

theorem pager_timeout_wraps:
  "\<exists>s' n. init_curses L s = (Inr (), s') \<and> last (out (os s')) = Curses ''timeout'' [ArgD n]
     \<and> n = sint (cfg_timeout (cfg (conf s)) * 1000)
     \<and> (n = 1000 * int (unat (cfg_timeout (cfg (conf s)))) \<longleftrightarrow> unat (cfg_timeout (cfg (conf s))) \<le> 2147483)"
  using sint_product
  by (auto simp: init_curses_def curses_def print_def emit_def ebind_simps split: option.split)

end
