(* ===== verification/ConfigRound.thy ===== *)
theory ConfigRound
  imports Config
begin

text \<open>
  Configuration files of \<open>set\<close> lines: reading one is setting its variables in order, and a
  configuration that is written as such a file is the one that is read.
\<close>

section \<open>Files of set lines\<close>

definition set_text :: "(string \<times> string) list \<Rightarrow> string" where
  "set_text nvs = concat (map (\<lambda>(nm, v). ''set '' @ nm @ '' '' @ v @ [NL]) nvs)"

fun set_all :: "allocator \<Rightarrow> charmap \<Rightarrow> int \<Rightarrow> (string \<times> string) list \<Rightarrow> conf_state \<Rightarrow> halt + conf_state" where
  "set_all ok cm i [] st = Inr st"
| "set_all ok cm i ((nm, v) # nvs) st = ebind (do_set ok cm nm (Some v) i st) (set_all ok cm (i + 1) nvs)"

definition short_word :: "string \<Rightarrow> bool" where
  "short_word v \<longleftrightarrow> plain_word v \<and> length v \<le> 4096"

lemma plain_no_newline: "plain_word w \<Longrightarrow> NL \<notin> set w \<and> NUL \<notin> set w"
  by (auto simp: plain_word_def delimiters_def WHITESPACE_def NL_def)

lemma config_loop_sets:
  assumes "\<forall>(nm, v)\<in>set nvs. short_word nm \<and> short_word v" "i + int (length nvs) \<le> 2147483647"
  shows "config_loop ok cm path (set_text nvs) i st = set_all ok cm i nvs st"
  using assms
proof (induction nvs arbitrary: i st)
  case Nil
  then show ?case by (subst config_loop.simps) (simp add: set_text_def fgets_def)
next
  case (Cons nv nvs)
  obtain nm v where nv: "nv = (nm, v)" by fastforce
  let ?l = "''set '' @ nm @ '' '' @ v"
  have p: "plain_word nm" "plain_word v" "length nm \<le> 4096" "length v \<le> 4096" using Cons.prems nv by (auto simp: short_word_def)
  have nl: "NL \<notin> set ?l" "NUL \<notin> set ?l"
    using plain_no_newline [OF p(1)] plain_no_newline [OF p(2)] by (auto simp: NL_def)
  have "length ?l + 1 < MAX_LINE_SIZE" using p(3,4) by (simp add: MAX_LINE_SIZE_def)
  then have f: "fgets MAX_LINE_SIZE (set_text (nv # nvs)) = Some (?l @ [NL], set_text nvs)"
    using fgets_line [OF nl(1), of "set_text nvs"] by (simp add: set_text_def nv)
  have "NUL \<notin> set (?l @ [NL])" using nl(2) by (auto simp: NL_def)
  then have c: "cstr NUL (?l @ [NL]) = ?l @ [NL]" by (rule cstr_id)
  have "process_config_line ok cm path (?l @ [NL]) i st = ebind (do_set ok cm nm (Some v) i st) (\<lambda>st. Inr (0, st))"
    using set_line [OF p(1,2), of ok cm path i st] by simp
  moreover have "int_succ ''linenum overflows'' i = Inr (i + 1)" using Cons.prems(2) by simp
  ultimately show ?case using Cons f c by (subst config_loop.simps) (auto simp: nv ebind_assoc intro!: ebind_cong)
qed

section \<open>Writing a configuration\<close>

definition entry_of :: "string \<Rightarrow> string option \<Rightarrow> (string \<times> string) list" where
  "entry_of nm x = (case x of None \<Rightarrow> [] | Some v \<Rightarrow> [(nm, v)])"

definition config_text :: "config \<Rightarrow> string" where
  "config_text c = set_text
    ([(''backup'', if cfg_backup c then ''on'' else ''no''),
      (''character_count'', dec_digits (unat (cfg_character_count c))),
      (''gpg_timeout'', dec_digits (unat (cfg_gpg_timeout c))),
      (''password_count'', dec_digits (unat (cfg_password_count c))),
      (''timeout'', dec_digits (unat (cfg_timeout c)))]
     @ entry_of ''editor'' (cfg_editor c) @ entry_of ''gpg_path'' (cfg_gpg_path c)
     @ entry_of ''gpg_key_id'' (cfg_gpg_key_id c) @ entry_of ''password_file'' (cfg_password_file c))"

text \<open>The configurations that can be written: the values are words.\<close>

definition writable :: "config \<Rightarrow> bool" where
  "writable c \<longleftrightarrow> cfg_character_set c = None \<and>
     (\<forall>v. Some v \<in> {cfg_editor c, cfg_gpg_path c, cfg_gpg_key_id c, cfg_password_file c} \<longrightarrow> short_word v)"

lemma length_dec_digits: "n < 10 ^ Suc k \<Longrightarrow> length (dec_digits n) \<le> Suc k"
proof (induction k arbitrary: n)
  case 0
  then show ?case by (simp add: dec_digits.simps [of n])
next
  case (Suc k)
  then have "n div 10 < 10 ^ Suc k" by (simp add: less_mult_imp_div_less mult.commute)
  from Suc.IH [OF this] show ?case by (subst dec_digits.simps) auto
qed

lemma short_digits: "short_word (dec_digits (unat (x :: u32)))"
proof -
  have "length (dec_digits (unat x)) \<le> Suc 9" using unat_u32_less [of x] by (intro length_dec_digits) simp
  then show ?thesis by (simp add: short_word_def plain_word_digits)
qed

lemma short_names:
  "short_word ''backup''" "short_word ''character_count''" "short_word ''gpg_timeout''" "short_word ''password_count''"
  "short_word ''timeout''" "short_word ''editor''" "short_word ''gpg_path''" "short_word ''gpg_key_id''"
  "short_word ''password_file''" "short_word ''on''" "short_word ''no''"
  by (auto simp: short_word_def plain_word_def delimiters_def WHITESPACE_def QUOTE_def)

lemma read_number: "empty_value (Some (dec_digits n)) = False" "n < 2 ^ 64 \<Longrightarrow> to_uint (strtoull (dec_digits n)) = of_nat n"
  using dec_digits_spec [of n] by (simp_all add: empty_value_def strtoull_digits to_uint_of_nat)

lemma read_uint: "to_uint (strtoull (dec_digits (unat (x :: u32)))) = x"
  using unat_u32_less [of x] by (simp add: read_number(2))

lemma read_word: "short_word v \<Longrightarrow> empty_value (Some v) = False \<and> strdup always v = Some v"
  by (auto simp: short_word_def plain_word_def empty_value_def strdup_def)

lemma set_all_append:
  "set_all ok cm i (xs @ ys) st = ebind (set_all ok cm i xs st) (set_all ok cm (i + int (length xs)) ys)"
proof (induction xs arbitrary: i st)
  case (Cons x xs)
  then show ?case by (cases x) (auto simp: ebind_assoc algebra_simps intro!: ebind_cong)
qed simp

lemma set_global:
  assumes "current_profile st = None" "set_variable always cm nm (Some v) i (cfg st) = Inr c"
  shows "set_all always cm i [(nm, v)] st = Inr (st\<lparr>cfg := c\<rparr>)"
  using assms by (simp add: do_set_def)

text \<open>C34. Reading a configuration file gives the configuration it was written from: every variable
  that is set there, whether a flag, a number of 32 bits or a word, has its value afterwards, and no
  profile is started.\<close>

theorem config_file_roundtrip:
  assumes "writable c"
  shows "config_read always cm path (Some (config_text c)) conf_initial = Inr (conf_initial\<lparr>cfg := c\<rparr>)"
proof -
  have w: "\<And>v. cfg_editor c = Some v \<Longrightarrow> short_word v" "\<And>v. cfg_gpg_path c = Some v \<Longrightarrow> short_word v"
    "\<And>v. cfg_gpg_key_id c = Some v \<Longrightarrow> short_word v" "\<And>v. cfg_password_file c = Some v \<Longrightarrow> short_word v"
    "cfg_character_set c = None"
    using assms unfolding writable_def by auto
  let ?nums = "[(''backup'', if cfg_backup c then ''on'' else ''no''), (''character_count'', dec_digits (unat (cfg_character_count c))),
      (''gpg_timeout'', dec_digits (unat (cfg_gpg_timeout c))), (''password_count'', dec_digits (unat (cfg_password_count c))),
      (''timeout'', dec_digits (unat (cfg_timeout c)))]"
  let ?c1 = "config_initial\<lparr>cfg_backup := cfg_backup c, cfg_character_count := cfg_character_count c,
      cfg_gpg_timeout := cfg_gpg_timeout c, cfg_password_count := cfg_password_count c, cfg_timeout := cfg_timeout c\<rparr>"
  have nums: "set_all always cm i ?nums conf_initial = Inr (conf_initial\<lparr>cfg := ?c1\<rparr>)" for i
    by (simp add: do_set_def set_variable_def parse_boolean_def read_number(1) read_uint conf_initial_def)
  have ed: "set_all always cm i (entry_of ''editor'' (cfg_editor c)) (conf_initial\<lparr>cfg := d\<rparr>) =
      Inr (conf_initial\<lparr>cfg := d\<lparr>cfg_editor := cfg_editor c\<rparr>\<rparr>)" if "cfg_editor d = None" for i d
    using w(1) that read_word by (simp add: entry_of_def do_set_def set_variable_def conf_initial_def split: option.split)
  have gp: "set_all always cm i (entry_of ''gpg_path'' (cfg_gpg_path c)) (conf_initial\<lparr>cfg := d\<rparr>) =
      Inr (conf_initial\<lparr>cfg := d\<lparr>cfg_gpg_path := cfg_gpg_path c\<rparr>\<rparr>)" if "cfg_gpg_path d = None" for i d
    using w(2) that read_word by (simp add: entry_of_def do_set_def set_variable_def conf_initial_def split: option.split)
  have key: "set_all always cm i (entry_of ''gpg_key_id'' (cfg_gpg_key_id c)) (conf_initial\<lparr>cfg := d\<rparr>) =
      Inr (conf_initial\<lparr>cfg := d\<lparr>cfg_gpg_key_id := cfg_gpg_key_id c\<rparr>\<rparr>)" if "cfg_gpg_key_id d = None" for i d
    using w(3) that read_word by (simp add: entry_of_def do_set_def set_variable_def conf_initial_def split: option.split)
  have pw: "set_all always cm i (entry_of ''password_file'' (cfg_password_file c)) (conf_initial\<lparr>cfg := d\<rparr>) =
      Inr (conf_initial\<lparr>cfg := d\<lparr>cfg_password_file := cfg_password_file c\<rparr>\<rparr>)" if "cfg_password_file d = None" for i d
    using w(4) that read_word by (simp add: entry_of_def do_set_def set_variable_def conf_initial_def split: option.split)
  have "?c1\<lparr>cfg_editor := cfg_editor c, cfg_gpg_path := cfg_gpg_path c, cfg_gpg_key_id := cfg_gpg_key_id c,
      cfg_password_file := cfg_password_file c\<rparr> = c"
    using w(5) by (cases c) (simp add: config_initial_def)
  moreover have "\<forall>(nm, v)\<in>set (?nums @ entry_of ''editor'' (cfg_editor c) @ entry_of ''gpg_path'' (cfg_gpg_path c)
      @ entry_of ''gpg_key_id'' (cfg_gpg_key_id c) @ entry_of ''password_file'' (cfg_password_file c)). short_word nm \<and> short_word v"
    using w(1-4) by (auto simp: entry_of_def short_names short_digits split: option.splits)
  moreover have "1 + int (length (?nums @ entry_of ''editor'' (cfg_editor c) @ entry_of ''gpg_path'' (cfg_gpg_path c)
      @ entry_of ''gpg_key_id'' (cfg_gpg_key_id c) @ entry_of ''password_file'' (cfg_password_file c))) \<le> 2147483647"
    by (simp add: entry_of_def split: option.split)
  ultimately show ?thesis
    unfolding config_read_def option.case config_text_def
    by (simp only: config_loop_sets set_all_append nums ebind_Inr)
      (simp add: set_all_append ed gp key pw config_initial_def)
qed

theorem config_file_roundtrip_witness:
  "config_read always utf8 ''/h/config''
     (Some (config_text (config_initial\<lparr>cfg_gpg_key_id := Some ''K'', cfg_backup := False, cfg_timeout := 42\<rparr>))) conf_initial =
   Inr (conf_initial\<lparr>cfg := config_initial\<lparr>cfg_gpg_key_id := Some ''K'', cfg_backup := False, cfg_timeout := 42\<rparr>\<rparr>)"
  by (rule config_file_roundtrip)
    (auto simp: writable_def config_initial_def short_word_def plain_word_def delimiters_def WHITESPACE_def QUOTE_def)

end
