(* ===== verification/EditRun.thy ===== *)
theory EditRun
  imports Queries ConfigRound
begin

text \<open>
  A whole run of \<open>mdp edit\<close>, from the command line to the exit handler, when no call fails: the
  lock and the temporary plain text come and go, and what remains of the run is the new password
  file and its backup.
\<close>

section \<open>The file operations when no call fails\<close>

lemma emit_fields [simp]: "faults (emit e w) = faults w" "out (emit e w) = out w @ [e]"
  by (simp_all add: emit_def)

lemma file_exists_calls: "faults (os s) = [] \<Longrightarrow> file_exists p s = (Inr (lookup (os s) p \<noteq> None), s)"
  by (simp add: file_exists_def stat_def ebind_simps calls split: option.split)

lemma unlink_calls: "faults w = [] \<Longrightarrow> lookup w p = Some n \<Longrightarrow> kind n \<noteq> Dir \<Longrightarrow>
    unlink p w = (Inr (), w\<lparr>dir := (dir w)(p := None)\<rparr>)"
  by (simp add: unlink_def calls)

text \<open>The names after \<open>move_aside\<close>.\<close>

definition aside_names :: "string \<Rightarrow> bool \<Rightarrow> (string \<Rightarrow> nat option) \<Rightarrow> string \<Rightarrow> nat option" where
  "aside_names pw backup d = (if backup then d(pw @ ''.bak'' := d pw, pw := None) else d(pw := None))"

lemma move_aside_calls:
  assumes "quiet s" "world_inv (os s)" "lookup (os s) pw = Some n" "kind n \<noteq> Dir"
    and "\<And>m. lookup (os s) (pw @ ''.bak'') = Some m \<Longrightarrow> kind m \<noteq> Dir"
  shows "move_aside pw backup s = (Inr (), s\<lparr>os := (os s)\<lparr>dir := aside_names pw backup (dir (os s))\<rparr>\<rparr>)"
proof (cases backup)
  case False
  then show ?thesis using assms
    by (simp add: move_aside_def aside_names_def quiet_def ebind_simps calls unlink_calls)
next
  case True
  let ?bak = "pw @ ''.bak''" and ?d = "dir (os s)"
  let ?w = "(os s)\<lparr>dir := ?d(?bak := None)\<rparr>"
  have ne: "pw \<noteq> ?bak" by simp
  have l: "lookup ?w pw = Some n" "lookup ?w ?bak = None" using assms(3) by (simp_all add: lookup_remove)
  have none: "lookup (os s) ?bak = None \<Longrightarrow> ?d(?bak := None) = ?d"
    using lookup_iff [OF assms(2)] by (simp add: fun_upd_idem)
  have un: "(case unlink ?bak (os s) of (r, w) \<Rightarrow> (r = Inl ENOENT \<or> r = Inr ()) \<and> w = ?w)"
    using assms(1,5) none by (auto simp: unlink_def quiet_def calls split: option.split)
  then obtain r where r: "unlink ?bak (os s) = (r, ?w)" "r = Inl ENOENT \<or> r = Inr ()" by (auto split: prod.splits)
  have lk: "link pw ?bak ?w = (Inr (), (os s)\<lparr>dir := ?d(?bak := ?d pw)\<rparr>)"
    using assms(1,4) l(1) ne by (simp add: link_def quiet_def calls)
  have l3: "lookup ((os s)\<lparr>dir := ?d(?bak := ?d pw)\<rparr>) pw = Some n" using assms(3) ne by (simp add: lookup_def split: option.splits)
  have "unlink pw ((os s)\<lparr>dir := ?d(?bak := ?d pw)\<rparr>) = (Inr (), (os s)\<lparr>dir := ?d(?bak := ?d pw, pw := None)\<rparr>)"
    using assms(1,4) l3 by (subst unlink_calls) (auto simp: quiet_def)
  then show ?thesis using True assms(1) r lk
    by (auto simp: move_aside_def aside_names_def quiet_def ebind_simps calls)
qed

lemma put_in_place_calls:
  assumes "quiet s" "dir (os s) enc = Some i" "node (os s) i = Some n" "kind n \<noteq> Dir" "dir (os s) pw = None" "enc \<noteq> pw"
  shows "put_in_place enc pw s = (Inr (), s\<lparr>os := (os s)\<lparr>dir := (dir (os s))(pw := Some i, enc := None),
    node := (node (os s))(i := Some (n\<lparr>mode := 0x180\<rparr>))\<rparr>\<rparr>)"
  using assms by (simp add: put_in_place_def link_def chmod_def unlink_def lookup_def quiet_def ebind_simps calls)

text \<open>The names after the whole replacement.\<close>

definition swapped_names :: "string \<Rightarrow> string \<Rightarrow> bool \<Rightarrow> (string \<Rightarrow> nat option) \<Rightarrow> string \<Rightarrow> nat option" where
  "swapped_names enc pw backup d = (aside_names pw backup d)(pw := d enc, enc := None)"

lemma swap_in_calls:
  assumes q: "quiet s" "world_inv (os s)"
    and pw: "lookup (os s) pw = Some n" "kind n \<noteq> Dir" "\<And>m. lookup (os s) (pw @ ''.bak'') = Some m \<Longrightarrow> kind m \<noteq> Dir"
    and enc: "dir (os s) enc = Some i" "node (os s) i = Some e" "kind e \<noteq> Dir" "enc \<noteq> pw" "enc \<noteq> pw @ ''.bak''"
  shows "swap_in always enc pw s = (Inr (), s\<lparr>os := (os s)
    \<lparr>dir := swapped_names enc pw (cfg_backup (cfg (conf s))) (dir (os s)), node := (node (os s))(i := Some (e\<lparr>mode := 0x180\<rparr>))\<rparr>\<rparr>)"
proof -
  let ?b = "cfg_backup (cfg (conf s))"
  let ?s = "s\<lparr>os := (os s)\<lparr>dir := aside_names pw ?b (dir (os s))\<rparr>\<rparr>"
  have "quiet ?s" "dir (os ?s) enc = Some i" "node (os ?s) i = Some e" "dir (os ?s) pw = None"
    using q enc by (simp_all add: quiet_def aside_names_def)
  from put_in_place_calls [OF this(1-3) enc(3) this(4) enc(4)]
  have "put_in_place enc pw ?s = (Inr (), s\<lparr>os := (os s)
    \<lparr>dir := swapped_names enc pw ?b (dir (os s)), node := (node (os s))(i := Some (e\<lparr>mode := 0x180\<rparr>))\<rparr>\<rparr>)"
    using enc(1) by (simp add: swapped_names_def)
  moreover have "file_exists pw s = (Inr True, s)" using q(1) pw(1) by (simp add: file_exists_calls quiet_def)
  ultimately show ?thesis
    using move_aside_calls [OF q pw] by (simp add: swap_in_def ebind_simps calls)
qed

lemma cleanup_calls:
  assumes "quiet s" "lock_path s = Some l" "lookup (os s) l = Some n" "kind n \<noteq> Dir"
    and "editor_tmp_path s = Some t" "t \<noteq> l" "lookup (os s) t = Some m" "kind m \<noteq> Dir" "\<not> screen s"
  shows "cleanup s = (Inr (), s\<lparr>os := (os s)\<lparr>dir := (dir (os s))(l := None, t := None)\<rparr>\<rparr>)"
proof -
  let ?w = "(os s)\<lparr>dir := (dir (os s))(l := None)\<rparr>"
  have "lock_unset s = (Inr (), s\<lparr>os := ?w\<rparr>)"
    using assms(1-4) by (simp add: lock_unset_def lock_exists_def file_exists_calls quiet_def ebind_simps calls unlink_calls)
  moreover have "lookup ?w t = Some m" using assms(6,7) by (simp add: lookup_remove)
  then have "unlink t ?w = (Inr (), ?w\<lparr>dir := (dir ?w)(t := None)\<rparr>)"
    using assms(1,8) by (intro unlink_calls) (simp_all add: quiet_def)
  ultimately show ?thesis using assms(5,9) by (simp add: cleanup_def shutdown_curses_def ebind_simps calls)
qed

lemma finish_cleans:
  assumes "quiet s" "lock_path s = Some l" "lookup (os s) l = Some n" "kind n \<noteq> Dir" "atexit_registered s"
    and "editor_tmp_path s = Some t" "t \<noteq> l" "lookup (os s) t = Some m" "kind m \<noteq> Dir" "\<not> screen s"
  shows "\<exists>s'. finish (Inr k, s) = (Status k, s') \<and> file_text (os s') = (file_text (os s))(l := None, t := None)
    \<and> out (os s') = out (os s) \<and> lookup (os s') = (lookup (os s))(l := None, t := None)"
proof -
  let ?s = "s\<lparr>atexit_registered := False\<rparr>"
  have c: "cleanup ?s = (Inr (), ?s\<lparr>os := (os s)\<lparr>dir := (dir (os s))(l := None, t := None)\<rparr>\<rparr>)"
    using cleanup_calls [of ?s l n t m] assms by (simp add: quiet_def)
  then have "atexit_cleanup ?s = (Inr (), ?s\<lparr>os := (os s)\<lparr>dir := (dir (os s))(l := None, t := None)\<rparr>\<rparr>)"
    using assms(1) by (simp add: atexit_cleanup_def quiet_def ebind_simps calls)
  moreover have l: "lookup ((os s)\<lparr>dir := (dir (os s))(l := None, t := None)\<rparr>) = (lookup (os s))(l := None, t := None)"
    by (auto simp: lookup_def fun_eq_iff split: option.split)
  then have "file_text ((os s)\<lparr>dir := (dir (os s))(l := None, t := None)\<rparr>) = (file_text (os s))(l := None, t := None)"
    by (simp add: file_text_def fun_eq_iff)
  ultimately show ?thesis using assms(5) l by (simp add: finish_def outcome_of_def)
qed

section \<open>The run up to the editor\<close>

text \<open>
  What is known when the configuration was read: the tools work, nobody holds the lock, and the
  names of the lock and the temporary file are free.
\<close>

definition started :: "('r, 'p) lib \<Rightarrow> string \<Rightarrow> string \<Rightarrow> string \<Rightarrow> string \<Rightarrow> string list \<Rightarrow> 'r mdp \<Rightarrow> bool" where
  "started L path l tmp ed ls s \<longleftrightarrow>
     lib_ok L = always \<and> lib_cm L = utf8 \<and> decrypts L path (file_of ls) \<and> good_lines ls
     \<and> configured s \<and> gpg_path s = Some path \<and> world_inv (os s) \<and> wline_inv (wline s)
     \<and> carr_inv (results s) \<and> carr_list (results s) = [] \<and> \<not> screen s
     \<and> lock_path s = Some l \<and> lookup (os s) l = None \<and> tmp \<noteq> l
     \<and> (\<exists>t. editor_tmp_path s = Some t \<and> next_name t (os s) tmp) \<and> cfg_editor (cfg (conf s)) = Some ed"

text \<open>The state in which the edit begins.\<close>

definition locked :: "string \<Rightarrow> 'r mdp \<Rightarrow> 'r mdp" where
  "locked l s = s\<lparr>os := create l (lock_node (os s)) (os s), atexit_registered := True, watcher_pid := 0\<rparr>"

lemma next_name_create: "next_name t w tmp \<Longrightarrow> tmp \<noteq> l \<Longrightarrow> next_name t (create l n w) tmp"
proof -
  have "pick_name b d ns = Some (tmp, ns') \<Longrightarrow> tmp \<noteq> l \<Longrightarrow> pick_name b (d(l := Some i)) ns = Some (tmp, ns')"
    for b d ns ns' i
    by (induction b d ns rule: pick_name.induct) (auto split: if_splits)
  then show "next_name t w tmp \<Longrightarrow> tmp \<noteq> l \<Longrightarrow> next_name t (create l n w) tmp"
    by (auto simp: next_name_def create_def)
qed

text \<open>What \<open>add\<close> and \<open>edit\<close> do before they use the entries.\<close>

definition open_session :: "('r, 'p) lib \<Rightarrow> ('r mdp, u32) act" where
  "open_session L = bnd (gpg_check L) (\<lambda>_. bnd lock_set (\<lambda>_. bnd setup_signals_and_atexit (\<lambda>_. load_results_gpg L)))"

lemma open_session_calls:
  assumes "started L path l tmp ed ls s"
  shows "\<exists>k c wl rs. open_session L s = (Inr k, (locked l s)\<lparr>result_crc32 := c, wline := wl, results := rs\<rparr>)
    \<and> cksum (bytes (file_of ls)) = Some c \<and> ready ls ((locked l s)\<lparr>result_crc32 := c, wline := wl, results := rs\<rparr>)"
proof -
  have q: "quiet s" "faults (os s) = []" "world_inv (os s)" "\<not> debug_enabled s"
    and L: "lib_ok L = always" "lib_cm L = utf8" "decrypts L path (file_of ls)" "good_lines ls" "gpg_path s = Some path"
    and st: "configured s" "wline_inv (wline s)" "carr_inv (results s)" "carr_list (results s) = []"
      "lock_path s = Some l" "lookup (os s) l = None"
    using assms by (simp_all add: started_def configured_def quiet_def)
  let ?w = "create l (lock_node (os s)) (os s)"
  let ?s = "s\<lparr>os := ?w, atexit_registered := True\<rparr>"
  have l: "lookup ?w = (lookup (os s))(l := Some (lock_node (os s)))" by (rule lookup_create [OF q(3)])
  have set: "lock_set s = (Inr (), s\<lparr>os := ?w\<rparr>)" by (rule lock_set_creates [OF st(5) q(2,3) st(6)])
  have fw: "faults ?w = []" using q(2) by (simp add: create_def)
  have p: "gpg_path ?s = Some path" using L(5) by (simp add: gpg_path_def)
  have c: "configured ?s"
    using st(1) fw by (auto simp: configured_def quiet_def gpg_path_def password_file_def l)
  obtain c wl rs where r: "load_results_gpg L ?s =
        (Inr (of_nat (length ls)), ?s\<lparr>watcher_pid := 0, result_crc32 := c, wline := wl, results := rs\<rparr>)"
      "cksum (bytes (file_of ls)) = Some c" "wline_inv wl" "loaded ls rs"
    using load_results_gpg_calls [OF L(3) c L(1,2,4) p] st(2-4) by auto
  have "setup_signals_and_atexit (s\<lparr>os := ?w\<rparr>) = (Inr (), ?s)"
    using fw by (simp add: setup_signals_and_atexit_def simple_call_def ebind_simps calls)
  then have "open_session L s = (Inr (of_nat (length ls)), (locked l s)\<lparr>result_crc32 := c, wline := wl, results := rs\<rparr>)"
    using gpg_check_calls [OF L(3) st(1) L(5,1)] set r(1)
    by (simp add: open_session_def locked_def ebind_simps)
  moreover have "ready ls ((locked l s)\<lparr>result_crc32 := c, wline := wl, results := rs\<rparr>)"
    using q(4) fw r(3,4) create_inv [OF q(3)] L(4) by (simp add: ready_def locked_def quiet_def)
  ultimately show ?thesis using r(2) by blast
qed

lemma mdp_edit_begins:
  assumes "started L path l tmp ed ls s"
  shows "\<exists>c wl rs. mdp_edit L s = edit_results L ((locked l s)\<lparr>result_crc32 := c, wline := wl, results := rs\<rparr>)
    \<and> cksum (bytes (file_of ls)) = Some c \<and> ready ls ((locked l s)\<lparr>result_crc32 := c, wline := wl, results := rs\<rparr>)"
proof -
  obtain k c wl rs where o': "open_session L s = (Inr k, (locked l s)\<lparr>result_crc32 := c, wline := wl, results := rs\<rparr>)"
      "cksum (bytes (file_of ls)) = Some c" "ready ls ((locked l s)\<lparr>result_crc32 := c, wline := wl, results := rs\<rparr>)"
    using open_session_calls [OF assms] by blast
  have "\<not> debug_enabled s" using assms by (simp add: started_def configured_def quiet_def)
  moreover have "mdp_edit L = bnd (debug ''mdp_edit()'' []) (\<lambda>_. bnd (open_session L) (\<lambda>_. edit_results L))"
    unfolding mdp_edit_def open_session_def bnd_assoc ..
  ultimately show ?thesis using o' by (auto simp: ebind_simps calls)
qed

lemma run_edit:
  assumes "locale_found L" "read_config L s0 = (Inr (), s)"
    and "mdp_edit L s = (Inr (), s')" "\<not> debug_enabled s'"
  shows "mdp_main L [''edit''] s0 = (Inr exit_success, s')" "run_mdp L [''edit''] s0 = finish (Inr exit_success, s')"
  using assms by (simp_all add: run_mdp_def mdp_main_def cmd_parse_core_def which_command_def command_match_def
      run_command_def cmd_parse_edit_def Let_def ebind_simps calls)

text \<open>The state in which the program decides whether to encrypt.\<close>

definition decided :: "string \<Rightarrow> string \<Rightarrow> world \<Rightarrow> config \<Rightarrow> string list \<Rightarrow> 'r mdp \<Rightarrow> bool" where
  "decided l tmp w c ls s \<longleftrightarrow>
     (\<exists>n. lookup (os s) = (lookup w)(l := Some (lock_node w), tmp := Some n) \<and> kind n = Reg \<and> contents n = file_of ls)
     \<and> quiet s \<and> world_inv (os s) \<and> lock_path s = Some l \<and> editor_tmp_path s = Some tmp \<and> atexit_registered s
     \<and> \<not> screen s \<and> cfg (conf s) = c"

lemma edit_decides:
  assumes "lib_ok L = always" "lib_cm L = utf8" "ready ls s1" "editor_tmp_path s1 = Some t" "next_name t (os s1) tmp"
    and "cfg_editor (cfg (conf s1)) = Some ed" "edits L ed tmp (map trimmed ls) ls'" "good_lines ls'"
    and "lookup (os s1) = (lookup w)(l := Some (lock_node w))" "lock_path s1 = Some l" "atexit_registered s1" "\<not> screen s1"
  shows "\<exists>s2. edit_results L s1 = (if cksum (bytes (file_of ls')) \<noteq> Some (result_crc32 s1) then gpg_encrypt L tmp
        else print (Warning ''No changes, exiting...'' [])) s2
    \<and> decided l tmp w (cfg (conf s1)) ls' s2"
proof -
  obtain v n c wl rs where r: "lookup v = (lookup (os s1))(tmp := Some n)" "kind n = Reg" "contents n = file_of ls'"
      "faults v = []" "world_inv v" "cksum (bytes (file_of ls')) = Some c"
      "edit_results L s1 = (if result_crc32 s1 \<noteq> c then gpg_encrypt L tmp else print (Warning ''No changes, exiting...'' []))
        (s1\<lparr>editor_tmp_path := Some tmp, os := v, result_crc32 := c, wline := wl, results := rs\<rparr>)"
    using edit_results_cycle [OF assms(1-8)] by blast
  have "\<not> debug_enabled s1" using assms(3) by (simp add: ready_def quiet_def)
  then have "decided l tmp w (cfg (conf s1)) ls' (s1\<lparr>editor_tmp_path := Some tmp, os := v, result_crc32 := c, wline := wl, results := rs\<rparr>)"
    using assms(9-12) r(1-5) by (auto simp: decided_def quiet_def)
  then show ?thesis using r(6,7) by auto
qed

lemma locked_ready:
  assumes "started L path l tmp ed ls s" "editor_tmp_path s = Some t" "next_name t (os s) tmp"
  shows "next_name t (os (locked l s)) tmp" "lookup (os (locked l s)) = (lookup (os s))(l := Some (lock_node (os s)))"
    "lock_path (locked l s) = Some l" "atexit_registered (locked l s)" "\<not> screen (locked l s)"
    "editor_tmp_path (locked l s) = Some t" "conf (locked l s) = conf s" "cfg_editor (cfg (conf s)) = Some ed"
  using assms by (simp_all add: started_def locked_def next_name_create lookup_create)

lemma mdp_edit_decides:
  assumes "started L path l tmp ed ls s" "edits L ed tmp (map trimmed ls) ls'" "good_lines ls'"
  shows "\<exists>s2. mdp_edit L s = (if cksum (bytes (file_of ls')) \<noteq> cksum (bytes (file_of ls)) then gpg_encrypt L tmp
        else print (Warning ''No changes, exiting...'' [])) s2
    \<and> decided l tmp (os s) (cfg (conf s)) ls' s2"
proof -
  obtain t where t: "editor_tmp_path s = Some t" "next_name t (os s) tmp" using assms(1) by (auto simp: started_def)
  note k = locked_ready [OF assms(1) t]
  have L: "lib_ok L = always" "lib_cm L = utf8" using assms(1) by (simp_all add: started_def)
  obtain c wl rs where b: "mdp_edit L s = edit_results L ((locked l s)\<lparr>result_crc32 := c, wline := wl, results := rs\<rparr>)"
      "cksum (bytes (file_of ls)) = Some c" "ready ls ((locked l s)\<lparr>result_crc32 := c, wline := wl, results := rs\<rparr>)"
    using mdp_edit_begins [OF assms(1)] by blast
  show ?thesis
    using edit_decides [OF L b(3) _ _ _ assms(2,3), where t = t and l = l and w = "os s"] k b(1,2) by auto
qed

lemma started_free:
  assumes "started L path l tmp ed ls s"
  shows "file_text (os s) tmp = None" "file_text (os s) l = None"
proof -
  have "world_inv (os s)" "\<exists>t. next_name t (os s) tmp" "lookup (os s) l = None" using assms by (auto simp: started_def)
  then show "file_text (os s) tmp = None" "file_text (os s) l = None"
    using lookup_iff by (auto simp: file_text_def next_name_def dest: pick_name_new)
qed

text \<open>The end of a run that found no changes.\<close>

lemma unchanged_finish:
  assumes "decided l tmp (os s) c ls s2" "tmp \<noteq> l" "file_text (os s) tmp = None" "file_text (os s) l = None"
  shows "\<exists>s3 s'. print (Warning ''No changes, exiting...'' []) s2 = (Inr (), s3) \<and> \<not> debug_enabled s3
    \<and> finish (Inr 0, s3) = (Status 0, s') \<and> file_text (os s') = file_text (os s)
    \<and> last (out (os s')) = Warning ''No changes, exiting...'' []"
proof -
  obtain n where l2: "lookup (os s2) = (lookup (os s))(l := Some (lock_node (os s)), tmp := Some n)" "kind n = Reg"
    and s2: "quiet s2" "lock_path s2 = Some l" "editor_tmp_path s2 = Some tmp" "atexit_registered s2" "\<not> screen s2"
    using assms(1) by (auto simp: decided_def)
  let ?s3 = "s2\<lparr>os := emit (Warning ''No changes, exiting...'' []) (os s2)\<rparr>"
  have "\<exists>s'. finish (Inr 0, ?s3) = (Status 0, s') \<and> file_text (os s') = (file_text (os ?s3))(l := None, tmp := None)
    \<and> out (os s') = out (os ?s3) \<and> lookup (os s') = (lookup (os ?s3))(l := None, tmp := None)"
    by (rule finish_cleans [where n = "lock_node (os s)" and m = n])
      (use l2 s2 assms(2) in \<open>simp_all add: quiet_def lock_node_def\<close>)
  then obtain s' where s': "finish (Inr 0, ?s3) = (Status 0, s')" "lookup (os s') = (lookup (os ?s3))(l := None, tmp := None)"
      "out (os s') = out (os ?s3)" by blast
  moreover have "file_text (os s') = file_text (os s)"
    using s'(2) l2(1) assms(3,4) by (auto simp: file_text_def fun_eq_iff)
  ultimately show ?thesis using s2(1)
    by (intro exI [of _ ?s3] exI [of _ s']) (simp add: print_def modify_def quiet_def)
qed

section \<open>Runs\<close>

text \<open>C10. A run of \<open>mdp edit\<close> in which the editor leaves the file alone leaves no trace: it ends with
  status 0, the file system is what it was, with neither the lock nor the temporary plain text, and
  the last message says that nothing changed. The editor was shown the password file byte for byte,
  provided no entry ends in a blank.\<close>

theorem edit_run_leaves_no_trace:
  assumes "locale_found L" "read_config L s0 = (Inr (), s)" "started L path l tmp ed ls s"
    and "\<forall>x\<in>set ls. strip_right is_wspace (the (decode utf8 x)) = the (decode utf8 x)"
    and "edits L ed tmp ls ls"
  shows "\<exists>s'. run_mdp L [''edit''] s0 = (Status 0, s') \<and> file_text (os s') = file_text (os s)
    \<and> last (out (os s')) = Warning ''No changes, exiting...'' []"
proof -
  have g: "good_lines ls" "tmp \<noteq> l" using assms(3) by (simp_all add: started_def)
  have "trimmed x = x" if "x \<in> set ls" for x
    using that g(1) assms(4) by (auto simp: good_lines_def intro!: trimmed_clean)
  then have e: "edits L ed tmp (map trimmed ls) ls" using assms(5) by (simp add: map_idI)
  obtain s2 where m: "mdp_edit L s = print (Warning ''No changes, exiting...'' []) s2"
    and d: "decided l tmp (os s) (cfg (conf s)) ls s2"
    using mdp_edit_decides [OF assms(3) e g(1)] by auto
  from unchanged_finish [OF d g(2) started_free [OF assms(3)]] obtain s3 s' where
    r: "print (Warning ''No changes, exiting...'' []) s2 = (Inr (), s3)" "\<not> debug_enabled s3" "finish (Inr 0, s3) = (Status 0, s')"
      "file_text (os s') = file_text (os s)" "last (out (os s')) = Warning ''No changes, exiting...'' []"
    by blast
  have "run_mdp L [''edit''] s0 = (Status 0, s')"
    using run_edit(2) [OF assms(1,2) m [unfolded r(1)] r(2)] r(3) by (simp add: exit_success_def)
  then show ?thesis using r(4,5) by blast
qed

section \<open>A run that commits\<close>

text \<open>The file system after the replacement.\<close>

lemma swapped_lookup:
  assumes "dir w enc = Some i" "node w i = Some e"
    and w': "w' = w\<lparr>dir := swapped_names enc pw backup (dir w), node := (node w)(i := Some (e\<lparr>mode := 0x180\<rparr>))\<rparr>"
    and "enc \<noteq> pw" "enc \<noteq> pw @ ''.bak''"
  shows "lookup w' pw = Some (e\<lparr>mode := 0x180\<rparr>)"
    and "file_text w' = (if backup then (file_text w)(pw @ ''.bak'' := file_text w pw) else file_text w)
        (pw := Some (contents e), enc := None)"
    and "\<And>p n. p \<notin> {enc, pw, pw @ ''.bak''} \<Longrightarrow> lookup w p = Some n \<Longrightarrow> \<exists>n'. lookup w' p = Some n' \<and> kind n' = kind n"
proof -
  have n: "map_option contents (node w' j) = map_option contents (node w j)"
      "map_option kind (node w' j) = map_option kind (node w j)" for j
    using assms(2) by (simp_all add: w')
  have t: "file_text w' p = (case dir w' p of None \<Rightarrow> None | Some j \<Rightarrow> map_option contents (node w j))" for p
    using n(1) by (simp add: file_text_def lookup_def split: option.split)
  show "lookup w' pw = Some (e\<lparr>mode := 0x180\<rparr>)"
    using assms by (simp add: w' lookup_def swapped_names_def)
  show "file_text w' = (if backup then (file_text w)(pw @ ''.bak'' := file_text w pw) else file_text w)
        (pw := Some (contents e), enc := None)"
  proof
    fix p
    have "dir w' p = swapped_names enc pw backup (dir w) p" by (simp add: w')
    moreover have "file_text w q = (case dir w q of None \<Rightarrow> None | Some j \<Rightarrow> map_option contents (node w j))" for q
      by (simp add: file_text_def lookup_def split: option.split)
    ultimately show "file_text w' p = ((if backup then (file_text w)(pw @ ''.bak'' := file_text w pw) else file_text w)
        (pw := Some (contents e), enc := None)) p"
      using assms(1,2,4,5) unfolding t by (auto simp: swapped_names_def aside_names_def)
  qed
  fix p n assume "p \<notin> {enc, pw, pw @ ''.bak''}" and l: "lookup w p = Some n"
  then have "dir w' p = dir w p" by (simp add: w' swapped_names_def aside_names_def)
  with l obtain j where "dir w' p = Some j" "node w j = Some n" by (auto simp: lookup_def split: option.splits)
  then show "\<exists>n'. lookup w' p = Some n' \<and> kind n' = kind n"
    using n(2) [of j] by (auto simp: lookup_def)
qed

text \<open>GnuPG encrypts the file \<open>tmp\<close> with \<open>E\<close> and changes nothing but its output.\<close>

definition encrypts_only :: "('r, 'p) lib \<Rightarrow> string \<Rightarrow> string \<Rightarrow> (string \<Rightarrow> string) \<Rightarrow> bool" where
  "encrypts_only L cmd tmp E \<longleftrightarrow>
     (\<forall>w m. faults w = [] \<and> world_inv w \<and> lookup w tmp = Some m \<longrightarrow>
        (\<exists>w' n. system L cmd w = (0, w') \<and> lookup w' = (lookup w)(tmp @ ''.gpg'' := Some n)
          \<and> kind n = Reg \<and> contents n = E (contents m) \<and> faults w' = [] \<and> world_inv w'))"

lemma gpg_encrypt_calls:
  assumes "lib_ok L = always" "quiet s" "world_inv (os s)" "gpg_path s = Some path" "cfg_gpg_key_id (cfg (conf s)) = Some key"
    and "password_file s = Some pw" "encrypts_only L (path @ '' -r '' @ key @ '' -e '' @ tmp) tmp E"
    and tmp: "lookup (os s) tmp = Some m"
    and pw: "lookup (os s) pw = Some n" "kind n \<noteq> Dir" "\<And>b. lookup (os s) (pw @ ''.bak'') = Some b \<Longrightarrow> kind b \<noteq> Dir"
    and ne: "tmp @ ''.gpg'' \<noteq> pw" "tmp @ ''.gpg'' \<noteq> pw @ ''.bak''"
  shows "\<exists>w. gpg_encrypt L tmp s = (Inr (), s\<lparr>os := w\<rparr>) \<and> faults w = []
    \<and> file_text w = (if cfg_backup (cfg (conf s)) then (file_text (os s))(pw @ ''.bak'' := file_text (os s) pw) else file_text (os s))
        (pw := Some (E (contents m)), tmp @ ''.gpg'' := None)
    \<and> (\<exists>f. lookup w pw = Some f \<and> mode f = 0x180)
    \<and> (\<forall>p x. p \<notin> {tmp @ ''.gpg'', pw, pw @ ''.bak''} \<and> lookup (os s) p = Some x \<longrightarrow>
        (\<exists>x'. lookup w p = Some x' \<and> kind x' = kind x))"
proof -
  let ?enc = "tmp @ ''.gpg''" and ?cmd = "path @ '' -r '' @ key @ '' -e '' @ tmp" and ?B = "cfg_backup (cfg (conf s))"
  obtain w1 e where r: "system L ?cmd (os s) = (0, w1)" "lookup w1 = (lookup (os s))(?enc := Some e)"
      "kind e = Reg" "contents e = E (contents m)" "faults w1 = []" "world_inv w1"
    using assms(2,3,7) tmp unfolding encrypts_only_def quiet_def by blast
  obtain i where i: "dir w1 ?enc = Some i" "node w1 i = Some e"
    using fun_cong [OF r(2), of ?enc] by (auto simp: lookup_def split: option.splits)
  let ?s1 = "s\<lparr>os := w1\<rparr>"
  let ?w = "w1\<lparr>dir := swapped_names ?enc pw ?B (dir w1), node := (node w1)(i := Some (e\<lparr>mode := 0x180\<rparr>))\<rparr>"
  have q1: "quiet ?s1" "world_inv (os ?s1)" using assms(2) r(5,6) by (simp_all add: quiet_def)
  have l1: "lookup w1 p = lookup (os s) p" if "p \<noteq> ?enc" for p using r(2) that by simp
  have sw: "swap_in always ?enc pw ?s1 = (Inr (), ?s1\<lparr>os := ?w\<rparr>)"
    using swap_in_calls [OF q1, of pw n ?enc i e] pw ne i r(3) l1 by simp
  have "gpg_encrypt L tmp s = (Inr (), s\<lparr>os := ?w\<rparr>)"
    using assms(1,2,4-6) r(1) sw
    by (simp add: gpg_encrypt_def Let_def run_def quiet_def gpg_path_def password_file_def ebind_simps calls)
  moreover note swl = swapped_lookup [OF i refl ne, where backup = ?B]
  have "file_text w1 = (file_text (os s))(?enc := Some (E (contents m)))" using text_update [OF r(2)] r(4) by simp
  then have "file_text ?w = (if ?B then (file_text (os s))(pw @ ''.bak'' := file_text (os s) pw) else file_text (os s))
        (pw := Some (E (contents m)), ?enc := None)"
    unfolding swl(2) using ne r(4) by (auto simp: fun_eq_iff)
  moreover have "\<exists>f. lookup ?w pw = Some f \<and> mode f = 0x180" using swl(1) by simp
  moreover have "\<exists>x'. lookup ?w p = Some x' \<and> kind x' = kind x"
    if "p \<notin> {?enc, pw, pw @ ''.bak''}" "lookup (os s) p = Some x" for p x
    using that l1 by (intro swl(3)) auto
  ultimately show ?thesis using r(5) by (intro exI [of _ ?w]) auto
qed

text \<open>What a run needs to commit: the key, the names and GnuPG's encryption.\<close>

definition committing :: "('r, 'p) lib \<Rightarrow> string \<Rightarrow> string \<Rightarrow> string \<Rightarrow> string \<Rightarrow> (string \<Rightarrow> string) \<Rightarrow> 'r mdp \<Rightarrow> bool" where
  "committing L path l tmp pw E s \<longleftrightarrow>
     (\<exists>key. cfg_gpg_key_id (cfg (conf s)) = Some key \<and> encrypts_only L (path @ '' -r '' @ key @ '' -e '' @ tmp) tmp E)
     \<and> password_file s = Some pw \<and> (\<exists>n. lookup (os s) pw = Some n \<and> kind n \<noteq> Dir)
     \<and> (\<forall>b. lookup (os s) (pw @ ''.bak'') = Some b \<longrightarrow> kind b \<noteq> Dir)
     \<and> distinct [l, tmp, tmp @ ''.gpg'', pw, pw @ ''.bak''] \<and> lookup (os s) (tmp @ ''.gpg'') = None"

text \<open>The files after a commit of the text \<open>x\<close>.\<close>

definition committed :: "'r mdp \<Rightarrow> string \<Rightarrow> (string \<Rightarrow> string) \<Rightarrow> string \<Rightarrow> 'r mdp \<Rightarrow> bool" where
  "committed s pw E x s' \<longleftrightarrow>
     file_text (os s') = (if cfg_backup (cfg (conf s)) then (file_text (os s))(pw @ ''.bak'' := file_text (os s) pw)
        else file_text (os s))(pw := Some (E x))
     \<and> (\<exists>f. lookup (os s') pw = Some f \<and> mode f = 0x180)"

lemma encrypt_and_finish:
  assumes L: "lib_ok L = always" and c: "committing L path l tmp pw E s" and p: "gpg_path s = Some path"
    and free: "file_text (os s) tmp = None" "file_text (os s) l = None"
    and d2: "decided l tmp (os s) (cfg (conf s)) ls' s2"
  shows "\<exists>s3 s'. gpg_encrypt L tmp s2 = (Inr (), s3) \<and> \<not> debug_enabled s3 \<and> finish (Inr 0, s3) = (Status 0, s')
    \<and> committed s pw E (file_of ls') s'"
proof -
  let ?enc = "tmp @ ''.gpg''" and ?bak = "pw @ ''.bak''" and ?B = "cfg_backup (cfg (conf s))"
  obtain key n where k: "cfg_gpg_key_id (cfg (conf s)) = Some key" "encrypts_only L (path @ '' -r '' @ key @ '' -e '' @ tmp) tmp E"
      "password_file s = Some pw" "lookup (os s) pw = Some n" "kind n \<noteq> Dir"
      "\<And>b. lookup (os s) ?bak = Some b \<Longrightarrow> kind b \<noteq> Dir" "lookup (os s) ?enc = None"
    using c by (auto simp: committing_def)
  obtain m where l2: "lookup (os s2) = (lookup (os s))(l := Some (lock_node (os s)), tmp := Some m)" "kind m = Reg" "contents m = file_of ls'"
    and s2: "quiet s2" "world_inv (os s2)" "lock_path s2 = Some l" "editor_tmp_path s2 = Some tmp" "atexit_registered s2"
      "\<not> screen s2" "cfg (conf s2) = cfg (conf s)"
    using d2 by (auto simp: decided_def)
  have d: "l \<noteq> tmp" "l \<notin> {?enc, pw, ?bak}" "tmp \<notin> {?enc, pw, ?bak}" "?enc \<noteq> pw" "?enc \<noteq> ?bak"
    using c by (auto simp: committing_def)
  have c2: "gpg_path s2 = Some path" "cfg_gpg_key_id (cfg (conf s2)) = Some key" "password_file s2 = Some pw"
    using p k(1,3) s2(7) by (simp_all add: gpg_path_def password_file_def)
  have pw2: "lookup (os s2) tmp = Some m" "lookup (os s2) pw = Some n" "\<And>b. lookup (os s2) ?bak = Some b \<Longrightarrow> kind b \<noteq> Dir"
    using l2(1) d k(4,6) by auto
  obtain w where w: "gpg_encrypt L tmp s2 = (Inr (), s2\<lparr>os := w\<rparr>)" "faults w = []"
      "file_text w = (if ?B then (file_text (os s2))(?bak := file_text (os s2) pw) else file_text (os s2))
        (pw := Some (E (contents m)), ?enc := None)"
      "\<exists>f. lookup w pw = Some f \<and> mode f = 0x180"
      "\<And>p x. p \<notin> {?enc, pw, ?bak} \<Longrightarrow> lookup (os s2) p = Some x \<Longrightarrow> \<exists>x'. lookup w p = Some x' \<and> kind x' = kind x"
    using gpg_encrypt_calls [OF L s2(1,2) c2 k(2) pw2(1,2) k(5) pw2(3) d(4,5)] s2(7) by auto
  have "lookup (os s2) l = Some (lock_node (os s))" using l2(1) d(1) by simp
  from w(5) [OF d(2) this] obtain x where x: "lookup w l = Some x" "kind x = Reg" by (auto simp: lock_node_def)
  from w(5) [OF d(3) pw2(1)] obtain y where y: "lookup w tmp = Some y" "kind y = Reg" using l2(2) by auto
  let ?s3 = "s2\<lparr>os := w\<rparr>"
  have "\<exists>s'. finish (Inr 0, ?s3) = (Status 0, s') \<and> file_text (os s') = (file_text (os ?s3))(l := None, tmp := None)
    \<and> out (os s') = out (os ?s3) \<and> lookup (os s') = (lookup (os ?s3))(l := None, tmp := None)"
    by (rule finish_cleans [where n = x and m = y]) (use x y w(2) s2 d(1) in \<open>simp_all add: quiet_def\<close>)
  then obtain s' where s': "finish (Inr 0, ?s3) = (Status 0, s')" "file_text (os s') = (file_text w)(l := None, tmp := None)"
      "lookup (os s') = (lookup w)(l := None, tmp := None)" by auto
  have f2: "file_text (os s2) = (file_text (os s))(l := Some (contents (lock_node (os s))), tmp := Some (file_of ls'))"
    using l2 by (auto simp: file_text_def fun_eq_iff)
  have "file_text (os s) ?enc = None" using k(7) by (simp add: file_text_def)
  then have "file_text (os s') = (if ?B then (file_text (os s))(?bak := file_text (os s) pw) else file_text (os s))
        (pw := Some (E (file_of ls')))"
    unfolding s'(2) w(3) f2 using d l2(3) free by (auto simp: fun_eq_iff)
  moreover have "\<exists>f. lookup (os s') pw = Some f \<and> mode f = 0x180" using w(4) s'(3) d by auto
  ultimately show ?thesis using w(1) s2(1) s'(1) by (auto simp: committed_def quiet_def)
qed

text \<open>C1. A run of \<open>mdp edit\<close> in which the editor changes the text commits it: it ends with status 0, the
  password file is the encryption of exactly what the editor left, with mode 0600, the backup is
  the old password file when backups are on, and nothing else in the file system is different: the
  lock, the temporary plain text and GnuPG's output are gone.\<close>

theorem edit_run_commits:
  assumes "locale_found L" "read_config L s0 = (Inr (), s)" "started L path l tmp ed ls s"
    and "edits L ed tmp (map trimmed ls) ls'" "good_lines ls'" "cksum (bytes (file_of ls')) \<noteq> cksum (bytes (file_of ls))"
    and "committing L path l tmp pw E s"
  shows "\<exists>s'. run_mdp L [''edit''] s0 = (Status 0, s')
    \<and> file_text (os s') = (if cfg_backup (cfg (conf s)) then (file_text (os s))(pw @ ''.bak'' := file_text (os s) pw)
        else file_text (os s))(pw := Some (E (file_of ls')))
    \<and> (\<exists>f. lookup (os s') pw = Some f \<and> mode f = 0x180)"
proof -
  obtain s2 where e: "mdp_edit L s = gpg_encrypt L tmp s2" "decided l tmp (os s) (cfg (conf s)) ls' s2"
    using mdp_edit_decides [OF assms(3-5)] assms(6) by auto
  have L: "lib_ok L = always" "gpg_path s = Some path" using assms(3) by (simp_all add: started_def)
  from encrypt_and_finish [OF L(1) assms(7) L(2) started_free [OF assms(3)] e(2)]
  obtain s3 s' where r: "gpg_encrypt L tmp s2 = (Inr (), s3)" "\<not> debug_enabled s3" "finish (Inr 0, s3) = (Status 0, s')"
      "committed s pw E (file_of ls') s'" by blast
  have "run_mdp L [''edit''] s0 = (Status 0, s')"
    using run_edit(2) [OF assms(1,2) e(1) [unfolded r(1)] r(2)] r(3) by (simp add: exit_success_def)
  then show ?thesis using r(4) by (auto simp: committed_def)
qed

section \<open>A concrete run\<close>

text \<open>A home directory with a configuration that names the key, and a password file of one line.\<close>

definition home_files :: "(string \<times> inode) list" where
  "home_files = [(''/h'', directory), (''/h/.mdp'', directory),
     (''/h/.mdp/config'', regular (set_text [(''gpg_key_id'', ''K'')])), (''/h/.mdp/passwords'', regular ''OLD'')]"

definition home_start :: "nat mdp" where
  "home_start = initial_state (demo_world home_files) 0 [] []"

definition home_config :: config where
  "home_config = config_initial\<lparr>cfg_gpg_key_id := Some ''K'', cfg_gpg_path := Some ''/usr/bin/gpg'',
     cfg_password_file := Some ''/h/.mdp/passwords'', cfg_editor := Some ''vi''\<rparr>"

definition home_ready :: "nat mdp" where
  "home_ready = home_start\<lparr>editor_tmp_path := Some ''/h/.mdp/tmp_edit.XXXXXXXX'',
     opts := options_initial\<lparr>cmd_config_path := Some ''/h/.mdp/config''\<rparr>,
     conf := conf_initial\<lparr>cfg := home_config\<rparr>, lock_path := Some ''/h/.mdp/lock''\<rparr>"

lemma home_config_read:
  "config_read always cm path (Some (set_text [(''gpg_key_id'', ''K'')]))
     (conf_initial\<lparr>cfg := config_initial\<lparr>cfg_editor := Some ''vi''\<rparr>\<rparr>) =
   Inr (conf_initial\<lparr>cfg := config_initial\<lparr>cfg_editor := Some ''vi'', cfg_gpg_key_id := Some ''K''\<rparr>\<rparr>)"
proof -
  have "\<forall>(nm, v)\<in>set [(''gpg_key_id'', ''K'')]. short_word nm \<and> short_word v"
    by (auto simp: short_word_def plain_word_def delimiters_def WHITESPACE_def QUOTE_def)
  then show ?thesis
    by (simp add: config_read_def config_loop_sets)
      (simp add: do_set_def set_variable_def empty_value_def strdup_def conf_initial_def config_initial_def)
qed

lemma home_simps:
  "os home_start = demo_world home_files" "conf home_start = conf_initial" "opts home_start = options_initial"
  "lookup (demo_world home_files) ''/h'' = Some directory"
  "lookup (demo_world home_files) ''/h/.mdp'' = Some directory"
  "lookup (demo_world home_files) ''/h/.mdp/config'' = Some (regular (set_text [(''gpg_key_id'', ''K'')]))"
  "lookup (demo_world home_files) ''/h/.mdp/passwords'' = Some (regular ''OLD'')"
  "environ (demo_world home_files) ''HOME'' = Some ''/h''" "environ (demo_world home_files) ''EDITOR'' = Some ''vi''"
  by (simp_all add: home_start_def initial_state_def demo_lookup home_files_def) (simp_all add: demo_world_def)

lemma stat_calls: "faults w = [] \<Longrightarrow> lookup w p = Some n \<Longrightarrow> stat p w = (Inr n, w)"
  by (simp add: stat_def calls)

lemma fopen_r_calls: "faults w = [] \<Longrightarrow> lookup w p = Some n \<Longrightarrow> fopen_r p w = (Inr (contents n), w)"
  by (simp add: fopen_r_def calls)

lemma home_paths:
  "in_dir ''/h'' ''.mdp'' = ''/h/.mdp''" "in_dir ''/h/.mdp'' ''config'' = ''/h/.mdp/config''"
  "in_dir ''/h/.mdp'' ''tmp_edit.XXXXXXXX'' = ''/h/.mdp/tmp_edit.XXXXXXXX''"
  "in_dir ''/h/.mdp'' ''passwords'' = ''/h/.mdp/passwords''" "in_dir ''/h/.mdp'' ''lock'' = ''/h/.mdp/lock''"
  "dirname ''/h/.mdp/passwords'' = ''/h/.mdp''"
  by (simp_all add: in_dir_def dirname_def no_slash_def strip_right_def)

lemma ensure_directory_calls:
  "faults (os s) = [] \<Longrightarrow> lookup (os s) p = Some n \<Longrightarrow> private_dir (my_uid (os s)) n \<Longrightarrow> config_ensure_directory p s = (Inr (), s)"
  by (auto simp: config_ensure_directory_def private_dir_def my_uid_now_def stat_calls ebind_simps calls)

lemma check_files_calls:
  assumes "faults (os s) = []" "lookup (os s) p = Some n" "kind n = Reg" "owner n = my_uid (os s)"
  shows "config_check_file p s = (Inr (), s)"
    and "mode n AND 0x12 = 0 \<Longrightarrow> config_check_password_file p s = (Inr (), s)"
  using assms by (simp_all add: config_check_file_def config_check_password_file_def my_uid_now_def stat_calls ebind_simps calls)

lemma home_checks:
  assumes "os s = demo_world home_files"
  shows "config_ensure_directory ''/h/.mdp'' s = (Inr (), s)" "config_check_file ''/h/.mdp/config'' s = (Inr (), s)"
    "config_check_password_file ''/h/.mdp/passwords'' s = (Inr (), s)"
proof -
  show "config_ensure_directory ''/h/.mdp'' s = (Inr (), s)"
    by (rule ensure_directory_calls) (simp_all add: assms home_simps private_dir_def, simp_all add: directory_def)
  show "config_check_file ''/h/.mdp/config'' s = (Inr (), s)"
    by (rule check_files_calls) (simp_all add: assms home_simps, simp_all add: regular_def)
  show "config_check_password_file ''/h/.mdp/passwords'' s = (Inr (), s)"
    by (rule check_files_calls) (simp_all add: assms home_simps, simp_all add: regular_def)
qed

lemma home_config_reads:
  assumes "lib_ok L = always" "os s = demo_world home_files"
    and "conf s = conf_initial\<lparr>cfg := config_initial\<lparr>cfg_editor := Some ''vi''\<rparr>\<rparr>"
  shows "do_config_read L ''/h/.mdp/config'' s =
    (Inr (), s\<lparr>conf := conf_initial\<lparr>cfg := config_initial\<lparr>cfg_editor := Some ''vi'', cfg_gpg_key_id := Some ''K''\<rparr>\<rparr>\<rparr>)"
  using assms by (simp add: do_config_read_def ebind_simps calls fopen_r_calls home_simps regular_def home_config_read)

lemma home_read_config:
  assumes "lib_ok L = always"
  shows "read_config L home_start = (Inr (), home_ready)"
proof -
  have "get_home L home_start = (Inr (Some ''/h''), home_start)"
    using assms by (simp add: get_home_def file_exists_calls home_simps strdup_def str_of_def ebind_simps)
  moreover have "cfg conf_initial = config_initial" by (simp add: conf_initial_def)
  ultimately show ?thesis
    using assms by (simp add: read_config_def editor_init_def set_opts_def do_set_defaults_def config_set_defaults_def
        xdirname_def home_simps home_paths home_checks home_config_reads strdup_def join_def password_file_def
        config_initial_def options_initial_def ebind_simps calls Let_def home_ready_def home_config_def)
qed

lemma home_started:
  assumes "decrypts L ''/usr/bin/gpg'' (file_of [''ab''])" "lib_ok L = always" "lib_cm L = utf8"
  shows "started L ''/usr/bin/gpg'' ''/h/.mdp/lock'' ''/h/.mdp/tmp_edit.aaaaaaaa'' ''vi'' [''ab''] home_ready"
proof -
  have w: "os home_ready = demo_world home_files" "conf home_ready = conf_initial\<lparr>cfg := home_config\<rparr>"
    "lock_path home_ready = Some ''/h/.mdp/lock''" "editor_tmp_path home_ready = Some ''/h/.mdp/tmp_edit.XXXXXXXX''"
    "wline home_ready = wline_initial" "results home_ready = results_initial" "\<not> screen home_ready" "\<not> debug_enabled home_ready"
    by (simp_all add: home_ready_def home_start_def initial_state_def)
  have "next_name ''/h/.mdp/tmp_edit.XXXXXXXX'' (demo_world home_files) ''/h/.mdp/tmp_edit.aaaaaaaa''"
    by (simp add: next_name_def demo_world_def home_files_def)
  moreover have "configured home_ready"
    by (simp add: configured_def quiet_def gpg_path_def password_file_def w home_config_def home_simps)
  moreover have "lookup (demo_world home_files) ''/h/.mdp/lock'' = None" by (simp add: demo_lookup home_files_def)
  ultimately show ?thesis
    using assms demo_lines(1)
    by (simp add: started_def w gpg_path_def home_config_def demo_world_inv wline_initial_inv results_initial_inv)
qed

theorem edit_run_leaves_no_trace_witness:
  "\<exists>s'. run_mdp (demo_lib (\<lambda>cmd w. (0, w)) (\<lambda>f args t w. Some (file_of [''ab''], Exited 0, w))) [''edit''] home_start = (Status 0, s')
    \<and> file_text (os s') = file_text (demo_world home_files) \<and> last (out (os s')) = Warning ''No changes, exiting...'' []"
proof -
  let ?L = "demo_lib (\<lambda>cmd w. (0, w)) (\<lambda>f args t w. Some (file_of [''ab''], Exited 0, w))"
  have L: "locale_found ?L" "lib_ok ?L = always" "lib_cm ?L = utf8" by (simp_all add: demo_lib_def)
  have "decrypts ?L ''/usr/bin/gpg'' (file_of [''ab''])" by (simp add: decrypts_def demo_lib_def)
  note st = home_started [OF this L(2,3)]
  have e: "edits ?L ''vi'' ''/h/.mdp/tmp_edit.aaaaaaaa'' [''ab''] [''ab'']"
    by (auto simp: edits_def demo_lib_def) (metis fun_upd_triv)
  have "os home_ready = demo_world home_files" by (simp add: home_ready_def home_start_def initial_state_def)
  with edit_run_leaves_no_trace [OF L(1) home_read_config [OF L(2)] st demo_clean_lines e] show ?thesis by simp
qed

text \<open>A GnuPG that puts a mark before the text.\<close>

definition mark_file :: "world \<Rightarrow> world" where
  "mark_file w = create ''/h/.mdp/tmp_edit.aaaaaaaa.gpg''
     (regular (''PGP'' @ (case file_text w ''/h/.mdp/tmp_edit.aaaaaaaa'' of None \<Rightarrow> [] | Some x \<Rightarrow> x))) w"

definition gpg_command :: string where
  "gpg_command = ''/usr/bin/gpg'' @ '' -r '' @ ''K'' @ '' -e '' @ ''/h/.mdp/tmp_edit.aaaaaaaa''"

lemma home_encrypts:
  assumes "\<And>w. system L gpg_command w = (0, mark_file w)"
  shows "encrypts_only L gpg_command ''/h/.mdp/tmp_edit.aaaaaaaa'' (\<lambda>x. ''PGP'' @ x)"
  unfolding encrypts_only_def
proof (intro allI impI)
  let ?tmp = "''/h/.mdp/tmp_edit.aaaaaaaa''"
  fix v m assume v: "faults v = [] \<and> world_inv v \<and> lookup v ?tmp = Some m"
  let ?n = "regular (''PGP'' @ contents m)"
  have f: "mark_file v = create (?tmp @ ''.gpg'') ?n v" using v by (simp add: mark_file_def file_text_def)
  have "lookup (mark_file v) = (lookup v)(?tmp @ ''.gpg'' := Some ?n)" unfolding f using v by (simp add: lookup_create)
  moreover have "faults (mark_file v) = []" unfolding f using v by (simp add: create_def)
  moreover have "world_inv (mark_file v)" unfolding f using v by (intro create_inv) simp
  ultimately show "\<exists>w' n. system L gpg_command v = (0, w') \<and> lookup w' = (lookup v)(?tmp @ ''.gpg'' := Some n)
        \<and> kind n = Reg \<and> contents n = ''PGP'' @ contents m \<and> faults w' = [] \<and> world_inv w'"
    using assms by (intro exI [of _ "mark_file v"] exI [of _ ?n]) (simp add: regular_def)
qed

lemma home_committing:
  assumes "\<And>w. system L gpg_command w = (0, mark_file w)" "os s = demo_world home_files" "cfg (conf s) = home_config"
  shows "committing L ''/usr/bin/gpg'' ''/h/.mdp/lock'' ''/h/.mdp/tmp_edit.aaaaaaaa'' ''/h/.mdp/passwords'' (\<lambda>x. ''PGP'' @ x) s"
  unfolding committing_def
proof (intro conjI)
  have "cfg_gpg_key_id (cfg (conf s)) = Some ''K''" by (simp add: assms(3) home_config_def)
  with home_encrypts [OF assms(1)] show "\<exists>key. cfg_gpg_key_id (cfg (conf s)) = Some key \<and> encrypts_only L
      (''/usr/bin/gpg'' @ '' -r '' @ key @ '' -e '' @ ''/h/.mdp/tmp_edit.aaaaaaaa'') ''/h/.mdp/tmp_edit.aaaaaaaa'' (\<lambda>x. ''PGP'' @ x)"
    unfolding gpg_command_def by blast
qed (simp_all add: password_file_def assms(2,3) home_config_def demo_lookup home_files_def, simp_all add: regular_def)

text \<open>An editor that writes another line.\<close>

definition home_tools :: "string \<Rightarrow> world \<Rightarrow> int \<times> world" where
  "home_tools cmd w =
    (if take 2 cmd = ''vi'' then (0, create ''/h/.mdp/tmp_edit.aaaaaaaa'' (regular (file_of [''cd''])) w)
     else if cmd = gpg_command then (0, mark_file w)
     else (0, w))"

theorem edit_run_commits_witness:
  "cksum (bytes (file_of [''cd''])) \<noteq> cksum (bytes (file_of [''ab''])) \<and>
   (\<exists>s'. run_mdp (demo_lib home_tools (\<lambda>f args t w. Some (file_of [''ab''], Exited 0, w))) [''edit''] home_start = (Status 0, s')
    \<and> file_text (os s') = (file_text (demo_world home_files))
        (''/h/.mdp/passwords.bak'' := Some ''OLD'', ''/h/.mdp/passwords'' := Some (''PGP'' @ file_of [''cd''])))"
proof -
  let ?L = "demo_lib home_tools (\<lambda>f args t w. Some (file_of [''ab''], Exited 0, w))"
  let ?tmp = "''/h/.mdp/tmp_edit.aaaaaaaa''"
  have L: "locale_found ?L" "lib_ok ?L = always" "lib_cm ?L = utf8" by (simp_all add: demo_lib_def)
  have "decrypts ?L ''/usr/bin/gpg'' (file_of [''ab''])" by (simp add: decrypts_def demo_lib_def home_tools_def gpg_command_def)
  note st = home_started [OF this L(2,3)]
  have w: "os home_ready = demo_world home_files" "cfg (conf home_ready) = home_config"
    by (simp_all add: home_ready_def home_start_def initial_state_def)
  have vi: "editor_command ''vi'' = ''vi''" by (simp add: editor_command_def editor_is_vim_def)
  have "trimmed ''ab'' = ''ab''" by (rule trimmed_clean [OF demo_clean])
  then have e: "edits ?L ''vi'' ?tmp (map trimmed [''ab'']) [''cd'']"
    by (auto simp: edits_def demo_lib_def home_tools_def vi lookup_create create_inv
        intro!: exI [of _ "regular (file_of [''cd''])"])
      (simp_all add: create_def regular_def)
  have "bytes (file_of [x]) = [] @ bytes x @ bytes [NL]" for x by (simp add: file_of_def bytes_def)
  moreover have "cksum ([] @ bytes ''cd'' @ bytes [NL]) \<noteq> cksum ([] @ bytes ''ab'' @ bytes [NL])"
    using cksum_detects_burst [of "bytes ''cd''" "bytes ''ab''" "[]" "bytes [NL]"] by (auto simp: bytes_def)
  ultimately have c: "cksum (bytes (file_of [''cd''])) \<noteq> cksum (bytes (file_of [''ab'']))" by metis
  have "system ?L gpg_command v = (0, mark_file v)" for v
    by (simp add: demo_lib_def home_tools_def) (simp add: gpg_command_def)
  note com = home_committing [OF this w]
  from edit_run_commits [OF L(1) home_read_config [OF L(2)] st e demo_lines(2) c com]
  have "\<exists>s'. run_mdp ?L [''edit''] home_start = (Status 0, s')
    \<and> file_text (os s') = (if cfg_backup (cfg (conf home_ready))
        then (file_text (os home_ready))(''/h/.mdp/passwords'' @ ''.bak'' := file_text (os home_ready) ''/h/.mdp/passwords'')
        else file_text (os home_ready))(''/h/.mdp/passwords'' := Some (''PGP'' @ file_of [''cd'']))" by blast
  then show ?thesis using c by (auto simp: w home_config_def config_initial_def file_text_def demo_lookup home_files_def regular_def)
qed

end
