(* ===== verification/AddRun.thy ===== *)
theory AddRun
  imports EditRun
begin

text \<open>
  A whole run of \<open>mdp add\<close>: the generated passwords become entries behind those of the password
  file, and a run in which the editor leaves the text alone commits the file with the new lines
  appended.
\<close>

section \<open>The lines of new entries\<close>

text \<open>The prefix and the password, separated by a tab.\<close>

definition new_wide :: "wchar list option \<Rightarrow> wchar list \<Rightarrow> wchar list" where
  "new_wide pfx pw = (case pfx of None \<Rightarrow> pw | Some p \<Rightarrow> p @ 9 # pw)"

definition new_line :: "wchar list option \<Rightarrow> wchar list \<Rightarrow> string" where
  "new_line pfx pw = map (\<lambda>c. char_of (unat c)) (new_wide pfx pw)"

text \<open>Characters from \<open>lo\<close> to the end of ASCII.\<close>

definition ascii_from :: "nat \<Rightarrow> wchar list \<Rightarrow> bool" where
  "ascii_from lo ws \<longleftrightarrow> (\<forall>c\<in>set ws. lo \<le> unat c \<and> unat c < 127)"

definition fitting_prefix :: "wchar list option \<Rightarrow> bool" where
  "fitting_prefix pfx \<longleftrightarrow> (\<forall>p. pfx = Some p \<longrightarrow> ascii_from 32 p \<and> length p \<le> 4096)"

lemma ascii_encode: "ascii_from 1 ws \<Longrightarrow> encode utf8 ws = Some (map (\<lambda>c. char_of (unat c)) ws)"
  by (induction ws) (simp_all add: ascii_from_def utf8_def utf8_wctomb_def Let_def)

lemma new_line_props:
  assumes "fitting_prefix pfx" "ascii_from 33 pw" "pw \<noteq> []" "length pw \<le> 256"
  shows "encode utf8 (new_wide pfx pw) = Some (new_line pfx pw)" "decode utf8 (new_line pfx pw) = Some (new_wide pfx pw)"
    "0 \<notin> set (new_wide pfx pw)" "NUL \<notin> set (new_line pfx pw)" "NL \<notin> set (new_line pfx pw)"
    "length (new_line pfx pw) \<le> 4353" "strip_right is_wspace (new_wide pfx pw) = new_wide pfx pw"
proof -
  let ?v = "new_wide pfx pw"
  have c: "9 \<le> unat c \<and> unat c < 127 \<and> unat c \<noteq> 10" if "c \<in> set ?v" for c
    using assms(1,2) that by (fastforce simp: new_wide_def fitting_prefix_def ascii_from_def split: option.splits)
  have "ascii_from 1 ?v" using c by (fastforce simp: ascii_from_def)
  from ascii_encode [OF this] show e: "encode utf8 ?v = Some (new_line pfx pw)" by (simp add: new_line_def)
  show "decode utf8 (new_line pfx pw) = Some ?v" using utf8.decode_encode [OF e, of "[]"] by simp
  show "0 \<notin> set ?v" using c [of 0] by auto
  show "NUL \<notin> set (new_line pfx pw)" using c by (fastforce simp: new_line_def NUL_eq_char_of)
  show "NL \<notin> set (new_line pfx pw)"
  proof
    assume "NL \<in> set (new_line pfx pw)"
    then obtain x where x: "x \<in> set ?v" "char_of (unat x) = NL" by (auto simp: new_line_def)
    have "(of_char (char_of (unat x) :: char) :: nat) = unat x" using c [OF x(1)] by simp
    then show False using x(2) c [OF x(1)] by (simp add: NL_def)
  qed
  show "length (new_line pfx pw) \<le> 4353"
    using assms(1,4) by (auto simp: new_line_def new_wide_def fitting_prefix_def split: option.split)
  have l: "last ?v = last pw" "?v \<noteq> []" using assms(3) by (auto simp: new_wide_def split: option.split)
  have "33 \<le> unat (last pw)" using assms(2,3) by (simp add: ascii_from_def)
  then have "\<not> is_wspace (last ?v)" unfolding l(1) by (auto simp: is_wspace_def WCS_WHITESPACE_def)
  then show "strip_right is_wspace ?v = ?v" using l(2) by (simp add: strip_right_id)
qed

text \<open>The entry of a new line is the one that loading it would make.\<close>

lemma new_entry:
  assumes "fitting_prefix pfx" "ascii_from 33 pw" "pw \<noteq> []" "length pw \<le> 256"
  shows "result_new always junk utf8 (new_wide pfx pw) = Inr (Some (line_entry utf8 (new_line pfx pw @ [NL])))"
proof -
  note p = new_line_props [OF assms]
  have "decode utf8 (new_line pfx pw @ [NL]) = Some (new_wide pfx pw @ [10])"
    using utf8.decode_NL [OF utf8_NL p(2)] .
  moreover have "is_wspace 10" by (simp add: is_wspace_def WCS_WHITESPACE_def)
  then have "strip_right is_wspace (new_wide pfx pw @ [10]) = new_wide pfx pw"
    using p(7) strip_right_snoc [of is_wspace "new_wide pfx pw" 10] by simp
  ultimately have "line_entry utf8 (new_line pfx pw @ [NL]) = entry (new_wide pfx pw) (new_line pfx pw)"
    using p(1) by (simp add: line_entry_def)
  then show ?thesis using result_new_ok [OF p(1,3,4)] p(6) by simp
qed

section \<open>Adding the entries\<close>

lemma to_results_loop_ok:
  assumes "serves uniform" "good_profile o' profile cset" "ascii_from 33 cset" "fitting_prefix pfx"
  shows "carr_inv rs \<Longrightarrow> length (carr_list rs) + k < 2 ^ 32 \<Longrightarrow>
    \<exists>pws rs' s'. to_results_loop always junk utf8 uniform o' profile pfx k rs s = Some (Inr (rs', s'))
    \<and> length pws = k \<and> (\<forall>pw\<in>set pws. good_password o' profile cset pw) \<and> carr_inv rs'
    \<and> carr_list rs' = carr_list rs @ map (\<lambda>pw. line_entry utf8 (new_line pfx pw @ [NL])) pws"
proof (induction k arbitrary: rs s)
  case 0
  then show ?case by auto
next
  case (Suc k)
  obtain pw s1 where g: "profile_generate_password always uniform o' profile s = Some (Inr (pw, s1))"
      "good_password o' profile cset (cstr 0 pw)"
    using profile_generate_ok [OF assms(1), of profile cset o' s] assms(2)
    by (auto simp: good_profile_def good_password_def)
  let ?pw = "cstr 0 pw"
  let ?e = "line_entry utf8 (new_line pfx ?pw @ [NL])"
  have pw: "ascii_from 33 ?pw" "?pw \<noteq> []" "length ?pw \<le> 256"
    using g(2) assms(2,3) by (auto simp: good_password_def good_profile_def ascii_from_def)
  have r: "(case pfx of None \<Rightarrow> result_new always junk utf8 ?pw
      | Some pfx \<Rightarrow> ebind (wcsjoin always 9 pfx ?pw) (\<lambda>line. result_new always junk utf8 line)) = Inr (Some ?e)"
    using new_entry [OF assms(4) pw] assms(4) pw(3)
    by (cases pfx) (simp_all add: new_wide_def wcsjoin_ok fitting_prefix_def)
  obtain rs1 where a: "ARRAY_ADD always rs ?e = Inr rs1"
    using carr.add_total [OF Suc.prems(1)] Suc.prems(2) by fastforce
  have rs1: "carr_inv rs1" "carr_list rs1 = carr_list rs @ [?e]"
    using carr.add_inv [OF Suc.prems(1) a] carr.add_abs [OF Suc.prems(1) a] by auto
  obtain pws rs' s' where "to_results_loop always junk utf8 uniform o' profile pfx k rs1 s1 = Some (Inr (rs', s'))"
      "length pws = k" "\<forall>pw\<in>set pws. good_password o' profile cset pw" "carr_inv rs'"
      "carr_list rs' = carr_list rs1 @ map (\<lambda>pw. line_entry utf8 (new_line pfx pw @ [NL])) pws"
    using Suc.IH [OF rs1(1), of s1] Suc.prems(2) rs1(2) by auto
  then show ?case using g r a rs1(2) by (intro exI [of _ "?pw # pws"] exI [of _ rs'] exI [of _ s']) auto
qed

lemma good_password_line:
  assumes "good_profile o' profile cset" "ascii_from 33 cset" "good_password o' profile cset pw"
  shows "ascii_from 33 pw" "pw \<noteq> []" "length pw \<le> 256"
  using assms by (auto simp: good_password_def good_profile_def ascii_from_def)

lemma good_lines_append:
  assumes "good_lines ls" "length ls + length news < 2 ^ 31" "length (file_of ls) < 2 ^ 62"
    and "\<forall>x\<in>set news. NUL \<notin> set x \<and> NL \<notin> set x \<and> length x \<le> 4353 \<and> decode utf8 x \<noteq> None"
  shows "good_lines (ls @ news)"
proof -
  have "length (file_of news) \<le> 4354 * length news"
    using assms(4) by (induction news) (auto simp: file_of_def)
  then have "length (file_of (ls @ news)) < 2 ^ 63" using assms(2,3) by (simp add: file_of_def)
  moreover have "length x + 1 < MAX_LINE_SIZE" if "x \<in> set news" for x
    using assms(4) that by (fastforce simp: MAX_LINE_SIZE_def)
  ultimately show ?thesis using assms by (auto simp: good_lines_def)
qed

text \<open>What a run of \<open>add\<close> needs beside the tools.\<close>

definition adding :: "('r, 'p) lib \<Rightarrow> wchar list \<Rightarrow> string list \<Rightarrow> 'r mdp \<Rightarrow> bool" where
  "adding L cset ls s \<longleftrightarrow>
     serves (lib_uniform L) \<and> cmd_profile_name (opts s) = None
     \<and> good_profile (opts s) (default_profile (cfg (conf s))) cset \<and> cfg_character_set (cfg (conf s)) \<in> {None, Some cset}
     \<and> ascii_from 33 cset \<and> fitting_prefix (cmd_add_prefix (opts s))
     \<and> length ls + unat (profile_get_password_count (opts s) (default_profile (cfg (conf s)))) < 2 ^ 31
     \<and> length (file_of ls) < 2 ^ 62"

lemma started_other_registry:
  "started L path l tmp ed ls s \<Longrightarrow> started L path l tmp ed ls (s\<lparr>conf := (conf s)\<lparr>reg := r\<rparr>\<rparr>)"
  by (simp add: started_def configured_def quiet_def gpg_path_def password_file_def)

lemma add_passwords_calls:
  assumes "lib_ok L = always" "lib_cm L = utf8" "adding L cset ls s" "loaded ls (results s)"
    and p: "p = default_profile (cfg (conf s))" and pfx: "pfx = cmd_add_prefix (opts s)"
  shows "\<exists>pws rs g. add_passwords L p s = (Inr (), s\<lparr>results := rs, rng := g\<rparr>)
    \<and> length pws = unat (profile_get_password_count (opts s) p) \<and> (\<forall>pw\<in>set pws. good_password (opts s) p cset pw)
    \<and> loaded (ls @ map (new_line pfx) pws) rs"
proof -
  let ?k = "unat (profile_get_password_count (opts s) p)"
  have a: "serves (lib_uniform L)" "good_profile (opts s) p cset" "ascii_from 33 cset" "fitting_prefix pfx"
    using assms(3) p pfx by (simp_all add: adding_def)
  have l: "carr_inv (results s)" "carr_list (results s) = map (\<lambda>x. line_entry utf8 (x @ [NL])) ls"
    using assms(4) by (simp_all add: loaded_def)
  have "length ls + ?k < 2 ^ 31" using assms(3) p by (simp add: adding_def)
  then have "length (carr_list (results s)) + ?k < 2 ^ 32" using l(2) by simp
  from to_results_loop_ok [OF a l(1) this, of "lib_junk L" "rng s"]
  obtain pws rs g where r: "to_results_loop always (lib_junk L) utf8 (lib_uniform L) (opts s) p pfx ?k (results s) (rng s)
        = Some (Inr (rs, g))" "length pws = ?k" "\<forall>pw\<in>set pws. good_password (opts s) p cset pw" "carr_inv rs"
      "carr_list rs = carr_list (results s) @ map (\<lambda>pw. line_entry utf8 (new_line pfx pw @ [NL])) pws"
    by blast
  have "add_passwords L p s = (Inr (), s\<lparr>results := rs, rng := g\<rparr>)"
    using assms(1,2) r(1) pfx by (simp add: add_passwords_def profile_passwords_to_results_def lift_opt_def ebind_simps)
  moreover have "loaded (ls @ map (new_line pfx) pws) rs" using r(4,5) l(2) by (simp add: loaded_def o_def)
  ultimately show ?thesis using r(2,3) by blast
qed

lemma mdp_add_begins:
  assumes "started L path l tmp ed ls s" "adding L cset ls s"
    and p: "p = default_profile (cfg (conf s))" and pfx: "pfx = cmd_add_prefix (opts s)"
  shows "\<exists>pws s1. mdp_add L s = edit_results L s1
    \<and> length pws = unat (profile_get_password_count (opts s) p) \<and> (\<forall>pw\<in>set pws. good_password (opts s) p cset pw)
    \<and> cksum (bytes (file_of ls)) = Some (result_crc32 s1) \<and> ready (ls @ map (new_line pfx) pws) s1
    \<and> os s1 = os (locked l s) \<and> editor_tmp_path s1 = editor_tmp_path s \<and> lock_path s1 = Some l
    \<and> atexit_registered s1 \<and> \<not> screen s1 \<and> cfg (conf s1) = cfg (conf s)"
proof -
  have L: "lib_ok L = always" "lib_cm L = utf8" "\<not> debug_enabled s" "good_lines ls" "lock_path s = Some l" "\<not> screen s"
    using assms(1) by (simp_all add: started_def configured_def quiet_def)
  have n: "cmd_profile_name (opts s) = None" and cs: "cfg_character_set (cfg (conf s)) \<in> {None, Some cset}"
    and g: "good_profile (opts s) p cset" and a3: "ascii_from 33 cset" "fitting_prefix pfx"
    using assms(2) p pfx by (simp_all add: adding_def)
  have "0 \<notin> set c" if "cfg_character_set (cfg (conf s)) = Some c" for c
    using cs g that by (auto simp: good_profile_def)
  from chosen_default [OF L(1) n this] obtain r where
    c: "chosen_profile L s = (Inr p, s\<lparr>conf := (conf s)\<lparr>reg := r\<rparr>\<rparr>)" using p by blast
  let ?s = "s\<lparr>conf := (conf s)\<lparr>reg := r\<rparr>\<rparr>"
  obtain k c wl rs where b: "open_session L ?s = (Inr k, (locked l ?s)\<lparr>result_crc32 := c, wline := wl, results := rs\<rparr>)"
      "cksum (bytes (file_of ls)) = Some c" "ready ls ((locked l ?s)\<lparr>result_crc32 := c, wline := wl, results := rs\<rparr>)"
    using open_session_calls [OF started_other_registry [OF assms(1), of r]] by blast
  let ?s1 = "(locked l ?s)\<lparr>result_crc32 := c, wline := wl, results := rs\<rparr>"
  have "adding L cset ls ?s1" using assms(2) by (simp add: adding_def locked_def)
  moreover have "loaded ls (results ?s1)" using b(3) by (simp add: ready_def)
  ultimately obtain pws rs' g' where w: "add_passwords L p ?s1 = (Inr (), ?s1\<lparr>results := rs', rng := g'\<rparr>)"
      "length pws = unat (profile_get_password_count (opts s) p)" "\<forall>pw\<in>set pws. good_password (opts s) p cset pw"
      "loaded (ls @ map (new_line pfx) pws) rs'"
    using add_passwords_calls [OF L(1,2), of cset ls ?s1 p pfx] p pfx by (auto simp: locked_def)
  let ?s2 = "?s1\<lparr>results := rs', rng := g'\<rparr>"
  have "mdp_add L = bnd (debug ''mdp_add()'' []) (\<lambda>_. bnd (chosen_profile L) (\<lambda>profile.
      bnd (open_session L) (\<lambda>_. bnd (add_passwords L profile) (\<lambda>_. edit_results L))))"
    unfolding mdp_add_def open_session_def bnd_assoc ..
  then have "mdp_add L s = edit_results L ?s2" using c b(1) w(1) L(3) by (simp add: ebind_simps calls)
  moreover have "good_lines (ls @ map (new_line pfx) pws)"
  proof (rule good_lines_append [OF L(4)])
    show "length ls + length (map (new_line pfx) pws) < 2 ^ 31" "length (file_of ls) < 2 ^ 62"
      using assms(2) w(2) p by (simp_all add: adding_def)
    show "\<forall>x\<in>set (map (new_line pfx) pws). NUL \<notin> set x \<and> NL \<notin> set x \<and> length x \<le> 4353 \<and> decode utf8 x \<noteq> None"
      using w(3) new_line_props [OF a3(2) good_password_line [OF g a3(1)]] by auto
  qed
  then have "ready (ls @ map (new_line pfx) pws) ?s2" using b(3) w(4) by (simp add: ready_def quiet_def)
  ultimately show ?thesis using w(2,3) b(2) L(5,6) by (intro exI [of _ pws] exI [of _ ?s2]) (simp add: locked_def)
qed

section \<open>Runs\<close>

lemma run_add:
  assumes "locale_found L" "read_config L s0 = (Inr (), s1)" "cmd_parse_add L args s1 = (Inr (), s)"
    and "mdp_add L s = (Inr (), s')" "\<not> debug_enabled s'"
  shows "run_mdp L (''add'' # args) s0 = finish (Inr exit_success, s')"
  using assms by (simp add: run_mdp_def mdp_main_def cmd_parse_core_def which_command_def command_match_def
      run_command_def Let_def ebind_simps calls)

text \<open>\<open>mdp_add\<close> up to the decision whether to encrypt: the editor leaves the new entries as they are.\<close>

lemma mdp_add_decides:
  assumes "started L path l tmp ed ls s" "adding L cset ls s" "\<And>shown. edits L ed tmp shown shown"
    and "\<forall>x\<in>set ls. strip_right is_wspace (the (decode utf8 x)) = the (decode utf8 x)"
    and p: "p = default_profile (cfg (conf s))"
  shows "\<exists>pws s3. mdp_add L s =
      (if cksum (bytes (file_of (ls @ map (new_line (cmd_add_prefix (opts s))) pws))) \<noteq> cksum (bytes (file_of ls))
       then gpg_encrypt L tmp else print (Warning ''No changes, exiting...'' [])) s3
    \<and> decided l tmp (os s) (cfg (conf s)) (ls @ map (new_line (cmd_add_prefix (opts s))) pws) s3
    \<and> length pws = unat (profile_get_password_count (opts s) p)
    \<and> (\<forall>x\<in>set pws. length x = unat (requested (opts s) p) \<and> set x \<subseteq> set cset)"
proof -
  let ?pfx = "cmd_add_prefix (opts s)"
  have L: "lib_ok L = always" "lib_cm L = utf8" "good_lines ls"
    using assms(1) by (simp_all add: started_def)
  have g: "good_profile (opts s) p cset" "ascii_from 33 cset" "fitting_prefix ?pfx"
    using assms(2) p by (simp_all add: adding_def)
  obtain t where t: "editor_tmp_path s = Some t" "next_name t (os s) tmp" using assms(1) by (auto simp: started_def)
  obtain pws s2 where a: "mdp_add L s = edit_results L s2" "length pws = unat (profile_get_password_count (opts s) p)"
      "\<forall>x\<in>set pws. good_password (opts s) p cset x" "cksum (bytes (file_of ls)) = Some (result_crc32 s2)"
      "ready (ls @ map (new_line ?pfx) pws) s2" "os s2 = os (locked l s)" "editor_tmp_path s2 = editor_tmp_path s"
      "lock_path s2 = Some l" "atexit_registered s2" "\<not> screen s2" "cfg (conf s2) = cfg (conf s)"
    using mdp_add_begins [OF assms(1,2) p refl] by blast
  let ?ls = "ls @ map (new_line ?pfx) pws"
  have "trimmed x = x" if "x \<in> set ls" for x
    using that L(3) assms(4) by (auto simp: good_lines_def intro!: trimmed_clean)
  moreover have "trimmed (new_line ?pfx x) = new_line ?pfx x" if "x \<in> set pws" for x
    using new_line_props [OF g(3) good_password_line [OF g(1,2)]] a(3) that by (intro trimmed_clean) auto
  ultimately have "trimmed x = x" if "x \<in> set ?ls" for x using that by auto
  then have "map trimmed ?ls = ?ls" by (rule map_idI)
  then have e: "edits L ed tmp (map trimmed ?ls) ?ls" using assms(3) by (simp only:)
  have gl: "good_lines ?ls" using a(5) by (simp add: ready_def)
  obtain s3 where "edit_results L s2 = (if cksum (bytes (file_of ?ls)) \<noteq> Some (result_crc32 s2) then gpg_encrypt L tmp
        else print (Warning ''No changes, exiting...'' [])) s3"
      "decided l tmp (os s) (cfg (conf s2)) ?ls s3"
    using edit_decides [OF L(1,2) a(5) _ _ _ e gl, where t = t and l = l and w = "os s"] a(6-11) t(1)
      locked_ready [OF assms(1) t] by auto
  then show ?thesis using a(1-4,11) by (intro exI [of _ pws] exI [of _ s3]) (simp add: good_password_def)
qed

text \<open>Both ways to go on from there end the program with status 0.\<close>

lemma decision_finishes:
  assumes "started L path l tmp ed ls s" "committing L path l tmp pw E s"
    and "decided l tmp (os s) (cfg (conf s)) ls' s3"
  shows "\<exists>s4 s'. (if b then gpg_encrypt L tmp else print (Warning ''No changes, exiting...'' [])) s3 = (Inr (), s4)
    \<and> \<not> debug_enabled s4 \<and> finish (Inr 0, s4) = (Status 0, s')
    \<and> (if b then committed s pw E (file_of ls') s' else file_text (os s') = file_text (os s))"
proof -
  have "tmp \<noteq> l" "gpg_path s = Some path" "lib_ok L = always" using assms(1) by (simp_all add: started_def)
  then show ?thesis
    using unchanged_finish [OF assms(3) _ started_free [OF assms(1)]]
      encrypt_and_finish [OF _ assms(2) _ started_free [OF assms(1)] assms(3)] by (cases b) auto
qed

text \<open>C2. A run of \<open>mdp add\<close> in which the editor leaves the text alone appends the generated passwords to
  the password file: as many lines as asked for, each the prefix, a tab and a password of the length
  and the characters asked for, behind the lines that were there, byte for byte. The file is written
  unless the checksum of the longer file happens to be the old one; then, and only then, the new
  passwords are lost. In both cases the run ends with status 0 and leaves nothing else behind.\<close>

theorem add_run_appends:
  assumes "locale_found L" "read_config L s0 = (Inr (), s1)" "cmd_parse_add L args s1 = (Inr (), s)"
    and "started L path l tmp ed ls s" "adding L cset ls s" "committing L path l tmp pw E s"
    and "\<forall>x\<in>set ls. strip_right is_wspace (the (decode utf8 x)) = the (decode utf8 x)"
    and "\<And>shown. edits L ed tmp shown shown"
    and p: "p = default_profile (cfg (conf s))"
  shows "\<exists>pws s' new. length pws = unat (profile_get_password_count (opts s) p)
    \<and> (\<forall>x\<in>set pws. length x = unat (requested (opts s) p) \<and> set x \<subseteq> set cset)
    \<and> new = file_of (ls @ map (new_line (cmd_add_prefix (opts s))) pws)
    \<and> run_mdp L (''add'' # args) s0 = (Status 0, s')
    \<and> (if cksum (bytes new) = cksum (bytes (file_of ls)) then file_text (os s') = file_text (os s)
       else committed s pw E new s')"
proof -
  let ?ls = "\<lambda>pws. ls @ map (new_line (cmd_add_prefix (opts s))) pws"
  obtain pws s3 where m: "mdp_add L s = (if cksum (bytes (file_of (?ls pws))) \<noteq> cksum (bytes (file_of ls))
       then gpg_encrypt L tmp else print (Warning ''No changes, exiting...'' [])) s3"
      "decided l tmp (os s) (cfg (conf s)) (?ls pws) s3"
      "length pws = unat (profile_get_password_count (opts s) p)"
      "\<forall>x\<in>set pws. length x = unat (requested (opts s) p) \<and> set x \<subseteq> set cset"
    using mdp_add_decides [OF assms(4,5,8,7) p] by blast
  let ?b = "cksum (bytes (file_of (?ls pws))) \<noteq> cksum (bytes (file_of ls))"
  from decision_finishes [OF assms(4,6) m(2)] obtain s4 s' where
    r: "(if ?b then gpg_encrypt L tmp else print (Warning ''No changes, exiting...'' [])) s3 = (Inr (), s4)"
      "\<not> debug_enabled s4" "finish (Inr 0, s4) = (Status 0, s')"
      "if ?b then committed s pw E (file_of (?ls pws)) s' else file_text (os s') = file_text (os s)" by blast
  have "run_mdp L (''add'' # args) s0 = (Status 0, s')"
    using run_add [OF assms(1-3) m(1) [unfolded r(1)] r(2)] r(3) by (simp add: exit_success_def)
  then show ?thesis using m(3,4) r(4)
    by (intro exI [of _ pws] exI [of _ s'] exI [of _ "file_of (?ls pws)"]) (simp split: if_splits)
qed

section \<open>A concrete run\<close>

definition add_ready :: "nat mdp" where
  "add_ready = home_ready\<lparr>opts := (opts home_ready)\<lparr>cmd_add_prefix := Some [119, 101, 98]\<rparr>\<rparr>"

text \<open>Operands without options: the prefix is the words with blanks between them.\<close>

lemma getopt_operands: "\<forall>w\<in>set ws. w \<noteq> [] \<and> hd w \<noteq> CHR ''-'' \<Longrightarrow> getopt spec ws = ([], ws)"
  by (induction ws) auto

lemma parse_add_words:
  assumes "lib_ok L = always" "lib_cm L = utf8" "ws \<noteq> []"
    and "\<forall>w\<in>set ws. w \<noteq> [] \<and> hd w \<noteq> CHR ''-'' \<and> NUL \<notin> set w"
    and "decode utf8 (intercalate CHR '' '' ws) = Some p" "length ws + length (intercalate CHR '' '' ws) < 2 ^ 60"
  shows "cmd_parse_add L ws s = (Inr (), s\<lparr>opts := (opts s)\<lparr>cmd_add_prefix := Some p\<rparr>\<rparr>)"
proof -
  have n: "\<forall>w\<in>set ws. NUL \<notin> set w" using assms(4) by simp
  obtain b where b: "join_list always (lib_junk L) CHR '' '' ws = Inr (Some b)" "cstr NUL b = intercalate CHR '' '' ws"
    using join_list_correct [OF assms(3) n, of "CHR '' ''" always "lib_junk L"] assms(6) by auto
  have "length p \<le> length (intercalate CHR '' '' ws)" by (rule utf8.decode_length [OF assms(5)])
  then have d: "mbs_duplicate_as_wcs always utf8 (intercalate CHR '' '' ws) = Inr (Some (p @ [0]))"
    using assms(6) by (intro mbs_duplicate_ok [OF assms(5)]) auto
  have "NUL \<notin> set (intercalate CHR '' '' ws)"
    using n by (induction ws rule: induct_list012) auto
  then have "0 \<notin> set p" using utf8.decode_nul_free [OF assms(5)] by simp
  then have "cstr 0 (p @ [0]) = p" by simp
  moreover have "getopt spec ws = ([], ws)" for spec by (rule getopt_operands) (use assms(4) in auto)
  ultimately show ?thesis
    using assms(1-3) b d by (simp add: cmd_parse_add_def set_opts_def calls(5) ebind_simps)
qed

text \<open>An editor that leaves its file alone.\<close>

definition keep_tools :: "string \<Rightarrow> world \<Rightarrow> int \<times> world" where
  "keep_tools cmd w = (if cmd = gpg_command then (0, mark_file w) else (0, w))"

lemma alphanumeric_ascii: "ascii_from 33 CHARSET_ALPHANUMERIC"
  by (simp add: ascii_from_def CHARSET_ALPHANUMERIC_def CHARSET_ALPHA_def CHARSET_LOWERCASE_def CHARSET_UPPERCASE_def
      CHARSET_DIGITS_def wcs_def)

theorem add_run_appends_witness:
  "\<exists>pws s' new. length pws = 4 \<and> (\<forall>x\<in>set pws. length x = 16 \<and> set x \<subseteq> set CHARSET_ALPHANUMERIC)
    \<and> new = file_of ([''ab''] @ map (new_line (Some [119, 101, 98])) pws)
    \<and> run_mdp (demo_lib keep_tools (\<lambda>f args t w. Some (file_of [''ab''], Exited 0, w))) (''add'' # [''web'']) home_start = (Status 0, s')
    \<and> (if cksum (bytes new) = cksum (bytes (file_of [''ab''])) then file_text (os s') = file_text (demo_world home_files)
       else committed add_ready ''/h/.mdp/passwords'' (\<lambda>x. ''PGP'' @ x) new s')"
proof -
  let ?L = "demo_lib keep_tools (\<lambda>f args t w. Some (file_of [''ab''], Exited 0, w))"
  have L: "locale_found ?L" "lib_ok ?L = always" "lib_cm ?L = utf8" "serves (lib_uniform ?L)"
    by (simp_all add: demo_lib_def counter_source_serves)
  have w: "os add_ready = demo_world home_files" "cfg (conf add_ready) = home_config"
      "opts add_ready = options_initial\<lparr>cmd_config_path := Some ''/h/.mdp/config'', cmd_add_prefix := Some [119, 101, 98]\<rparr>"
    by (simp_all add: add_ready_def home_ready_def home_start_def initial_state_def)
  have p: "cmd_parse_add ?L [''web''] home_ready = (Inr (), add_ready)"
    unfolding add_ready_def by (rule parse_add_words [OF L(2,3)]) (simp_all add: utf8_def utf8_mbtowc_def)
  have sys: "system ?L gpg_command v = (0, mark_file v)" for v by (simp add: demo_lib_def keep_tools_def)
  have "decrypts ?L ''/usr/bin/gpg'' (file_of [''ab''])" by (simp add: decrypts_def demo_lib_def keep_tools_def gpg_command_def)
  from home_started [OF this L(2,3)]
  have st: "started ?L ''/usr/bin/gpg'' ''/h/.mdp/lock'' ''/h/.mdp/tmp_edit.aaaaaaaa'' ''vi'' [''ab''] add_ready"
    by (simp add: add_ready_def started_def configured_def quiet_def gpg_path_def password_file_def)
  have vi: "editor_command ''vi'' = ''vi''" by (simp add: editor_command_def editor_is_vim_def)
  have e: "edits ?L ''vi'' ''/h/.mdp/tmp_edit.aaaaaaaa'' shown shown" for shown
    by (auto simp: edits_def demo_lib_def keep_tools_def gpg_command_def vi) (metis fun_upd_triv)
  have "good_profile (opts add_ready) (default_profile (cfg (conf add_ready))) CHARSET_ALPHANUMERIC"
    by (rule default_good) (simp_all add: w home_config_def config_initial_def options_initial_def)
  then have a: "adding ?L CHARSET_ALPHANUMERIC [''ab''] add_ready"
    using L(4) alphanumeric_ascii
    by (simp add: adding_def w fitting_prefix_def ascii_from_def home_config_def config_initial_def options_initial_def
        profile_get_password_count_def default_profile_def DEFAULT_PASSWORD_COUNT_def file_of_def)
  have spec: "requested (opts add_ready) (default_profile (cfg (conf add_ready))) = 16"
      "profile_get_password_count (opts add_ready) (default_profile (cfg (conf add_ready))) = 4"
      "cmd_add_prefix (opts add_ready) = Some [119, 101, 98]"
    by (simp_all add: w home_config_def config_initial_def options_initial_def requested_def default_profile_def
        profile_get_password_count_def DEFAULT_PASSWORD_COUNT_def DEFAULT_CHARACTER_COUNT_def)
  have n: "unat (16 :: u32) = 16" "unat (4 :: u32) = 4" by simp_all
  note r = add_run_appends [OF L(1) home_read_config [OF L(2)] p st a home_committing [OF sys w(1,2)] demo_clean_lines e refl]
  show ?thesis by (rule r [unfolded spec w(1) n])
qed

end
