(* ===== verification/Invariants.thy ===== *)
theory Invariants
  imports Mdp
begin

text \<open>
  What the operating system keeps, the program keeps: the lemmas of the locales \<open>frame_checks\<close>,
  \<open>frame_guards\<close>, \<open>checks_invariant\<close> and \<open>os_invariant\<close> for the command line, the configuration, the pager and
  the commands, up to a whole run.
\<close>

section \<open>The command line and the configuration\<close>

lemma deprecated_inv [act_inv_intros]: "act_inv P (deprecated c)"
  unfolding deprecated_def by (intro act_inv_intros)

lemma each_opt_inv [act_inv_intros]: "(\<And>c a. act_inv P (h c a)) \<Longrightarrow> act_inv P (each_opt h os')"
  by (induction h os' rule: each_opt.induct) (auto intro!: act_inv_intros)

lemmas parse_defs = cmd_parse_core_def cmd_parse_add_def cmd_parse_edit_def cmd_parse_generate_def
  cmd_parse_get_def cmd_parse_prompt_def

context frame_checks
begin

lemma set_opts_inv [act_inv_intros]: "act_inv (framed f) (set_opts g)"
  unfolding set_opts_def by (rule framed_modify) simp

lemma print_lines_inv [act_inv_intros]: "act_inv (framed f) (print_lines ls)"
  by (induction ls) (auto intro!: act_inv_intros)

lemma usage_inv [act_inv_intros]: "act_inv (framed f) (usage msg status)"
  unfolding usage_def by (intro act_inv_intros)

lemma printw_lines_inv [act_inv_intros]: "act_inv (framed f) (printw_lines ls)"
  by (induction ls) (auto intro!: act_inv_intros)

lemma cmd_usage_core_inv [act_inv_intros]: "act_inv (framed f) cmd_usage_core"
  unfolding cmd_usage_core_def by (intro act_inv_intros)

lemma core_opt_inv [act_inv_intros]: "act_inv (framed f) (core_opt L c arg)"
  unfolding core_opt_def cmd_usage_core_with_commands_def
  by (intro act_inv_intros framed_modify) simp

lemma parse_inv [act_inv_intros]:
  "act_inv (framed f) (cmd_parse_core L args)" "act_inv (framed f) (cmd_parse_add L args)"
  "act_inv (framed f) (cmd_parse_edit L args)" "act_inv (framed f) (cmd_parse_generate L args)"
  "act_inv (framed f) (cmd_parse_get L args)" "act_inv (framed f) (cmd_parse_prompt L args)"
  unfolding parse_defs Let_def
  by (intro act_inv_intros framed_modify; simp)+

lemma chosen_profile_inv [act_inv_intros]: "act_inv (framed f) (chosen_profile L)"
  by (auto simp: act_inv_def chosen_profile_def ebind_simps split: option.split prod.split sum.split)

lemma add_passwords_inv [act_inv_intros]: "act_inv (framed f) (add_passwords L p)"
  unfolding add_passwords_def by (intro act_inv_intros framed_modify; simp)

lemma mdp_generate_inv [act_inv_intros]: "act_inv (framed f) (mdp_generate L)"
  unfolding mdp_generate_def by (intro act_inv_intros framed_modify; simp)

end

context frame_free
begin

lemma do_config_read_inv [act_inv_intros]: "act_inv (framed f) (do_config_read L p)"
  unfolding do_config_read_def by (intro act_inv_intros keeps_intros act_inv_modify) (auto intro: frame_any)

lemma do_set_defaults_inv [act_inv_intros]: "act_inv (framed f) (do_set_defaults L d)"
  unfolding do_set_defaults_def by (intro act_inv_intros keeps_intros act_inv_modify) (auto intro: frame_any)

lemma read_config_inv [act_inv_intros]: "act_inv (framed f) (read_config L)"
  unfolding read_config_def Let_def by (intro act_inv_intros)

end

section \<open>The commands\<close>

context frame_reads
begin

lemma queries_keep:
  assumes "\<And>l t c b. tame (\<lambda>w. f w l t c b) L" "exits_keep TYPE('r) f"
  shows "act_inv (framed f) (mdp_get L :: ('r mdp, unit) act)" "act_inv (framed f) (mdp_prompt L :: ('r mdp, unit) act)"
  unfolding mdp_get_def mdp_prompt_def using assms by (intro act_inv_intros load_results_gpg_keeps; simp)+

end

context frame_guards
begin

lemma setup_inv [act_inv_intros]: "act_inv (framed f) setup_signals_and_atexit"
  unfolding setup_signals_and_atexit_def by (intro act_inv_intros keeps_intros act_inv_modify) (auto intro: frame_exit)

lemma queries_inv [act_inv_intros]:
  assumes "\<And>l t c b. tame (\<lambda>w. f w l t c b) L"
  shows "act_inv (framed f) (mdp_get L)" "act_inv (framed f) (mdp_prompt L)"
  by (rule queries_keep [OF assms guarded_exits])+

lemma finish_inv: "framed f (snd rs) \<Longrightarrow> framed f (snd (finish rs))"
proof -
  assume a: "framed f (snd rs)"
  obtain r s where rs: "rs = (r, s)" by fastforce
  have "framed f (s\<lparr>atexit_registered := False\<rparr>)" using a rs by (auto intro: frame_exit)
  then have "framed f (snd (atexit_cleanup (s\<lparr>atexit_registered := False\<rparr>)))"
    using atexit_cleanup_inv [unfolded act_inv_def, rule_format, of "s\<lparr>atexit_registered := False\<rparr>"] by blast
  then show ?thesis using a rs by (auto simp: finish_def split: outcome.split sum.split prod.splits)
qed

end

context frame_unregistered
begin

lemma queries_inv [act_inv_intros]:
  assumes "\<And>l t c b. tame (\<lambda>w. f w l t c b) L"
  shows "act_inv (framed f) (mdp_get L)" "act_inv (framed f) (mdp_prompt L)"
  by (rule queries_keep [OF assms unregistered_exits])+

lemma finish_unregistered: "framed f (snd rs) \<Longrightarrow> snd (finish rs) = snd rs"
  using frame_no_exit by (cases "atexit_registered (snd rs)")
    (auto simp: finish_def split: outcome.split sum.split prod.splits)

end

context os_invariant
begin

lemma edits_inv [act_inv_intros]:
  assumes "tame R L"
  shows "act_inv (on_os R) (mdp_add L)" "act_inv (on_os R) (mdp_edit L)"
  unfolding mdp_add_def mdp_edit_def using assms by (intro act_inv_intros; simp)+

lemma run_command_inv [act_inv_intros]: "tame R L \<Longrightarrow> act_inv (on_os R) (run_command L c args)"
  by (cases c) (auto simp: run_command_def intro!: act_inv_intros)

lemma mdp_main_inv [act_inv_intros]: "tame R L \<Longrightarrow> act_inv (on_os R) (mdp_main L args)"
  unfolding mdp_main_def by (intro act_inv_intros)

lemma run_mdp_inv:
  assumes "tame R L" "R (os s)"
  shows "R (os (snd (run_mdp L args s)))"
  unfolding run_mdp_def
  by (rule guard.finish_inv, rule mdp_main_inv [OF assms(1), unfolded act_inv_def, rule_format, OF assms(2)])

end

end
