(* ===== verification/CleanEnd.thy ===== *)
theory CleanEnd
  imports EditRun Invariants
begin

text \<open>
  The end of any run that registered the exit handler: whatever command ran, whichever calls
  failed and wherever the program stopped.
\<close>

lemma cleanup_needs_lock_path: "cleanup s = (Inr u, s') \<Longrightarrow> \<exists>l. lock_path s = Some l"
  by (auto simp: cleanup_def lock_unset_def lock_exists_def ebind_simps split: option.splits)

lemma atexit_removes:
  assumes "atexit_cleanup s = (Inr u, s')" "honest (os s)"
  shows "\<exists>l. lock_path s' = Some l \<and> lookup (os s') l = None
    \<and> (\<forall>t. editor_tmp_path s' = Some t \<longrightarrow> lookup (os s') t = None)"
proof -
  obtain s1 where c: "debug ''atexit_cleanup (PID: %d)'' [ArgD (int (my_pid (os s)))] s = (Inr (), s1)" "cleanup s1 = (Inr (), s')"
    using assms(1) by (auto simp: atexit_cleanup_def bnd_def gets_def split: prod.splits sum.splits)
  have h: "honest (os s1)"
    using hon.frame.debug_inv [unfolded act_inv_def, rule_format, of s] assms(2) c(1) by (metis snd_conv)
  obtain l where l: "lock_path s1 = Some l" using cleanup_needs_lock_path [OF c(2)] by blast
  have "lock_path s' = lock_path s1 \<and> editor_tmp_path s' = editor_tmp_path s1"
    using names.cleanup_inv [unfolded act_inv_def, rule_format, of s1] c(2) by (metis snd_conv)
  then show ?thesis using cleanup_removes [OF c(2) l h] l by simp
qed

end
