(* ===== verification/Kills.thy ===== *)
theory Kills
  imports EditRun Queries
begin

text \<open>
  What a killed process leaves behind: the exchange of the password file, killed between the
  removal of the old name and the link of the new file, and what the next processes find.
\<close>

section \<open>Calls before the end\<close>

text \<open>A call that is not made to fail, on the rest of the oracle.\<close>

lemma passes_simps [simp]:
  "passes n (w\<lparr>faults := fs\<rparr>) \<longleftrightarrow> set (take n fs) \<subseteq> {None}" "passes n (w\<lparr>dir := d\<rparr>) = passes n w"
  by (simp_all add: passes_def)

lemma lookup_faults: "lookup (w\<lparr>faults := fs\<rparr>) p = lookup w p"
  by (simp add: lookup_def split: option.split)

lemma stat_passes: "passes (Suc n) w \<Longrightarrow> lookup w p = Some m \<Longrightarrow> stat p w = (Inr m, w\<lparr>faults := tl (faults w)\<rparr>)"
  unfolding stat_def passes_syscall lookup_faults by simp

lemma unlink_passes:
  assumes "passes (Suc n) w" "\<And>m. lookup w p = Some m \<Longrightarrow> kind m \<noteq> Dir" "world_inv w"
  shows "\<exists>r. unlink p w = (r, w\<lparr>dir := (dir w)(p := None), faults := tl (faults w)\<rparr>)
    \<and> (case lookup w p of None \<Rightarrow> r = Inl ENOENT | Some m \<Rightarrow> r = Inr ())"
proof (cases "lookup w p")
  case None
  then have "(dir w)(p := None) = dir w" using lookup_iff [OF assms(3)] by (simp add: fun_upd_idem)
  then show ?thesis using None by (simp add: unlink_def passes_syscall [OF assms(1)] lookup_faults)
next
  case (Some m)
  then show ?thesis using assms(2) by (simp add: unlink_def passes_syscall [OF assms(1)] lookup_faults)
qed

lemma link_passes:
  "passes (Suc n) w \<Longrightarrow> lookup w p = Some m \<Longrightarrow> kind m \<noteq> Dir \<Longrightarrow> dir w q = None \<Longrightarrow>
   link p q w = (Inr (), w\<lparr>dir := (dir w)(q := dir w p), faults := tl (faults w)\<rparr>)"
  by (simp add: link_def passes_syscall lookup_faults)

lemma killed_call: "faults w = Some KILL # fs \<Longrightarrow> syscall f w = (Inl KILL, w\<lparr>faults := fs\<rparr>)"
  by (simp add: syscall_def next_fault_def)

section \<open>The exchange\<close>

lemma move_aside_passes:
  assumes "\<not> debug_enabled s" "passes 3 (os s)" "world_inv (os s)" "lookup (os s) pw = Some n" "kind n \<noteq> Dir"
    and "\<And>m. lookup (os s) (pw @ ''.bak'') = Some m \<Longrightarrow> kind m \<noteq> Dir"
  shows "move_aside pw True s = (Inr (), s\<lparr>os := (os s)
    \<lparr>dir := aside_names pw True (dir (os s)), faults := drop 3 (faults (os s))\<rparr>\<rparr>)"
proof -
  let ?bak = "pw @ ''.bak''" and ?d = "dir (os s)" and ?f = "faults (os s)"
  let ?w1 = "(os s)\<lparr>dir := ?d(?bak := None), faults := tl ?f\<rparr>"
  let ?w2 = "(os s)\<lparr>dir := ?d(?bak := ?d pw), faults := tl (tl ?f)\<rparr>"
  have p: "passes (Suc 2) (os s)" "passes (Suc 1) ?w1" "passes (Suc 0) ?w2"
    using assms(2) passes_next [of 2 "os s" ?w1] passes_next [of 1 ?w1 ?w2] by (simp_all add: numeral_eq_Suc)
  obtain r where u: "unlink ?bak (os s) = (r, ?w1)" "r = Inl ENOENT \<or> r = Inr ()"
    using unlink_passes [OF p(1) _ assms(3), of ?bak] assms(6) by (auto split: option.splits)
  have l1: "lookup ?w1 pw = Some n" using assms(4) by (simp add: lookup_def split: option.splits)
  have k: "link pw ?bak ?w1 = (Inr (), ?w2)"
    using link_passes [OF p(2) l1 assms(5), of ?bak] by simp
  have l2: "lookup ?w2 pw = Some n" using assms(4) by (simp add: lookup_def split: option.splits)
  have v: "unlink pw ?w2 = (Inr (), (os s)\<lparr>dir := ?d(?bak := ?d pw, pw := None), faults := drop 3 ?f\<rparr>)"
    using l2 assms(5) by (simp add: unlink_def passes_syscall [OF p(3)] lookup_faults numeral_eq_Suc drop_Suc)
  from u k v assms(1) show ?thesis
    by (auto simp: move_aside_def aside_names_def ebind_simps calls)
qed

text \<open>C4. An exchange that is killed before the new file is linked leaves no password file: the old one is
  the backup, the new one has its temporary name, and the lock is held (\<open>always\<close>: memory is granted). The next \<open>get\<close> ends with \<open>no
  passwords\<close>, and what would change the file is refused.\<close>

theorem killed_exchange_hides_the_passwords:
  fixes s :: "'r mdp" and L :: "('r, 'p) lib"
  assumes "\<not> debug_enabled s" "faults (os s) = [None, None, None, None, Some KILL]" "world_inv (os s)"
    and "cfg_backup (cfg (conf s))" "lookup (os s) pw = Some n" "kind n \<noteq> Dir"
    and "\<And>m. lookup (os s) (pw @ ''.bak'') = Some m \<Longrightarrow> kind m \<noteq> Dir"
    and "lookup (os s) enc = Some g" "lookup (os s) l = Some k" "enc \<notin> {pw, pw @ ''.bak''}" "l \<notin> {pw, pw @ ''.bak''}"
  shows "\<exists>s1. swap_in always enc pw s = (Inl Killed, s1)
    \<and> lookup (os s1) pw = None \<and> lookup (os s1) (pw @ ''.bak'') = Some n \<and> lookup (os s1) enc = Some g
    \<and> (\<forall>s2. os s2 = os s1 \<and> password_file s2 = Some pw \<and> lock_path s2 = Some l \<and> \<not> debug_enabled s2 \<longrightarrow>
        lock_set s2 = (Inl (Errx ''locked (%s)'' [ArgS l]), s2)
        \<and> (gpg_check L s2 = (Inr (), s2) \<longrightarrow> mdp_get L s2 = (Inl (Errx ''no passwords'' []), s2)))"
proof -
  let ?bak = "pw @ ''.bak''" and ?d = "dir (os s)"
  let ?s0 = "s\<lparr>os := (os s)\<lparr>faults := [None, None, None, Some KILL]\<rparr>\<rparr>"
  let ?w = "(os s)\<lparr>dir := aside_names pw True ?d, faults := []\<rparr>" and ?s1 = "s\<lparr>os := (os s)\<lparr>dir := aside_names pw True ?d, faults := []\<rparr>\<rparr>"
  have "stat pw (os s) = (Inr n, os ?s0)" using assms(2,5) by (simp add: stat_def syscall_def next_fault_def lookup_faults)
  then have e: "file_exists pw s = (Inr True, ?s0)" by (simp add: file_exists_def ebind_simps calls)
  have "world_inv (os ?s0)" using assms(3) by (simp add: world_inv_def)
  then have m: "move_aside pw True ?s0 = (Inr (), s\<lparr>os := ?w\<lparr>faults := [Some KILL]\<rparr>\<rparr>)"
    using move_aside_passes [of ?s0 pw n] assms(1,5-7) by (simp add: lookup_faults numeral_eq_Suc)
  have "put_in_place enc pw (s\<lparr>os := ?w\<lparr>faults := [Some KILL]\<rparr>\<rparr>) = (Inl Killed, ?s1)"
    by (simp add: put_in_place_def link_def killed_call ebind_simps calls)
  then have x: "swap_in always enc pw s = (Inl Killed, ?s1)"
    using e m assms(4) by (simp add: swap_in_def ebind_simps)
  have l: "lookup ?w pw = None" "lookup ?w ?bak = Some n" "lookup ?w enc = Some g" "lookup ?w l = Some k"
    using assms(5,8-11) by (simp_all add: lookup_def aside_names_def split: option.splits)
  have "lock_set s2 = (Inl (Errx ''locked (%s)'' [ArgS l]), s2)
      \<and> (gpg_check L s2 = (Inr (), s2) \<longrightarrow> mdp_get L s2 = (Inl (Errx ''no passwords'' []), s2))"
    if s2: "os s2 = ?w" "password_file s2 = Some pw" "lock_path s2 = Some l" "\<not> debug_enabled s2" for s2 :: "'r mdp"
  proof -
    have q: "faults (os s2) = []" "quiet s2" using s2 by (simp_all add: quiet_def)
    have x: "file_exists p s2 = (Inr (lookup ?w p \<noteq> None), s2)" for p
      using file_exists_calls [OF q(1)] s2(1) by simp
    have "lock_set s2 = (Inl (Errx ''locked (%s)'' [ArgS l]), s2)"
      using x [of l] l(4) s2(3) by (simp add: lock_set_def lock_exists_def ebind_simps calls)
    moreover have "load_results_gpg L s2 = (Inr 0, s2)"
      using x [of pw] l(1) s2(2,4) by (simp add: load_results_gpg_def gpg_open_def ebind_simps calls)
    ultimately show ?thesis using s2(4) by (simp add: mdp_get_def ebind_simps calls)
  qed
  then show ?thesis using x l by (intro exI [of _ ?s1]) simp
qed

theorem killed_exchange_hides_the_passwords_witness:
  "\<exists>s1. swap_in always ''/h/tmp.gpg'' ''/h/p.gpg''
      (demo_state (Some ''K'') ((demo_world [(''/h/p.gpg'', regular ''OLD''), (''/h/tmp.gpg'', regular ''NEW''), (''/h/lock'', regular ''42'')])
        \<lparr>faults := [None, None, None, None, Some KILL]\<rparr>)) = (Inl Killed, s1)
    \<and> lookup (os s1) ''/h/p.gpg.bak'' = Some (regular ''OLD'')
    \<and> (\<exists>s2. mdp_get (demo_lib (\<lambda>c w. (0, w)) (\<lambda>f args t w. None)) (demo_state (Some ''K'') (os s1))
        = (Inl (Errx ''no passwords'' []), s2))"
proof -
  let ?w = "demo_world [(''/h/p.gpg'', regular ''OLD''), (''/h/tmp.gpg'', regular ''NEW''), (''/h/lock'', regular ''42'')]"
  let ?s = "demo_state (Some ''K'') (?w\<lparr>faults := [None, None, None, None, Some KILL]\<rparr>)"
  let ?L = "demo_lib (\<lambda>c w. (0, w)) (\<lambda>f args t w. None)"
  have l: "lookup (os ?s) ''/h/p.gpg'' = Some (regular ''OLD'')" "lookup (os ?s) ''/h/tmp.gpg'' = Some (regular ''NEW'')"
    "lookup (os ?s) ''/h/lock'' = Some (regular ''42'')" "lookup (os ?s) ''/h/p.gpg.bak'' = None" "world_inv (os ?s)"
    using demo_world_inv [of "[(''/h/p.gpg'', regular ''OLD''), (''/h/tmp.gpg'', regular ''NEW''), (''/h/lock'', regular ''42'')]"]
    by (simp_all add: demo_lookup lookup_faults world_inv_def)
  have c: "cfg_backup (cfg (conf ?s))" "kind (regular x) \<noteq> Dir" "\<not> debug_enabled ?s" for x
    by (simp_all add: demo_state_def config_initial_def regular_def initial_state_def)
  from killed_exchange_hides_the_passwords [of ?s "''/h/p.gpg''" _ "''/h/tmp.gpg''" _ "''/h/lock''" _ ?L, OF c(3) _ l(5) c(1) l(1) c(2) _ l(2,3)]
  obtain s1 where s1: "swap_in always ''/h/tmp.gpg'' ''/h/p.gpg'' ?s = (Inl Killed, s1)"
      "lookup (os s1) ''/h/p.gpg.bak'' = Some (regular ''OLD'')"
      "\<And>s2. os s2 = os s1 \<Longrightarrow> password_file s2 = Some ''/h/p.gpg'' \<Longrightarrow> lock_path s2 = Some ''/h/lock'' \<Longrightarrow> \<not> debug_enabled s2 \<Longrightarrow>
        gpg_check ?L s2 = (Inr (), s2) \<Longrightarrow> mdp_get ?L s2 = (Inl (Errx ''no passwords'' []), s2)"
    using l(4) by auto
  let ?s2 = "demo_state (Some ''K'') (os s1)"
  have "gpg_check ?L ?s2 = (Inr (), ?s2)"
    by (simp add: gpg_check_def run_def join_def ebind_simps calls demo_lib_def)
  moreover have "\<not> debug_enabled ?s2" by (simp add: demo_state_def initial_state_def)
  ultimately have "mdp_get ?L ?s2 = (Inl (Errx ''no passwords'' []), ?s2)" by (intro s1(3)) simp_all
  with s1(1,2) show ?thesis by blast
qed

end
