(* ===== verification/Listing.thy ===== *)
theory Listing
  imports Ui Demo
begin

text \<open>
  What the pager puts on the screen: the listing as a list of curses calls computed from the visible
  entries, and \<open>refresh_listing\<close> as the function that makes exactly these calls.
\<close>

section \<open>The specification\<close>

text \<open>An entry takes one row, or, when it is longer than the window is wide, the rows it is wrapped to.\<close>

definition rows_taken :: "nat \<Rightarrow> result \<Rightarrow> nat" where
  "rows_taken width r = (let n = unat (wcs_len r) in if width < n then n div width + 1 else 1)"

fun entry_calls :: "nat \<Rightarrow> int \<Rightarrow> int \<Rightarrow> result list \<Rightarrow> event list" where
  "entry_calls width col row [] = []"
| "entry_calls width col row (r # rs) =
    Curses ''wmove'' [ArgD row, ArgD col] # Curses ''waddstr'' [ArgS (mbs_value r)]
      # entry_calls width col (row + int (rows_taken width r)) rs"

definition longest :: "result list \<Rightarrow> nat" where
  "longest rs = Max (insert 0 ((\<lambda>r. unat (wcs_len r)) ` set rs))"

definition listing_calls :: "nat \<Rightarrow> nat \<Rightarrow> result list \<Rightarrow> event list" where
  "listing_calls width height rs =
    (if height \<le> length rs \<or> 128 \<le> length rs then
       [Curses ''wmove'' [ArgD (int (height div 2)), ArgD (int ((width - 46) div 2))],
        Curses ''waddstr'' [ArgS ''Too many results, please refine your search.''], Curses ''refresh'' []]
     else
       entry_calls width (int ((width - longest rs) div 2)) (int ((height - length rs) div 2)) rs
         @ [Curses ''refresh'' []])"

section \<open>The code makes these calls\<close>

lemma small_ucast: "unat (x :: size_t) < 2 ^ 31 \<Longrightarrow> int_of_size x = int (unat x)"
proof -
  assume a: "unat x < 2 ^ 31"
  then have "unat (ucast x :: u32) = unat x" by (simp add: unsigned_ucast_eq take_bit_nat_eq_self)
  then show ?thesis using a by (simp add: int_of_size_def sint_small)
qed

lemma curses_emits: "curses f as s = (Inr (), s\<lparr>os := emit (Curses f as) (os s)\<rparr>)"
  by (simp add: curses_def print_def modify_def)

lemma bnd_curses: "bnd (curses f as) k s = k () (s\<lparr>os := emit (Curses f as) (os s)\<rparr>)"
  by (simp add: bnd_def curses_emits)

lemma bnd_Inr: "m s = (Inr x, s') \<Longrightarrow> bnd m k s = k x s'"
  by (simp add: bnd_def)

lemma bnd_lift: "bnd (lift (Inr x)) k s = k x s"
  by (simp add: bnd_def lift_def)

text \<open>The row of the next entry, as the code computes it in \<open>size_t\<close>.\<close>

lemma next_row:
  fixes width :: u32
  assumes "0 \<le> row" "row + int (rows_taken (unat width) r) < 2 ^ 31" "ucast width < wcs_len r" "width \<noteq> 0"
  shows "int_of_size (of_int row + wcs_len r div ucast width) + 1 = row + int (rows_taken (unat width) r)"
proof -
  have "unat width < 2 ^ 32" using unat_u32_less [of width] by simp
  then have w: "unat (ucast width :: size_t) = unat width" by (simp add: unsigned_ucast_eq take_bit_nat_eq_self)
  have lt: "unat width < unat (wcs_len r)" using assms(3) w by (simp add: word_less_nat_alt)
  then have t: "rows_taken (unat width) r = unat (wcs_len r) div unat width + 1" by (simp add: rows_taken_def)
  have "nat row < 2 ^ 64" using assms(1,2) t by simp
  moreover have "(of_int row :: size_t) = of_nat (nat row)" using assms(1) by simp
  ultimately have r: "unat (of_int row :: size_t) = nat row"
    by (simp only: unsigned_of_nat) (simp add: take_bit_nat_eq_self)
  have "unat (of_int row + wcs_len r div ucast width) = nat row + unat (wcs_len r) div unat width"
    using assms(1,2) t r w by (simp add: unat_plus_if_size word_size unat_div)
  then have "int_of_size (of_int row + wcs_len r div ucast width) = row + int (unat (wcs_len r) div unat width)"
    using assms(1,2) t by (subst small_ucast) simp_all
  then show ?thesis using t by simp
qed

lemma listing_loop_calls:
  assumes "width \<noteq> 0" "0 \<le> row" "row + (\<Sum>r\<leftarrow>filter visible rs. int (rows_taken (unat width) r)) < 2 ^ 31"
  shows "listing_loop width col rs row s =
    (Inr (), s\<lparr>os := fold emit (entry_calls (unat width) col row (filter visible rs)) (os s)\<rparr>)"
  using assms(2,3)
proof (induction rs arbitrary: row s)
  case (Cons r rs)
  show ?case
  proof (cases "visible r")
    case False
    then show ?thesis using Cons by simp
  next
    case True
    let ?n = "int (rows_taken (unat width) r)"
    have sum: "0 \<le> (\<Sum>r\<leftarrow>filter visible rs. int (rows_taken (unat width) r))" by (intro sum_list_nonneg) auto
    then have lt: "row + ?n < 2 ^ 31" "row + ?n + (\<Sum>r\<leftarrow>filter visible rs. int (rows_taken (unat width) r)) < 2 ^ 31"
      using Cons.prems(2) True by auto
    have "unat (ucast width :: size_t) = unat width"
      using unat_u32_less [of width] by (simp add: unsigned_ucast_eq take_bit_nat_eq_self)
    then have c: "ucast width < wcs_len r \<longleftrightarrow> unat width < unat (wcs_len r)" by (simp add: word_less_nat_alt)
    have row: "(if ucast width < wcs_len r then int_of_size (of_int row + wcs_len r div ucast width) + 1 else row + 1) = row + ?n"
      using next_row [OF Cons.prems(1) lt(1) _ assms(1)] c by (auto simp: rows_taken_def)
    have "0 \<le> row + ?n" using Cons.prems(1) by simp
    note IH = Cons.IH [OF this lt(2)]
    have "listing_loop width col (r # rs) row s = listing_loop width col rs (row + ?n)
        (s\<lparr>os := emit (Curses ''waddstr'' [ArgS (mbs_value r)]) (emit (Curses ''wmove'' [ArgD row, ArgD col]) (os s))\<rparr>)"
      using True assms(1) row by (auto simp: bnd_def curses_emits)
    then show ?thesis using True by (simp add: IH)
  qed
qed (simp add: ret_def)

text \<open>No entry has more than \<open>MAX_LINE_SIZE\<close> characters, so the rows stay small.\<close>

lemma rows_small:
  assumes "\<forall>r\<in>set rs. unat (wcs_len r) \<le> n"
  shows "(\<Sum>r\<leftarrow>rs. int (rows_taken width r)) \<le> int (length rs) * (int n + 1)"
  using assms
proof (induction rs)
  case (Cons r rs)
  have "rows_taken width r \<le> n + 1"
    using Cons.prems by (auto simp: rows_taken_def Let_def intro: order_trans [OF div_le_dividend])
  then show ?case using Cons by (simp add: algebra_simps)
qed simp

lemma entry_rows:
  assumes "Curses ''wmove'' [ArgD r, ArgD c] \<in> set (entry_calls width col row rs)" "\<forall>r\<in>set rs. unat (wcs_len r) \<le> width"
  shows "c = col \<and> row \<le> r \<and> r < row + int (length rs)"
  using assms
proof (induction rs arbitrary: row)
  case (Cons x rs)
  have "rows_taken width x = 1" using Cons.prems(2) by (auto simp: rows_taken_def Let_def)
  then show ?case using Cons.prems Cons.IH [of "row + 1"] by auto
qed simp

text \<open>Nothing is written outside the window when the entries fit in its width.\<close>

lemma calls_inside:
  assumes "Curses ''wmove'' [ArgD r, ArgD c] \<in> set (listing_calls width height rs)" "\<forall>r\<in>set rs. unat (wcs_len r) \<le> width"
    and "0 < width" "0 < height"
  shows "0 \<le> r \<and> r < int height \<and> 0 \<le> c \<and> c < int width"
proof (cases "height \<le> length rs \<or> 128 \<le> length rs")
  case True
  then show ?thesis using assms by (auto simp: listing_calls_def)
next
  case False
  let ?top = "int ((height - length rs) div 2)" and ?left = "int ((width - longest rs) div 2)"
  have "c = ?left \<and> ?top \<le> r \<and> r < ?top + int (length rs)"
    using assms(1,2) False entry_rows [of r c width ?left ?top rs] by (auto simp: listing_calls_def)
  moreover have "?top + int (length rs) \<le> int height" using False by auto
  moreover have "(width - longest rs) div 2 < width" using assms(3) by auto
  ultimately show ?thesis by auto
qed

text \<open>The rows and columns the code computes in \<open>unsigned int\<close> and \<open>size_t\<close>.\<close>

lemma message_column:
  fixes width :: u32
  assumes "46 \<le> unat width" "unat width < 2 ^ 31"
  shows "int_of_size ((ucast width - of_nat (length MSG_TOO_MANY + 1) - 1) div 2) = int ((unat width - 46) div 2)"
proof -
  let ?w = "unat width"
  have w: "(ucast width :: size_t) = of_nat ?w" by simp
  have "(of_nat ?w - of_nat (length MSG_TOO_MANY + 1) - 1 :: size_t) = of_nat (?w - 46)"
    using assms(1) by (simp add: MSG_TOO_MANY_def of_nat_diff)
  moreover have "unat (of_nat (?w - 46) :: size_t) = ?w - 46"
    using assms(2) by (simp add: unsigned_of_nat take_bit_nat_eq_self)
  ultimately show ?thesis
    using assms(2) unfolding w by (subst small_ucast) (simp_all add: unat_div)
qed

lemma centred:
  fixes a b :: u32
  assumes "unat a < 2 ^ 31"
  shows "(if a < b then 0 else sint ((a - b) div 2)) = int ((unat a - unat b) div 2)"
proof (cases "a < b")
  case True
  then show ?thesis by (simp add: word_less_nat_alt)
next
  case False
  then have "unat (a - b) = unat a - unat b" by (simp add: unat_sub)
  then show ?thesis using False assms by (simp add: unat_div) (subst sint_small; simp add: unat_div)
qed

text \<open>The two cases of \<open>refresh_listing\<close>.\<close>

lemma refresh_too_many:
  assumes "results_visible_length (results s) = Inr n" "window_height s \<le> n \<or> RESULTS_MAX_LEN \<le> n"
    and "46 \<le> unat (window_width s)" "unat (window_width s) < 2 ^ 31" "unat (window_height s) < 2 ^ 31"
  shows "refresh_listing s = (Inr (), s\<lparr>os := fold emit
    [Curses ''wmove'' [ArgD (int (unat (window_height s) div 2)), ArgD (int ((unat (window_width s) - 46) div 2))],
     Curses ''waddstr'' [ArgS MSG_TOO_MANY], Curses ''refresh'' []] (os s)\<rparr>)"
proof -
  have "sint (window_height s div 2) = int (unat (window_height s) div 2)"
    using assms(5) by (subst sint_small) (simp_all add: unat_div)
  then show ?thesis
    using assms(2) message_column [OF assms(3,4)]
    by (simp add: refresh_listing_def bnd_gets assms(1) bnd_lift bnd_curses curses_emits)
qed

lemma refresh_all:
  assumes "carr_inv (results s)" "rs = filter visible (carr_list (results s))" "\<forall>r\<in>set rs. unat (wcs_len r) \<le> 16384"
    and "results_visible_length (results s) = Inr n" "unat n = length rs" "\<not> (window_height s \<le> n \<or> RESULTS_MAX_LEN \<le> n)"
    and "get_max_length (results s) = Inr m" "window_width s \<noteq> 0" "unat (window_width s) < 2 ^ 31" "unat (window_height s) < 2 ^ 31"
  shows "refresh_listing s = (Inr (), s\<lparr>os := fold emit (entry_calls (unat (window_width s))
      (int ((unat (window_width s) - unat m) div 2)) (int ((unat (window_height s) - length rs) div 2)) rs
      @ [Curses ''refresh'' []]) (os s)\<rparr>)"
proof -
  let ?top = "sint ((window_height s - n) div 2)"
    and ?left = "if window_width s < m then 0 else sint ((window_width s - m) div 2)"
  have top: "?top = int ((unat (window_height s) - length rs) div 2)"
    using centred [OF assms(10), of n] assms(5,6) by (simp split: if_splits)
  note left = centred [OF assms(9), of m]
  have few: "length rs < 128" using assms(5,6) by (simp add: word_le_nat_alt RESULTS_MAX_LEN_def)
  have "(\<Sum>r\<leftarrow>rs. int (rows_taken (unat (window_width s)) r)) \<le> int (length rs) * (int 16384 + 1)"
    using assms(3) by (intro rows_small) simp
  then have "?top + (\<Sum>r\<leftarrow>rs. int (rows_taken (unat (window_width s)) r)) < 2 ^ 31"
    using few top assms(10) by simp
  then have "listing_loop (window_width s) ?left (carr_list (results s)) ?top s
    = (Inr (), s\<lparr>os := fold emit (entry_calls (unat (window_width s)) ?left ?top rs) (os s)\<rparr>)"
    using listing_loop_calls [OF assms(8), of ?top "carr_list (results s)" ?left s] top by (simp add: assms(2))
  then show ?thesis
    using assms(6,7) left top
    by (simp add: refresh_listing_def bnd_gets assms(4) bnd_lift bnd_curses bnd_Inr curses_emits all_items_list assms(1))
qed

text \<open>C12. The pager's listing: when there are too many matching entries for the window, or 128 of them,
  it shows the message; otherwise it puts every matching entry, in order and none twice, on a row of
  its own, each below the rows of the one before, the block centred by the number of entries and the longest one. The
  cursor stays inside the window when the entries fit in its width.\<close>

theorem refresh_listing_shows_matches:
  fixes s :: "'r mdp"
  assumes "carr_inv (results s)" "\<forall>r\<in>set (carr_list (results s)). unat (wcs_len r) \<le> MAX_LINE_SIZE"
    and "46 \<le> unat (window_width s)" "unat (window_width s) < 2 ^ 31"
    and "0 < unat (window_height s)" "unat (window_height s) < 2 ^ 31"
  shows "let w = unat (window_width s); h = unat (window_height s); rs = filter visible (carr_list (results s)) in
    refresh_listing s = (Inr (), s\<lparr>os := fold emit (listing_calls w h rs) (os s)\<rparr>)
    \<and> ((\<forall>r\<in>set rs. unat (wcs_len r) \<le> w) \<longrightarrow> (\<forall>r c. Curses ''wmove'' [ArgD r, ArgD c] \<in> set (listing_calls w h rs) \<longrightarrow>
        0 \<le> r \<and> r < int h \<and> 0 \<le> c \<and> c < int w))"
proof -
  define w h rs where d: "w = unat (window_width s)" "h = unat (window_height s)" "rs = filter visible (carr_list (results s))"
  have line: "unat (wcs_len r) \<le> 16384" if "r \<in> set (carr_list (results s))" for r
    using assms(2) that by (simp add: MAX_LINE_SIZE_def)
  then have "\<forall>r\<in>set (carr_list (results s)). unat (wcs_len r) < 2 ^ 32" by force
  from get_max_length_spec [OF assms(1) this] obtain m where m: "get_max_length (results s) = Inr m" "unat m = longest rs"
    by (auto simp: longest_def d)
  let ?len = "of_nat (length rs) :: u32"
  have "length rs \<le> length (carr_list (results s))" by (simp add: d)
  then have n: "length rs < 2 ^ 32" using length_carr_list [OF assms(1)] unat_u32_less [of "num (results s)"] by simp
  then have len: "unat ?len = length rs" by (simp add: unsigned_of_nat take_bit_nat_eq_self)
  have vis: "results_visible_length (results s) = Inr ?len" using results_visible_length_spec [OF assms(1)] by (simp add: d)
  have many: "window_height s \<le> ?len \<or> RESULTS_MAX_LEN \<le> ?len \<longleftrightarrow> h \<le> length rs \<or> 128 \<le> length rs"
    using len by (simp add: word_le_nat_alt d RESULTS_MAX_LEN_def)
  have width: "window_width s \<noteq> 0" using assms(3) by auto
  have small: "\<forall>r\<in>set rs. unat (wcs_len r) \<le> 16384" using line by (simp add: d)
  have "refresh_listing s = (Inr (), s\<lparr>os := fold emit (listing_calls w h rs) (os s)\<rparr>)"
    using refresh_too_many [OF vis _ assms(3,4,6)] refresh_all [OF assms(1) d(3) small vis len _ m(1) width assms(4,6)] many
    unfolding listing_calls_def MSG_TOO_MANY_def [symmetric] d(1,2) [symmetric] m(2) by presburger
  then show ?thesis using calls_inside [of _ _ w h rs] assms(3,5) by (simp add: Let_def d)
qed

theorem refresh_listing_shows_matches_witness:
  "fst (refresh_listing ((demo_state None (demo_world []))\<lparr>results := two_entries, window_width := 80, window_height := 24\<rparr>)) = Inr ()
   \<and> out (os (snd (refresh_listing ((demo_state None (demo_world []))\<lparr>results := two_entries, window_width := 80, window_height := 24\<rparr>)))) =
     [Curses ''wmove'' [ArgD 11, ArgD 39], Curses ''waddstr'' [ArgS [CHR ''M'', CHR 0xC3, CHR 0x89]],
      Curses ''wmove'' [ArgD 12, ArgD 39], Curses ''waddstr'' [ArgS ''#''], Curses ''refresh'' []]"
proof -
  let ?s = "(demo_state None (demo_world []))\<lparr>results := two_entries, window_width := 80, window_height := 24\<rparr>"
  have "carr_inv (results ?s)" "\<forall>r\<in>set (carr_list (results ?s)). unat (wcs_len r) \<le> MAX_LINE_SIZE"
    by (simp_all add: two_entries_inv entry_def MAX_LINE_SIZE_def)
  from refresh_listing_shows_matches [OF this] show ?thesis
    by (simp add: two_entries_inv entry_def Let_def listing_calls_def longest_def rows_taken_def emit_def)
qed

end
