(* ===== verification/Privacy.thy ===== *)
theory Privacy
  imports Safety Invariants
begin

text \<open>
  What the checks of the configuration guarantee when \<open>read_config\<close> returns: the directories
  are private and the password file cannot be written by others.
\<close>

section \<open>A directory stays private\<close>

definition private_at :: "string \<Rightarrow> world \<Rightarrow> bool" where
  "private_at p w \<longleftrightarrow> (\<exists>n. lookup w p = Some n \<and> private_dir (my_uid w) n)"

definition calm_world :: "world \<Rightarrow> bool" where
  "calm_world w \<longleftrightarrow> world_inv w \<and> honest w"

interpretation calm: os_invariant calm_world
proof -
  have c: "calm_world = (\<lambda>w. world_inv w \<and> honest w)" by (simp add: calm_world_def fun_eq_iff)
  show "os_invariant calm_world"
    unfolding c by unfold_locales (simp add: wf.keeps_emit hon.keeps_emit,
      (intro keeps_conj wf.checks_keep hon.checks_keep wf.calls_keep hon.calls_keep)+)
qed

lemma next_fault_inv: "next_fault w = (e, w') \<Longrightarrow> world_inv w \<Longrightarrow> world_inv w'"
  by (auto simp: next_fault_def world_inv_def split: list.splits)

text \<open>A private directory stays private: these calls only ever add names.\<close>

interpretation priv: checks_invariant "\<lambda>w. calm_world w \<and> private_at d w" for d
proof
  have same: "private_at d w'"
    if "private_at d w" "dir w' = dir w" "node w' = node w" "my_uid w' = my_uid w" for w w'
    using that by (auto simp: private_at_def lookup_def split: option.splits)
  show "calm_world (emit e w) \<and> private_at d (emit e w)" if "calm_world w \<and> private_at d w" for e w
    using that calm.keeps_emit same [of w "emit e w"] by (simp add: emit_def)
  have "keeps (private_at d) (stat p)" "keeps (private_at d) (fopen_r p)" "keeps (private_at d) simple_call" for p
    using same by (auto simp: keeps_def stat_def fopen_r_def simple_call_def syscall_def next_fault_def
        split: list.split option.split)
  then show "keeps (\<lambda>w. calm_world w \<and> private_at d w) (stat p)"
      "keeps (\<lambda>w. calm_world w \<and> private_at d w) (fopen_r p)" "keeps (\<lambda>w. calm_world w \<and> private_at d w) simple_call" for p
    using calm.keeps_stat calm.keeps_fopen_r calm.keeps_simple_call by (simp_all add: keeps_conj)
  show "keeps (\<lambda>w. calm_world w \<and> private_at d w) (mkdir p m)" for p m
    unfolding keeps_def
  proof (intro allI impI)
    fix w assume c: "calm_world w \<and> private_at d w"
    obtain e w0 where n: "next_fault w = (e, w0)" by fastforce
    note s = next_fault_same [OF n]
    have w0: "world_inv w0" using next_fault_inv [OF n] c by (simp add: calm_world_def)
    have d0: "private_at d w0" using c s by (auto intro!: same [of w w0])
    have "private_at d (create p k w0)" if "dir w0 p = None" for k
    proof -
      have "d \<noteq> p" using d0 that by (auto simp: private_at_def lookup_def)
      then show ?thesis using d0 lookup_create [OF w0] by (simp add: private_at_def create_def)
    qed
    then have "private_at d (snd (mkdir p m w))" using d0 n by (auto simp: mkdir_def syscall_def split: option.split)
    then show "calm_world (snd (mkdir p m w)) \<and> private_at d (snd (mkdir p m w))"
      using calm.keeps_mkdir c by (simp add: keeps_def)
  qed
qed

section \<open>The parts of read_config\<close>

lemma act_invD: "act_inv P m \<Longrightarrow> P s \<Longrightarrow> m s = (r, s') \<Longrightarrow> P s'"
  by (metis act_inv_def snd_conv)

text \<open>A step that keeps what is known, followed by the rest.\<close>

lemma wp_keeps:
  assumes "act_inv P m" "P s" "\<And>h s. P s \<Longrightarrow> Q (Inl h) s" "\<And>x s. P s \<Longrightarrow> wp (f x) Q s"
  shows "wp (bnd m f) Q s"
  by (rule wp_seq [where R = "\<lambda>r s. P s"])
    (use assms in \<open>auto simp: act_inv_def wp_def split: prod.split dest: spec [of _ s]\<close>)

definition guarded_file :: "string \<Rightarrow> world \<Rightarrow> bool" where
  "guarded_file p w \<longleftrightarrow> (\<forall>n. lookup w p = Some n \<longrightarrow>
     kind n = Reg \<and> (owner n = 0 \<or> owner n = my_uid w) \<and> mode n AND 0x12 = 0)"

lemma check_password_file_guards:
  assumes "config_check_password_file p s = (Inr (), s')" "honest (os s)"
  shows "guarded_file p (os s')"
proof -
  obtain r w where st: "stat p (os s) = (r, w)" by fastforce
  note e = stat_effect [OF st]
  show ?thesis
  proof (cases r)
    case (Inl x)
    then have "x = ENOENT" "s' = s\<lparr>os := w\<rparr>"
      using assms(1) st by (auto simp: config_check_password_file_def ebind_simps sys_def split: if_splits)
    then show ?thesis using stat_enoent [of p "os s" w] st Inl assms(2) e by (simp add: guarded_file_def)
  next
    case (Inr n)
    have "my_uid w = my_uid (os s)" using stat_ok [of p "os s" n w] st Inr by simp
    then show ?thesis using assms(1) st Inr e
      by (auto simp: config_check_password_file_def my_uid_now_def ebind_simps sys_def guarded_file_def split: if_splits)
  qed
qed

context frame_checks
begin

lemma home_then:
  assumes "framed f s" "\<And>h s. framed f s \<Longrightarrow> Q (Inl h) s"
    and "\<And>h s'. framed f s' \<Longrightarrow> environ (os s) ''HOME'' = Some h \<Longrightarrow> wp (g h) Q s'"
  shows "wp (bnd (bnd (get_home L) str_of) g) Q s"
proof (rule wp_seq [where R = "\<lambda>r s'. framed f s' \<and> (\<forall>h. r = Inr h \<longrightarrow> environ (os s) ''HOME'' = Some h)"])
  obtain r s' where e: "bnd (get_home L) str_of s = (r, s')" by fastforce
  have "act_inv (framed f) (bnd (get_home L) str_of)"
    by (intro act_inv_intros)
  then have "framed f s'" using assms(1) e by (metis act_inv_def snd_conv)
  moreover have "environ (os s) ''HOME'' = Some h" if "r = Inr h" for h
    using e that by (auto simp: get_home_def str_of_def strdup_def ebind_simps split: option.splits prod.splits sum.splits if_splits)
  ultimately show "wp (bnd (get_home L) str_of)
      (\<lambda>r s'. framed f s' \<and> (\<forall>h. r = Inr h \<longrightarrow> environ (os s) ''HOME'' = Some h)) s"
    using e by (simp add: wp_def)
qed (use assms(2,3) in auto)

end

context checks_invariant
begin

lemma ensure_kept:
  assumes "R (os s)"
  shows "wp (config_ensure_directory d) (\<lambda>r s. R (os s) \<and> (r = Inr () \<longrightarrow> private_at d (os s))) s"
proof -
  obtain r s' where e: "config_ensure_directory d s = (r, s')" by fastforce
  have "R (os s')" using frame.config_ensure_directory_inv [of d] assms e by (metis act_inv_def snd_conv)
  then show ?thesis using ensure_directory_private [of d s s'] e by (auto simp: wp_def private_at_def)
qed

lemma ensure_then:
  assumes "R (os s)" "\<And>h s. Q (Inl h) s"
    and "\<And>s. R (os s) \<Longrightarrow> private_at d (os s) \<Longrightarrow> wp (f ()) Q s"
  shows "wp (bnd (config_ensure_directory d) f) Q s"
  by (rule wp_seq [OF ensure_kept [OF assms(1)]]) (use assms(2,3) in auto)

end

text \<open>The last checks, on the password file and its directory, leave the settings alone.\<close>

interpretation settled: frame_checks "\<lambda>w l t c b. cfg_password_file c = x" for x
  by unfold_locales (simp_all add: keeps_def)

lemma password_file_then:
  assumes "\<And>h. Q (Inl h) s" "\<And>pw. password_file s = Some pw \<Longrightarrow> wp (g pw) Q s"
  shows "wp (bnd (bnd (gets password_file) str_of) g) Q s"
  using assms by (cases "password_file s") (auto simp: wp_def ebind_simps str_of_def)

lemma password_file_checked:
  fixes s1 :: "'r mdp"
  assumes "calm_world (os s1) \<and> private_at d (os s1)" "password_file s1 = Some pw"
  shows "wp (bnd (bnd (lift (xdirname ok pw)) str_of) (\<lambda>password_dir.
      bnd (config_ensure_directory password_dir) (\<lambda>_. config_check_password_file pw)))
    (\<lambda>r s'. r = Inr () \<longrightarrow> password_file s' = Some pw
       \<and> private_at d (os s') \<and> private_at (dirname pw) (os s') \<and> guarded_file pw (os s')) s1"
proof (rule wp_seq [where R = "\<lambda>r s'. s' = s1 \<and> (\<forall>e. r = Inr e \<longrightarrow> e = dirname pw)"])
  let ?Q = "\<lambda>r s'. r = Inr () \<longrightarrow> password_file s' = Some pw
      \<and> private_at d (os s') \<and> private_at (dirname pw) (os s') \<and> guarded_file pw (os s')"
  show "wp (bnd (lift (xdirname ok pw)) str_of) (\<lambda>r s'. s' = s1 \<and> (\<forall>e. r = Inr e \<longrightarrow> e = dirname pw)) s1"
    by (auto simp: wp_def ebind_simps xdirname_def str_of_def strdup_def split: option.split)
  fix e and s2 :: "'r mdp" assume "s2 = s1 \<and> (\<forall>e'. Inr e = Inr e' \<longrightarrow> e' = dirname pw)"
  then have d: "s2 = s1" "e = dirname pw" by auto
  have set: "password_file s' = Some pw" if "config_ensure_directory (dirname pw) s1 = (r, s')" for r s'
    using act_invD [OF settled.config_ensure_directory_inv [of "Some pw"] _ that] assms(2) by (simp add: password_file_def)
  show "wp (bnd (config_ensure_directory e) (\<lambda>_. config_check_password_file pw)) ?Q s2"
    unfolding d
  proof (rule wp_seq [where R = "\<lambda>r s. (r = Inr () \<longrightarrow> password_file s = Some pw
      \<and> (calm_world (os s) \<and> private_at d (os s)) \<and> private_at (dirname pw) (os s))"])
    show "wp (config_ensure_directory (dirname pw)) (\<lambda>r s. (r = Inr () \<longrightarrow> password_file s = Some pw
      \<and> (calm_world (os s) \<and> private_at d (os s)) \<and> private_at (dirname pw) (os s))) s1"
      using priv.ensure_kept [where s = s1 and d = "dirname pw", OF assms(1)] set by (auto simp: wp_def split: prod.splits)
    fix u and s3 :: "'r mdp"
    assume "Inr u = Inr () \<longrightarrow> password_file s3 = Some pw \<and> (calm_world (os s3) \<and> private_at d (os s3)) \<and> private_at (dirname pw) (os s3)"
    then have p: "password_file s3 = Some pw" "calm_world (os s3) \<and> private_at d (os s3)" "private_at (dirname pw) (os s3)" by auto
    obtain r s4 where c: "config_check_password_file pw s3 = (r, s4)" by fastforce
    note kept = act_invD [OF priv.frame.config_check_password_file_inv _ c]
    have "private_at d (os s4)" using kept [of d] p(2) by blast
    moreover have "private_at (dirname pw) (os s4)" using kept [of "dirname pw"] p by blast
    moreover have "password_file s4 = Some pw"
      using act_invD [OF settled.config_check_password_file_inv [of "Some pw"] _ c] p(1) by (simp add: password_file_def)
    moreover have "r = Inr () \<Longrightarrow> guarded_file pw (os s4)"
      using check_password_file_guards [of pw s3 s4] c p(2) by (simp add: calm_world_def)
    ultimately show "wp (config_check_password_file pw) ?Q s3" using c by (simp add: wp_def)
  qed simp
qed simp

text \<open>C15. When \<open>read_config\<close> returns, \<open>~/.mdp\<close> and the directory of the password file that the program
  is going to use are directories of the user or of root into which nobody else can look, and that
  password file, if it exists, is a regular file of the user or of root that nobody else can write.
  It may be readable by others.\<close>

theorem read_config_checks_privacy:
  fixes L :: "('r, 'p) lib" and s s' :: "'r mdp"
  assumes "read_config L s = (Inr (), s')" "world_inv (os s)" "honest (os s)"
  shows "\<exists>home pw. environ (os s) ''HOME'' = Some home \<and> password_file s' = Some pw
    \<and> private_at (in_dir home ''.mdp'') (os s') \<and> private_at (dirname pw) (os s') \<and> guarded_file pw (os s')"
proof -
  let ?G = "\<lambda>home pw s'. password_file s' = Some pw \<and> private_at (in_dir home ''.mdp'') (os s') \<and> private_at (dirname pw) (os s')
     \<and> guarded_file pw (os s')"
  let ?Q = "\<lambda>r s'. r = Inr () \<longrightarrow> (\<exists>home pw. environ (os s) ''HOME'' = Some home \<and> ?G home pw s')"
  let ?P = "\<lambda>home w. calm_world w \<and> private_at (in_dir home ''.mdp'') w"
  have tail: "wp (bnd (bnd (gets password_file) str_of) (\<lambda>pw.
      bnd (bnd (lift (xdirname (lib_ok L) pw)) str_of) (\<lambda>password_dir.
      bnd (config_ensure_directory password_dir) (\<lambda>_. config_check_password_file pw)))) ?Q s1"
    if "?P home (os s1)" "environ (os s) ''HOME'' = Some home" for home and s1 :: "'r mdp"
    by (rule password_file_then, simp, rule wp_conseq [OF password_file_checked [OF that(1)]]) (use that(2) in blast)+
  have "wp (read_config L) ?Q s"
    unfolding read_config_def
  proof (rule calm.frame.home_then)
    show "calm_world (os s)" using assms(2,3) by (simp add: calm_world_def)
    fix home and s1 :: "'r mdp" assume h: "calm_world (os s1)" "environ (os s) ''HOME'' = Some home"
    note keeps = wp_keeps [where P = "on_os (?P home)"]
    note end_of_it = tail [OF _ h(2)]
    show "wp (bnd (lift (join_path (lib_ok L) home ''.mdp'')) (\<lambda>config_dir.
      bnd (config_ensure_directory config_dir) (\<lambda>_.
      bnd (editor_init L config_dir) (\<lambda>_.
      bnd (gets (\<lambda>s. cmd_config_path (opts s))) (\<lambda>c.
      bnd (lift (case c of None \<Rightarrow> join_path (lib_ok L) config_dir ''config'' | Some p \<Rightarrow> Inr p)) (\<lambda>path.
      bnd (set_opts (\<lambda>o'. o'\<lparr>cmd_config_path := Some path\<rparr>)) (\<lambda>_.
      bnd (config_check_file path) (\<lambda>_.
      bnd (do_config_read L path) (\<lambda>_.
      bnd (do_set_defaults L config_dir) (\<lambda>_.
      bnd (bnd (gets password_file) str_of) (\<lambda>pw.
      bnd (bnd (lift (xdirname (lib_ok L) pw)) str_of) (\<lambda>password_dir.
      bnd (config_ensure_directory password_dir) (\<lambda>_.
      config_check_password_file pw))))))))))))) ?Q s1"
      by (rule wp_join_path_then, simp, rule calm.ensure_then [OF h(1)], simp)
        (rule end_of_it | rule keeps | rule act_inv_intros | (simp; fail))+
  qed simp
  from wpD [OF this assms(1)] show ?thesis by blast
qed

lemma demo_read_config:
  "fst (read_config (demo_lib (\<lambda>c w. (0, w)) (\<lambda>f args t w. None))
     (initial_state (demo_world [(''/h'', directory), (''/h/.mdp'', directory)]) (0 :: nat) [] [])) = Inr ()"
  by (simp add: read_config_def get_home_def file_exists_def str_of_def strdup_def in_dir_def
      config_ensure_directory_def my_uid_now_def editor_init_def set_opts_def config_check_file_def do_config_read_def
      config_read_def do_set_defaults_def config_set_defaults_def xdirname_def dirname_def no_slash_def strip_right_def
      config_check_password_file_def demo_lib_def initial_state_def demo_world_def ebind_simps sys_def sys_or_def
      stat_def fopen_r_def syscall_def next_fault_def lookup_def directory_def password_file_def conf_initial_def
      config_initial_def options_initial_def Let_def print_def emit_def)

theorem read_config_checks_privacy_witness:
  "\<exists>s' pw. read_config (demo_lib (\<lambda>c w. (0, w)) (\<lambda>f args t w. None))
     (initial_state (demo_world [(''/h'', directory), (''/h/.mdp'', directory)]) (0 :: nat) [] []) = (Inr (), s')
   \<and> password_file s' = Some pw \<and> private_at ''/h/.mdp'' (os s') \<and> guarded_file pw (os s')"
proof -
  let ?w = "demo_world [(''/h'', directory), (''/h/.mdp'', directory)]"
  let ?L = "demo_lib (\<lambda>c w. (0, w)) (\<lambda>f args t w. None)"
  obtain s' where r: "read_config ?L (initial_state ?w (0 :: nat) [] []) = (Inr (), s')"
    using demo_read_config by (metis prod.collapse)
  have "world_inv (os (initial_state ?w (0 :: nat) [] []))" "honest (os (initial_state ?w (0 :: nat) [] []))"
    by (simp_all add: initial_state_def demo_world_inv honest_def)
  from read_config_checks_privacy [OF r this] r show ?thesis
    by (auto simp: initial_state_def demo_world_def in_dir_def)
qed

end
