(* ===== verification/Locked.thy ===== *)
theory Locked
  imports Privacy
begin

text \<open>
  Runs that start while the lock exists: whatever their command, their arguments, the failing
  calls and the call at which they are killed, they change no file that is there. \<open>edit\<close> and
  \<open>add\<close> stop at the lock, and the other commands do not write.
\<close>

section \<open>What is there stays\<close>

definition found :: "world \<Rightarrow> world \<Rightarrow> bool" where
  "found w0 w \<longleftrightarrow> calm_world w \<and> environ w = environ w0 \<and> (\<forall>p n. lookup w0 p = Some n \<longrightarrow> lookup w p = Some n)"

lemma found_same: "found w0 w \<Longrightarrow> calm_world w' \<Longrightarrow> dir w' = dir w \<Longrightarrow> node w' = node w \<Longrightarrow> environ w' = environ w \<Longrightarrow> found w0 w'"
proof -
  assume a: "found w0 w" "calm_world w'" "dir w' = dir w" "node w' = node w" "environ w' = environ w"
  have "lookup w' = lookup w" by (rule ext) (simp only: lookup_def a(3,4))
  then show ?thesis using a by (simp add: found_def)
qed

lemma found_calls:
  "keeps (found w0) (stat p)" "keeps (found w0) (fopen_r p)" "keeps (found w0) simple_call" "keeps (found w0) (close_fd fd)"
proof -
  have same: "dir (snd (f w)) = dir w \<and> node (snd (f w)) = node w \<and> environ (snd (f w)) = environ w"
    if "f = syscall (\<lambda>w. (g w, w))" for f and g :: "world \<Rightarrow> errno + 'x" and w
    using that by (auto simp: syscall_def next_fault_def split: list.split option.split)
  have calm: "keeps (found w0) f" if "f = syscall (\<lambda>w. (g w, w))" "keeps calm_world f" for f and g :: "world \<Rightarrow> errno + 'x"
    using that(2) same [OF that(1)] unfolding keeps_def by (meson found_def found_same)
  show "keeps (found w0) (stat p)" by (rule calm [OF stat_def calm.keeps_stat])
  show "keeps (found w0) (fopen_r p)" by (rule calm [OF fopen_r_def calm.keeps_fopen_r])
  show "keeps (found w0) simple_call" by (rule calm [OF simple_call_def calm.keeps_simple_call])
  show "keeps (found w0) (close_fd fd)" by (rule calm [OF close_fd_def calm.keeps_close])
qed

lemma found_mkdir: "keeps (found w0) (mkdir p m)"
  unfolding keeps_def
proof (intro allI impI)
  fix w assume a: "found w0 w"
  obtain e w1 where n: "next_fault w = (e, w1)" by fastforce
  have inv: "world_inv w1" using next_fault_inv [OF n] a by (simp add: found_def calm_world_def)
  have c: "calm_world (snd (mkdir p m w))" using calm.keeps_mkdir a by (simp add: keeps_def found_def)
  have l: "lookup w0 q = Some k \<Longrightarrow> lookup w1 q = Some k" for q k using a text_next_fault [OF n] by (simp add: found_def)
  then have "lookup w0 q = Some k \<Longrightarrow> dir w1 p = None \<Longrightarrow> lookup (create p i w1) q = Some k" for i q k
    using lookup_create [OF inv] lookup_iff [OF inv] by (auto simp: fun_upd_def) (metis option.distinct(1))
  moreover have "environ w1 = environ w" using n by (auto simp: next_fault_def split: list.splits)
  ultimately show "found w0 (snd (mkdir p m w))"
    using a c l n by (auto simp: found_def mkdir_def syscall_def create_def split: option.splits if_splits)
qed

section \<open>A process that only reads\<close>

text \<open>It has no exit handler yet, and the name of the lock is one of \<open>ls\<close>.\<close>

definition reading :: "string option set \<Rightarrow> world \<Rightarrow> world \<Rightarrow> string option \<Rightarrow> string option \<Rightarrow> config \<Rightarrow> bool \<Rightarrow> bool" where
  "reading ls w0 w l t c b \<longleftrightarrow> l \<in> ls \<and> \<not> b \<and> found w0 w"

lemma keeps_reading: "keeps (found w0) g \<Longrightarrow> keeps (\<lambda>w. reading ls w0 w l t c b) g"
  by (auto simp: keeps_def reading_def)

lemma tame_reading: "tame (found w0) L \<Longrightarrow> tame (\<lambda>w. reading ls w0 w l t c b) L"
  by (auto simp: tame_def reading_def keeps_def)

interpretation read: frame_unregistered "reading ls w0" for ls w0
proof
  show "reading ls w0 (emit e w) l t c b" if "reading ls w0 w l t c b" for e w l t c b
    using that calm.keeps_emit found_same [of w0 w "emit e w"] by (simp add: reading_def found_def emit_def)
qed (simp_all add: keeps_reading found_calls found_mkdir, simp add: reading_def)

interpretation start: frame_free "reading UNIV w0" for w0
  by unfold_locales (simp add: reading_def)

text \<open>\<open>lock_set\<close> stops at a lock that exists.\<close>

lemma lock_set_stops:
  fixes s :: "'r mdp"
  assumes "framed (reading {Some l} w0) s" "lookup w0 l = Some k"
  shows "wp lock_set (\<lambda>r s. framed (reading {Some l} w0) s \<and> (\<exists>h. r = Inl h)) s"
proof -
  let ?F = "framed (reading {Some l} w0) :: 'r mdp \<Rightarrow> bool"
  have l: "lock_path s = Some l" "honest (os s)" "lookup (os s) l = Some k"
    using assms by (auto simp: reading_def found_def calm_world_def)
  have "wp lock_exists (\<lambda>r s. ?F s \<and> (\<forall>b. r = Inr b \<longrightarrow> b)) s"
  proof -
    obtain r s' where e: "lock_exists s = (r, s')" by fastforce
    have "?F s'" using read.lock_exists_inv [unfolded act_inv_def, rule_format, of "{Some l}" w0 s] assms(1) e by (metis snd_conv)
    moreover have "wp lock_exists (\<lambda>r s. \<forall>b. r = Inr b \<longrightarrow> b) s"
      unfolding lock_exists_def using l
      by (intro wp_gets_then) (auto intro!: file_exists_wp)
    ultimately show ?thesis using e by (simp add: wp_def)
  qed
  then show ?thesis
    unfolding lock_set_def by (rule wp_seq) (auto intro!: wp_gets_then wp_stop)
qed

text \<open>The name of the lock after \<open>read_config\<close>.\<close>

lemma wp_any: "(\<And>h s. Q (Inl h) s) \<Longrightarrow> (\<And>x s. wp (g x) Q s) \<Longrightarrow> wp (bnd m g) Q s"
  by (rule wp_seq [where R = "\<lambda>r s. True"]) (simp_all add: wp_def [of m] split: prod.split)

interpretation lock_name: frame_checks "\<lambda>w l t c b. l = l0" for l0
  by unfold_locales (simp_all add: keeps_def)

lemma do_set_defaults_lock:
  "wp (do_set_defaults L d) (\<lambda>r s. r = Inr () \<longrightarrow> lock_path s = Some (in_dir d ''lock'')) s"
  unfolding do_set_defaults_def split_def
  by (rule wp_any, simp, rule wp_any, simp, rule wp_any, simp, rule wp_join_path_then) (simp_all add: wp_def modify_def)

lemma read_config_lock:
  fixes s :: "'r mdp"
  assumes "framed (reading UNIV w0) s" "environ w0 ''HOME'' = Some h"
  shows "wp (read_config L) (\<lambda>r s. framed (reading UNIV w0) s
    \<and> (r = Inr () \<longrightarrow> lock_path s = Some (in_dir (in_dir h ''.mdp'') ''lock''))) s"
proof -
  let ?Q = "\<lambda>r s. r = Inr () \<longrightarrow> lock_path s = Some (in_dir (in_dir h ''.mdp'') ''lock'')"
  have tail: "wp m ?Q s" if "act_inv (framed (\<lambda>w l t c b. l = Some (in_dir (in_dir h ''.mdp'') ''lock''))) m"
    "lock_path s = Some (in_dir (in_dir h ''.mdp'') ''lock'')" for m and s :: "'r mdp"
    using that by (auto simp: act_inv_def wp_def split: prod.split dest: spec [of _ s])
  have "wp (read_config L) ?Q s"
    unfolding read_config_def Let_def
  proof (rule read.home_then [OF assms(1)])
    fix h' and s' :: "'r mdp" assume "environ (os s) ''HOME'' = Some h'"
    then have h: "h' = h" using assms by (auto simp: reading_def found_def)
    show "wp (bnd (lift (join_path (lib_ok L) h' ''.mdp'')) (\<lambda>config_dir.
      bnd (config_ensure_directory config_dir) (\<lambda>_.
      bnd (editor_init L config_dir) (\<lambda>_.
      bnd (gets (\<lambda>s. cmd_config_path (opts s))) (\<lambda>c.
      bnd (lift (case c of None \<Rightarrow> join_path (lib_ok L) config_dir ''config'' | Some p \<Rightarrow> Inr p)) (\<lambda>path.
      bnd (set_opts (\<lambda>o'. o'\<lparr>cmd_config_path := Some path\<rparr>)) (\<lambda>_.
      bnd (config_check_file path) (\<lambda>_.
      bnd (do_config_read L path) (\<lambda>_.
      bnd (do_set_defaults L config_dir) (\<lambda>_.
      bnd (bnd (gets password_file) str_of) (\<lambda>pw.
      bnd (bnd (lift (xdirname (lib_ok L) pw)) str_of) (\<lambda>password_dir.
      bnd (config_ensure_directory password_dir) (\<lambda>_.
      config_check_password_file pw))))))))))))) ?Q s'"
      unfolding h
      by (rule wp_join_path_then, simp, intro wp_any wp_seq [OF do_set_defaults_lock] tail act_inv_intros lock_name.config_ensure_directory_inv
          lock_name.config_check_password_file_inv) simp_all
  qed simp
  moreover have "framed (reading UNIV w0) s'" if "read_config L s = (r, s')" for r s'
    using start.read_config_inv [unfolded act_inv_def, rule_format, of w0 s L] assms(1) that by (metis snd_conv)
  ultimately show ?thesis by (auto simp: wp_def split: prod.split)
qed

lemma run_command_reads:
  fixes s :: "'r mdp" and L :: "('r, 'p) lib"
  assumes "framed (reading {Some l} w0) s" "lookup w0 l = Some k" "tame (found w0) L"
  shows "wp (run_command L c args) (\<lambda>r. framed (reading {Some l} w0)) s"
proof -
  let ?F = "framed (reading {Some l} w0) :: 'r mdp \<Rightarrow> bool"
  note tame = tame_reading [OF assms(3)]
  have stops: "wp (bnd lock_set g) (\<lambda>r. ?F) s" if "?F s" for g :: "unit \<Rightarrow> ('r mdp, unit) act" and s
    by (rule wp_seq [OF lock_set_stops [OF that assms(2)]]) auto
  have step: "wp (bnd m g) (\<lambda>r. ?F) s" if "act_inv ?F m" "?F s" "\<And>x s. ?F s \<Longrightarrow> wp (g x) (\<lambda>r. ?F) s"
    for m :: "('r mdp, 'x) act" and g s
    by (rule wp_keeps [where P = ?F, OF that(1,2) _ that(3)])
  have edits: "wp (mdp_edit L) (\<lambda>r. ?F) s" "wp (mdp_add L) (\<lambda>r. ?F) s" if "?F s" for s
    unfolding mdp_edit_def mdp_add_def
    by (intro step stops read.debug_inv read.gpg_check_inv read.chosen_profile_inv tame that; assumption)+
  have whole: "wp m (\<lambda>r. ?F) s" if "act_inv ?F m" "?F s" for m :: "('r mdp, unit) act" and s
    using that by (auto simp: act_inv_def wp_def split: prod.split dest: spec [of _ s])
  show ?thesis
    unfolding run_command_def using assms(1)
    by (cases c; simp only: command.case)
      (intro step edits whole read.parse_inv read.queries_inv read.mdp_generate_inv tame; assumption)+
qed

section \<open>Whole runs\<close>

text \<open>C6. A run that starts while the lock exists changes no file: whatever the command, the arguments, the
  failing calls and the call at which it is killed, every file that was there, the lock and the
  password file included, is at the end what it was.\<close>

theorem locked_runs_change_nothing:
  fixes L :: "('r, 'p) lib"
  assumes "environ w ''HOME'' = Some h" "lookup w (in_dir (in_dir h ''.mdp'') ''lock'') = Some k"
    and "world_inv w" "honest w" "tame (found w) L"
    and "run_mdp L args (initial_state w g keys ls) = (oc, s')" "lookup w p = Some n"
  shows "lookup (os s') p = Some n"
proof -
  let ?P = "framed (reading UNIV w) :: 'r mdp \<Rightarrow> bool"
  let ?l = "in_dir (in_dir h ''.mdp'') ''lock''"
  have init: "?P (initial_state w g keys ls)"
    using assms(3,4) by (simp add: reading_def found_def calm_world_def initial_state_def)
  have step: "wp (bnd m g) (\<lambda>r. ?P) s" if "act_inv ?P m" "?P s" "\<And>x s. ?P s \<Longrightarrow> wp (g x) (\<lambda>r. ?P) s"
    for m :: "('r mdp, 'x) act" and g s
    by (rule wp_keeps [where P = ?P, OF that(1,2) _ that(3)])
  have last: "wp (bnd (debug m as) (\<lambda>_. ret x)) (\<lambda>r. ?P) s" if "?P s" for m as x and s :: "'r mdp"
    by (rule step [OF read.debug_inv that]) (simp add: wp_ret)
  have weak: "framed (reading {Some l} w) s \<Longrightarrow> ?P s" for l and s :: "'r mdp" by (simp add: reading_def)
  have command: "wp (bnd (lift (which_command a)) (\<lambda>c. bnd (run_command L c as) (\<lambda>_. bnd (debug ''normal shutdown'' []) (\<lambda>_. ret x)))) (\<lambda>r. ?P) s"
    if "?P s" "lock_path s = Some ?l" for a as x and s :: "'r mdp"
  proof (rule wp_seq [where R = "\<lambda>r s'. s' = s"])
    fix c s' assume "s' = s"
    have "framed (reading {Some ?l} w) s" using that by (simp add: reading_def)
    from run_command_reads [OF this assms(2,5), of c as]
    show "wp (bnd (run_command L c as) (\<lambda>_. bnd (debug ''normal shutdown'' []) (\<lambda>_. ret x))) (\<lambda>r. ?P) s'"
      unfolding \<open>s' = s\<close> by (rule wp_seq) (erule weak, rule last, erule weak)
  qed (use that(1) in \<open>simp_all add: wp_def lift_def\<close>)
  have read: "wp (bnd (read_config L) g) (\<lambda>r. ?P) s"
    if "?P s" "\<And>s. ?P s \<Longrightarrow> lock_path s = Some ?l \<Longrightarrow> wp (g ()) (\<lambda>r. ?P) s" for g and s :: "'r mdp"
    by (rule wp_seq [OF read_config_lock [OF that(1) assms(1)]]) (use that(2) in auto)
  have "wp (mdp_main L args) (\<lambda>r. ?P) (initial_state w g keys ls)"
    unfolding mdp_main_def
    by (assumption | rule init command read step read.parse_inv read.print_inv read.cmd_usage_core_inv act_inv_intros wp_if wp_stop)+
  then have "?P (snd (mdp_main L args (initial_state w g keys ls)))" by (simp add: wp_def split: prod.splits)
  moreover from this have "s' = snd (mdp_main L args (initial_state w g keys ls))"
    using read.finish_unregistered assms(6) by (metis run_mdp_def snd_conv)
  ultimately show ?thesis using assms(7) by (simp add: reading_def found_def)
qed

theorem locked_runs_change_nothing_witness:
  "\<exists>oc s'. run_mdp (demo_lib (\<lambda>c w. (0, w)) (\<lambda>f args t w. None)) [''add'']
      (initial_state (demo_world [(''/h/.mdp/lock'', regular ''42''), (''/h/p.gpg'', regular ''OLD'')]) 0 [] []) = (oc, s')
    \<and> lookup (os s') ''/h/p.gpg'' = Some (regular ''OLD'')"
proof -
  let ?w = "demo_world [(''/h/.mdp/lock'', regular ''42''), (''/h/p.gpg'', regular ''OLD'')]"
  let ?L = "demo_lib (\<lambda>c w. (0, w)) (\<lambda>f args t w. None)"
  obtain oc s' where r: "run_mdp ?L [''add''] (initial_state ?w 0 [] []) = (oc, s')" by fastforce
  have "environ ?w ''HOME'' = Some ''/h''" "honest ?w" "tame (found ?w) ?L"
    by (simp_all add: demo_world_def honest_def tame_def keeps_def demo_lib_def)
  moreover have "lookup ?w (in_dir (in_dir ''/h'' ''.mdp'') ''lock'') = Some (regular ''42'')"
    by (simp add: demo_lookup in_dir_def)
  ultimately have "lookup (os s') ''/h/p.gpg'' = Some (regular ''OLD'')"
    using locked_runs_change_nothing [OF _ _ demo_world_inv _ _ r] by (simp add: demo_lookup)
  with r show ?thesis by blast
qed

end
