(* ===== verification/LockRace.thy ===== *)
theory LockRace
  imports Safety
begin

text \<open>
  Several mdp processes around one lock file. A process takes the lock by the system calls of
  \<open>lock_set\<close>: \<open>stat\<close> (in \<open>lock_exists\<close>), \<open>fopen\<close>, \<open>fprintf\<close> with \<open>fclose\<close>; then it registers its
  handlers. Each of the handlers, at the end of the program and for \<open>SIGINT\<close>, releases the lock by the
  calls of \<open>lock_unset\<close>: \<open>stat\<close> and, when there is a file, \<open>unlink\<close>, whoever has created that file. A
  child that the program forks for GnuPG or as a watcher inherits the handlers until it is another
  program: it runs them when it ends through \<open>err\<close>, and at a \<open>SIGINT\<close>. Between two calls any other
  process may run. The calls are those of the shared file system, so a step exists exactly when
  the call returns that way, and a process dies when it is killed in place of its next call.
\<close>

section \<open>Processes\<close>

text \<open>The program that has the lock, the same after its \<open>SIGINT\<close> handler, and a forked child.\<close>

datatype role = Owner | Interrupted | Child

text \<open>
  \<open>Holding\<close> is the return of \<open>lock_set\<close>, \<open>Working\<close> the work with both handlers registered.
  \<open>Statting c\<close> and \<open>Unlinking c\<close> are before the two calls of \<open>lock_unset\<close> in a handler that goes on to
  \<open>c\<close>: to its end, \<open>Gone\<close>, in the exit handler, and back to where it was in the \<open>SIGINT\<close> handler.
\<close>

datatype pc = Idle | Refused | Checked | Opened nat | Holding | Working role
  | Statting pc | Unlinking pc | Gone role | Dead

text \<open>Where the \<open>SIGINT\<close> handler can start: not in itself, as \<open>SIGINT\<close> is blocked there.\<close>

fun interruptible :: "pc \<Rightarrow> bool" where
  "interruptible (Working r) = True"
| "interruptible (Statting c) = (\<exists>r. c = Gone r)"
| "interruptible (Unlinking c) = (\<exists>r. c = Gone r)"
| "interruptible _ = False"

text \<open>Where the program goes on after the \<open>SIGINT\<close> handler: the handler does not end it.\<close>

fun resumed :: "pc \<Rightarrow> pc" where
  "resumed (Working Owner) = Working Interrupted"
| "resumed c = c"

text \<open>
  A failing call of a handler ends in \<open>err\<close>: in the \<open>SIGINT\<close> handler of a running program the exit
  handler runs next, in the exit handler \<open>exit\<close> is called twice, which is undefined.
\<close>

fun failing :: "pc \<Rightarrow> pc" where
  "failing (Working r) = Statting (Gone r)"
| "failing _ = Dead"

text \<open>
  \<open>works\<close> is any other call of a running program or child, which leaves the lock file alone.
  \<open>replaced\<close> is a child that becomes another program or ends without the handler.
\<close>

inductive lock_step :: "string \<Rightarrow> world \<times> (nat \<Rightarrow> pc) \<Rightarrow> world \<times> (nat \<Rightarrow> pc) \<Rightarrow> bool" for p where
  held: "pcs i = Idle \<Longrightarrow> stat p w = (Inr n, w') \<Longrightarrow> lock_step p (w, pcs) (w', pcs(i := Refused))"
| free: "pcs i = Idle \<Longrightarrow> stat p w = (Inl ENOENT, w') \<Longrightarrow> lock_step p (w, pcs) (w', pcs(i := Checked))"
| refused: "pcs i = Idle \<Longrightarrow> stat p w = (Inl e, w') \<Longrightarrow> e \<noteq> ENOENT \<Longrightarrow> e \<noteq> KILL \<Longrightarrow>
    lock_step p (w, pcs) (w', pcs(i := Refused))"
| opened: "pcs i = Checked \<Longrightarrow> fopen_w p w = (Inr fd, w') \<Longrightarrow> lock_step p (w, pcs) (w', pcs(i := Opened fd))"
| unopened: "pcs i = Checked \<Longrightarrow> fopen_w p w = (Inl e, w') \<Longrightarrow> lock_step p (w, pcs) (w', pcs(i := Dead))"
| written: "pcs i = Opened fd \<Longrightarrow> write_fd fd data w = (r, w1) \<Longrightarrow> r \<noteq> Inl KILL \<Longrightarrow> close_fd fd w1 = (r', w') \<Longrightarrow>
    r' \<noteq> Inl KILL \<Longrightarrow>
    lock_step p (w, pcs) (w', pcs(i := Holding))"
| guarded: "pcs i = Holding \<Longrightarrow> simple_call w = (Inr (), w') \<Longrightarrow> lock_step p (w, pcs) (w', pcs(i := Working Owner))"
| unguarded: "pcs i = Holding \<Longrightarrow> simple_call w = (Inl e, w') \<Longrightarrow> e \<noteq> KILL \<Longrightarrow>
    lock_step p (w, pcs) (w', pcs(i := Gone Owner))"
| works: "pcs i = Working r \<Longrightarrow> lookup w' p = lookup w p \<Longrightarrow> (honest w \<Longrightarrow> honest w') \<Longrightarrow> lock_step p (w, pcs) (w', pcs)"
| crashed: "pcs i = Working r \<Longrightarrow> lock_step p (w, pcs) (w, pcs(i := Dead))"
| forked: "pcs i = Working r \<Longrightarrow> r \<noteq> Child \<Longrightarrow> pcs j = Idle \<Longrightarrow> simple_call w = (Inr (), w') \<Longrightarrow>
    lock_step p (w, pcs) (w', pcs(j := Working Child))"
| replaced: "pcs i = Working Child \<Longrightarrow> lock_step p (w, pcs) (w, pcs(i := Gone Child))"
| exits: "pcs i = Working r \<Longrightarrow> lock_step p (w, pcs) (w, pcs(i := Statting (Gone r)))"
| interrupted: "interruptible (pcs i) \<Longrightarrow> lock_step p (w, pcs) (w, pcs(i := Statting (resumed (pcs i))))"
| there: "pcs i = Statting c \<Longrightarrow> stat p w = (Inr n, w') \<Longrightarrow> lock_step p (w, pcs) (w', pcs(i := Unlinking c))"
| absent: "pcs i = Statting c \<Longrightarrow> stat p w = (Inl ENOENT, w') \<Longrightarrow> lock_step p (w, pcs) (w', pcs(i := c))"
| unknown: "pcs i = Statting c \<Longrightarrow> stat p w = (Inl e, w') \<Longrightarrow> e \<noteq> ENOENT \<Longrightarrow> e \<noteq> KILL \<Longrightarrow>
    lock_step p (w, pcs) (w', pcs(i := failing c))"
| removed: "pcs i = Unlinking c \<Longrightarrow> unlink p w = (Inr (), w') \<Longrightarrow> lock_step p (w, pcs) (w', pcs(i := c))"
| unremoved: "pcs i = Unlinking c \<Longrightarrow> unlink p w = (Inl e, w') \<Longrightarrow> e \<noteq> KILL \<Longrightarrow>
    lock_step p (w, pcs) (w', pcs(i := failing c))"

| killed: "pcs i = c \<Longrightarrow> c \<noteq> Dead \<Longrightarrow> next_fault w = (Some KILL, w') \<Longrightarrow> lock_step p (w, pcs) (w', pcs(i := Dead))"

lemmas lock_step_intros = lock_step.intros

inductive_cases lock_stepE: "lock_step p (w, pcs) (w', pcs')"

text \<open>The process has the lock: it may change the password file.\<close>

definition holds :: "pc \<Rightarrow> bool" where
  "holds c \<longleftrightarrow> c = Holding \<or> c = Working Owner"

section \<open>lock_set is a sequence of these steps\<close>

text \<open>C28. A \<open>lock_set\<close> that returns is, seen from the file system, the steps of one process from
  \<open>Idle\<close> to \<open>Holding\<close>: the interleaving model is a refinement of the function.\<close>

theorem lock_set_is_steps:
  assumes "lock_set s = (Inr (), s')" "lock_path s = Some l" "pcs i = Idle"
  shows "rtranclp (lock_step l) (os s, pcs) (os s', pcs(i := Holding))"
proof -
  obtain w1 w2 w3 w4 fd r r' where w: "stat l (os s) = (Inl ENOENT, w1)" "fopen_w l w1 = (Inr fd, w2)"
      "write_fd fd (dec_int (int (my_pid w2))) w2 = (r, w3)" "close_fd fd w3 = (r', w4)" "os s' = w4"
      "r \<noteq> Inl KILL" "r' \<noteq> Inl KILL"
    using assms(1,2)
    by (auto simp: lock_set_def lock_exists_def file_exists_def str_of_def ebind_simps sys_def
        split: prod.splits sum.splits if_splits option.splits)
  have 1: "lock_step l (os s, pcs) (w1, pcs(i := Checked))" using assms(3) w(1) by (rule free)
  have 2: "lock_step l (w1, pcs(i := Checked)) (w2, pcs(i := Opened fd))"
    using opened [of "pcs(i := Checked)" i l w1 fd w2] w(2) by simp
  have 3: "lock_step l (w2, pcs(i := Opened fd)) (w4, pcs(i := Holding))"
    using written [of "pcs(i := Opened fd)" i fd _ w2 r w3 r' w4 l] w(3,4,6,7) by simp
  from 1 2 3 show ?thesis unfolding w(5) by (meson rtranclp.rtrancl_into_rtrancl rtranclp.rtrancl_refl)
qed

theorem lock_set_is_steps_witness:
  "\<exists>s'. lock_set (demo_state None (demo_world [])) = (Inr (), s')
    \<and> rtranclp (lock_step ''/h/lock'') (demo_world [], \<lambda>i. Idle) (os s', (\<lambda>i. Idle)(3 := Holding))"
proof -
  have "fst (lock_set (demo_state None (demo_world []))) = Inr ()"
    by (simp add: lock_set_def lock_exists_def file_exists_def str_of_def ebind_simps sys_def stat_def fopen_w_def
        write_fd_def close_fd_def syscall_def next_fault_def create_def lookup_def demo_world_def)
  then obtain s' where "lock_set (demo_state None (demo_world [])) = (Inr (), s')" by (metis prod.collapse)
  from this lock_set_is_steps [OF this, of "''/h/lock''" "\<lambda>i. Idle" 3] show ?thesis by auto
qed

text \<open>In the same way a \<open>lock_unset\<close> that returns is the steps of a handler.\<close>

lemma lock_unset_is_steps:
  assumes "lock_unset s = (Inr (), s')" "lock_path s = Some l" "pcs i = Statting c"
  shows "rtranclp (lock_step l) (os s, pcs) (os s', pcs(i := c))"
proof -
  obtain r w1 where st: "stat l (os s) = (r, w1)" by fastforce
  consider "r = Inl ENOENT" "os s' = w1" | n where "r = Inr n" "unlink l w1 = (Inr (), os s')"
    using assms(1,2) st
    by (auto simp: lock_unset_def lock_exists_def file_exists_def str_of_def ebind_simps sys_def sys_or_def
        split: prod.splits sum.splits if_splits)
  then show ?thesis
  proof cases
    case 1
    then show ?thesis using absent [of pcs i c l "os s" w1] assms(3) st by auto
  next
    case (2 n)
    have "lock_step l (os s, pcs) (w1, pcs(i := Unlinking c))" using there [of pcs i c l "os s" n w1] assms(3) st 2 by simp
    moreover have "lock_step l (w1, pcs(i := Unlinking c)) (os s', pcs(i := c))"
      using removed [of "pcs(i := Unlinking c)" i c l w1 "os s'"] 2 by simp
    ultimately show ?thesis by (meson rtranclp.rtrancl_into_rtrancl rtranclp.rtrancl_refl)
  qed
qed

section \<open>Mutual exclusion\<close>

text \<open>The process is past its check and has not released the lock.\<close>

fun busy :: "pc \<Rightarrow> bool" where
  "busy Checked = True"
| "busy (Opened fd) = True"
| "busy Holding = True"
| "busy (Working r) = (r = Owner)"
| "busy (Statting c) = (c = Gone Owner)"
| "busy (Unlinking c) = (c = Gone Owner)"
| "busy _ = False"

text \<open>The process has created the lock file and has not removed it.\<close>

definition created :: "pc \<Rightarrow> bool" where
  "created c \<longleftrightarrow> busy c \<and> c \<noteq> Checked"

text \<open>No two processes are between their check and their creation.\<close>

definition one_check :: "(nat \<Rightarrow> pc) \<Rightarrow> bool" where
  "one_check pcs \<longleftrightarrow> (\<forall>i j. pcs i = Checked \<and> pcs j = Checked \<longrightarrow> i = j)"

text \<open>The \<open>SIGINT\<close> handler does not run and has not run; no child runs the exit handler.\<close>

fun sigint_free :: "pc \<Rightarrow> bool" where
  "sigint_free (Working r) = (r \<noteq> Interrupted)"
| "sigint_free (Statting c) = (c = Gone Owner \<or> c = Gone Child)"
| "sigint_free (Unlinking c) = (c = Gone Owner \<or> c = Gone Child)"
| "sigint_free _ = True"

definition no_sigint :: "(nat \<Rightarrow> pc) \<Rightarrow> bool" where
  "no_sigint pcs \<longleftrightarrow> (\<forall>i. sigint_free (pcs i))"

definition no_failing_child :: "(nat \<Rightarrow> pc) \<Rightarrow> bool" where
  "no_failing_child pcs \<longleftrightarrow> (\<forall>i. pcs i \<noteq> Statting (Gone Child) \<and> pcs i \<noteq> Unlinking (Gone Child))"

definition undisturbed :: "(nat \<Rightarrow> pc) \<Rightarrow> bool" where
  "undisturbed pcs \<longleftrightarrow> no_sigint pcs \<and> no_failing_child pcs"

lemma undisturbed_iff: "undisturbed pcs \<longleftrightarrow> (\<forall>i. pcs i \<noteq> Working Interrupted
    \<and> (\<forall>c. pcs i = Statting c \<or> pcs i = Unlinking c \<longrightarrow> c = Gone Owner))"
proof -
  have "sigint_free a \<and> a \<noteq> Statting (Gone Child) \<and> a \<noteq> Unlinking (Gone Child) \<longleftrightarrow> a \<noteq> Working Interrupted
    \<and> (\<forall>c. a = Statting c \<or> a = Unlinking c \<longrightarrow> c = Gone Owner)" for a
    by (cases a rule: sigint_free.cases) auto
  then show ?thesis unfolding undisturbed_def no_sigint_def no_failing_child_def by blast
qed

text \<open>Steps into states with a property.\<close>

definition steps_in :: "((nat \<Rightarrow> pc) \<Rightarrow> bool) \<Rightarrow> string \<Rightarrow> world \<times> (nat \<Rightarrow> pc) \<Rightarrow> world \<times> (nat \<Rightarrow> pc) \<Rightarrow> bool" where
  "steps_in G p a b \<longleftrightarrow> lock_step p a b \<and> G (snd b)"

definition calm_step :: "string \<Rightarrow> world \<times> (nat \<Rightarrow> pc) \<Rightarrow> world \<times> (nat \<Rightarrow> pc) \<Rightarrow> bool" where
  "calm_step = steps_in (\<lambda>pcs. one_check pcs \<and> undisturbed pcs)"

text \<open>At most one process is busy, and the lock file exists while someone has created it.\<close>

definition lock_inv :: "string \<Rightarrow> world \<times> (nat \<Rightarrow> pc) \<Rightarrow> bool" where
  "lock_inv p a \<longleftrightarrow> honest (fst a) \<and> (\<forall>i j. busy (snd a i) \<and> busy (snd a j) \<longrightarrow> i = j)
     \<and> (\<forall>i. created (snd a i) \<longrightarrow> lookup (fst a) p \<noteq> None)"

lemma next_fault_honest: "next_fault w = (e, w') \<Longrightarrow> honest w \<Longrightarrow> honest w'"
  by (auto simp: next_fault_def honest_def split: list.splits)

lemma calls_honest:
  "stat p w = (r, w') \<Longrightarrow> honest w \<Longrightarrow> honest w'"
  "fopen_w p w = (r2, w') \<Longrightarrow> honest w \<Longrightarrow> honest w'"
  "write_fd fd data w = (r3, w') \<Longrightarrow> honest w \<Longrightarrow> honest w'"
  "close_fd fd w = (r3, w') \<Longrightarrow> honest w \<Longrightarrow> honest w'"
  "unlink p w = (r3, w') \<Longrightarrow> honest w \<Longrightarrow> honest w'"
  "simple_call w = (r3, w') \<Longrightarrow> honest w \<Longrightarrow> honest w'"
  using hon.checks_keep hon.calls_keep unfolding keeps_def by (metis snd_conv)+

lemma fopen_w_lookup: "fopen_w p w = (Inr fd, w') \<Longrightarrow> lookup w' p \<noteq> None"
  unfolding fopen_w_def by (erule syscall_cases) (auto simp: lookup_def create_def split: option.splits if_splits)

lemma fopen_w_fails: "fopen_w p w = (Inl e, w') \<Longrightarrow> lookup w' = lookup w"
  unfolding fopen_w_def by (erule syscall_cases) (auto split: option.splits if_splits)

lemma write_close_lookup:
  assumes "write_fd fd data w = (r, w1)" "close_fd fd w1 = (r', w')" "lookup w p \<noteq> None"
  shows "lookup w' p \<noteq> None"
proof -
  have "lookup w1 p \<noteq> None" using assms(1,3) unfolding write_fd_def
    by (elim syscall_cases) (auto simp: lookup_def split: option.splits)
  then show ?thesis using assms(2) unfolding close_fd_def by (elim syscall_cases) auto
qed

lemma lock_invI:
  assumes "honest w" "\<And>j. busy (pcs j) \<Longrightarrow> j = i" "\<And>j. created (pcs j) \<Longrightarrow> lookup w p \<noteq> None"
  shows "lock_inv p (w, pcs)"
  unfolding lock_inv_def fst_conv snd_conv using assms by blast

text \<open>A process that becomes no busier, in a world that keeps the lock file.\<close>

lemma lock_inv_less:
  assumes "lock_inv p (w, pcs)" "honest w'" "lookup w p \<noteq> None \<Longrightarrow> lookup w' p \<noteq> None"
    and "busy c \<Longrightarrow> busy (pcs i)" "created c \<Longrightarrow> created (pcs i)"
  shows "lock_inv p (w', pcs(i := c))"
  using assms by (auto simp: lock_inv_def)

lemma not_busy [simp]: "\<not> busy (failing (Gone r))" "\<not> busy (resumed c) \<or> busy c"
  by (simp, cases c rule: resumed.cases) simp_all

lemma created_simps [simp]:
  "created (Gone r) = False" "created Dead = False" "created (Working r) = (r = Owner)" "created Holding"
  "created Refused = False" "created (Opened fd)"
  "created (Statting c) = (c = Gone Owner)" "created (Unlinking c) = (c = Gone Owner)"
  by (simp_all add: created_def)

lemma lock_inv_step:
  assumes "calm_step p (w, pcs) (w', pcs')" "lock_inv p (w, pcs)" "undisturbed pcs"
  shows "lock_inv p (w', pcs')"
proof -
  have st: "lock_step p (w, pcs) (w', pcs')" and one: "one_check pcs'" and u: "undisturbed pcs'"
    using assms(1) by (auto simp: calm_step_def steps_in_def)
  have h: "honest w" using assms(2) by (simp add: lock_inv_def)
  note less = lock_inv_less [OF assms(2)]
  have c: "pcs i = Statting c \<or> pcs i = Unlinking c \<Longrightarrow> c = Gone Owner" for i c
    using assms(3) by (auto simp: undisturbed_iff)
  from st show ?thesis
  proof cases
    case (free i)
    have n: "lookup w p = None" by (rule stat_enoent [OF free(3) h])
    then have nc: "\<not> created (pcs' j)" for j using assms(2) free(1) by (auto simp: lock_inv_def created_def)
    have "j = i" if "busy (pcs' j)" for j
    proof -
      have "pcs' j = Checked" "pcs' i = Checked" using that nc [of j] free(1) by (simp_all add: created_def)
      then show ?thesis using one unfolding one_check_def by blast
    qed
    then show ?thesis using nc by (intro lock_invI [OF calls_honest(1) [OF free(3) h]]) blast+
  next
    case (opened i fd)
    have "j = i" if "busy (pcs' j)" for j
      using assms(2) that opened(1,2) by (cases "j = i") (auto simp: lock_inv_def)
    then show ?thesis by (rule lock_invI [OF calls_honest(2) [OF opened(3) h] _ fopen_w_lookup [OF opened(3)]])
  next
    case (removed i c')
    have "c' = Gone Owner" using c removed(2) by blast
    then have "\<not> busy (pcs' j)" for j
      using assms(2) removed(1,2) by (cases "j = i") (auto simp: lock_inv_def)
    then show ?thesis by (intro lock_invI [OF calls_honest(5) [OF removed(3) h], where i = i]) (auto simp: created_def)
  next
    case (held i n)
    then show ?thesis using calls_honest(1) [OF held(3) h] stat_effect [OF held(3)] by (auto intro!: less)
  next
    case (refused i e)
    then show ?thesis using calls_honest(1) [OF refused(3) h] stat_effect [OF refused(3)] by (auto intro!: less)
  next
    case (unopened i e)
    then show ?thesis using calls_honest(2) [OF unopened(3) h] fopen_w_fails [OF unopened(3)] by (auto intro!: less)
  next
    case (written i fd data r w1 r')
    then show ?thesis
      using calls_honest(4) [OF written(5) calls_honest(3) [OF written(3) h]] write_close_lookup [OF written(3,5)]
      by (auto intro!: less)
  next
    case (guarded i)
    then show ?thesis using calls_honest(6) [OF guarded(3) h] simple_effect [OF guarded(3)] by (auto intro!: less)
  next
    case (unguarded i e)
    then show ?thesis using calls_honest(6) [OF unguarded(3) h] simple_effect [OF unguarded(3)] by (auto intro!: less)
  next
    case (works i r)
    have "lock_inv p (w', pcs(i := pcs i))" using works(3,4) h by (intro less) simp_all
    then show ?thesis unfolding works(1) by simp
  next
    case (crashed i r)
    then show ?thesis using h by (auto intro!: less)
  next
    case (forked i r j)
    then show ?thesis using calls_honest(6) [OF forked(5) h] simple_effect [OF forked(5)] by (auto intro!: less)
  next
    case (replaced i)
    then show ?thesis using h by (auto intro!: less)
  next
    case (exits i r)
    then show ?thesis using h by (auto intro!: less)
  next
    case (interrupted i)
    have "resumed (pcs i) = Gone Owner" using u unfolding interrupted(2) undisturbed_iff by (metis fun_upd_same)
    moreover have "resumed a = Gone Owner \<Longrightarrow> a = Gone Owner" for a by (cases a rule: resumed.cases) simp_all
    ultimately show ?thesis using interrupted(3) by fastforce
  next
    case (there i c' n)
    then show ?thesis using calls_honest(1) [OF there(3) h] stat_effect [OF there(3)] by (auto intro!: less)
  next
    case (absent i c')
    have "c' = Gone Owner" using c absent(2) by blast
    with absent show ?thesis using calls_honest(1) [OF absent(3) h] stat_effect [OF absent(3)] \<open>c' = Gone Owner\<close> by (auto intro!: less)
  next
    case (unknown i c' e)
    have "c' = Gone Owner" using c unknown(2) by blast
    with unknown show ?thesis using calls_honest(1) [OF unknown(3) h] stat_effect [OF unknown(3)] \<open>c' = Gone Owner\<close> by (auto intro!: less)
  next
    case (unremoved i c' e)
    have "c' = Gone Owner" using c unremoved(2) by blast
    with unremoved show ?thesis using calls_honest(5) [OF unremoved(3) h] unlink_effect [OF unremoved(3)] \<open>c' = Gone Owner\<close> by (auto intro!: less)
  next
    case (killed i c')
    then show ?thesis using next_fault_honest [OF killed(4) h] text_next_fault [OF killed(4)] by (auto intro!: less)
  qed
qed

lemma calm_steps_inv:
  assumes "rtranclp (calm_step p) (w, \<lambda>i. Idle) a" "honest w"
  shows "lock_inv p a \<and> undisturbed (snd a)"
  using assms(1)
proof (induction rule: rtranclp_induct)
  case base
  then show ?case using assms(2) by (simp add: lock_inv_def undisturbed_iff created_def)
next
  case (step a b)
  then have "undisturbed (snd b)" by (simp add: calm_step_def steps_in_def)
  with step lock_inv_step show ?case by (cases a, cases b) auto
qed

lemma holds_busy: "holds c \<Longrightarrow> busy c \<and> created c"
  by (auto simp: holds_def)

text \<open>C17. The lock excludes, in runs in which no process checks the lock while another one is between its
  check and its creation, no \<open>SIGINT\<close> handler runs and no forked child ends through \<open>err\<close>: at most one
  process has the lock, and the lock file exists while it does. Processes may be killed or crash at
  any point, calls may fail, and children may run and become other programs. Without one of the
  three conditions exclusion fails, as the last two sections show.\<close>

theorem lock_excludes_in_calm_runs:
  assumes "rtranclp (calm_step p) (w, \<lambda>i. Idle) (w', pcs)" "honest w"
  shows "(holds (pcs i) \<longrightarrow> lookup w' p \<noteq> None) \<and> (holds (pcs i) \<and> holds (pcs j) \<longrightarrow> i = j)"
  using calm_steps_inv [OF assms] holds_busy by (auto simp: lock_inv_def) blast+

section \<open>One process takes the lock, one handler removes it\<close>

lemma write_close_returns:
  assumes "passes (Suc 1) w"
  obtains r w1 r' w2 where "write_fd fd data w = (r, w1)" "close_fd fd w1 = (r', w2)" "r \<noteq> Inl KILL" "r' \<noteq> Inl KILL"
    "faults w2 = drop 2 (faults w)"
proof -
  obtain r w1 where w: "write_fd fd data w = (r, w1)" "r \<noteq> Inl KILL" "faults w1 = tl (faults w)"
    by (cases "node w fd") (simp_all add: write_fd_def passes_syscall [OF assms])
  have "passes (Suc 0) w1" using passes_next [of 1 w w1] assms w(3) by simp
  then have "close_fd fd w1 = (Inr (), w1\<lparr>faults := tl (faults w1)\<rparr>)" by (simp add: close_fd_def passes_syscall)
  then show thesis by (rule that [OF w(1) _ w(2)]) (simp_all add: w(3) drop_Suc numeral_eq_Suc)
qed

text \<open>The lock exists as a file.\<close>

definition locked_in :: "string \<Rightarrow> world \<Rightarrow> bool" where
  "locked_in l w \<longleftrightarrow> world_inv w \<and> (\<exists>n. lookup w l = Some n \<and> kind n \<noteq> Dir)"

lemma write_close_locked:
  assumes "write_fd fd data w = (r, w1)" "close_fd fd w1 = (r', w')" "locked_in l w"
  shows "locked_in l w'"
proof -
  have i: "world_inv w'" using assms wf.keeps_write wf.keeps_close unfolding keeps_def locked_in_def by (metis snd_conv)
  obtain n where n: "lookup w l = Some n" "kind n \<noteq> Dir" using assms(3) by (auto simp: locked_in_def)
  have "\<exists>m. lookup w1 l = Some m \<and> kind m \<noteq> Dir" using assms(1) n unfolding write_fd_def
    by (elim syscall_cases) (auto simp: lookup_def split: option.splits)
  moreover have "lookup w' = lookup w1" using assms(2) unfolding close_fd_def by (elim syscall_cases) auto
  ultimately show ?thesis using i by (simp add: locked_in_def)
qed

lemma takes_lock:
  assumes "lookup w l = None" "passes 4 w" "world_inv w" "pcs i = Idle"
    and "\<And>fd. G (pcs(i := Checked)) \<and> G (pcs(i := Opened fd)) \<and> G (pcs(i := Holding))"
  shows "\<exists>w'. rtranclp (steps_in G l) (w, pcs) (w', pcs(i := Holding)) \<and> faults w' = drop 4 (faults w) \<and> locked_in l w'"
proof -
  let ?w0 = "w\<lparr>faults := tl (faults w)\<rparr>"
  have p: "passes (Suc 3) w" "passes (Suc 2) ?w0" using assms(2) passes_next [of 3 w ?w0]
    by (simp_all add: numeral_eq_Suc)
  have st: "stat l w = (Inl ENOENT, ?w0)" using assms(1)
    by (auto simp: stat_def passes_syscall [OF p(1)] lookup_def split: option.splits)
  have d: "dir w l = None" using assms by (simp add: lookup_iff)
  then obtain fd w1 where o: "fopen_w l ?w0 = (Inr fd, w1)" "faults w1 = tl (faults ?w0)" "\<exists>n. lookup w1 l = Some n \<and> kind n = Reg"
    by (simp add: fopen_w_def passes_syscall [OF p(2)] create_def lookup_def)
  have "world_inv w1" using assms(3) st o(1) wf.keeps_stat wf.keeps_fopen_w unfolding keeps_def by (metis snd_conv)
  then have l1: "locked_in l w1" using o(3) by (auto simp: locked_in_def)
  have "passes (Suc 1) w1" using passes_next [OF p(2) o(2)] by (simp add: numeral_eq_Suc)
  then obtain r w2 r' w3 where h: "write_fd fd [] w1 = (r, w2)" "close_fd fd w2 = (r', w3)" "r \<noteq> Inl KILL" "r' \<noteq> Inl KILL"
      "faults w3 = drop 2 (faults w1)"
    by (rule write_close_returns [where data = "[]"])
  have "steps_in G l (w, pcs) (?w0, pcs(i := Checked))"
    using free [of pcs i l w ?w0] st assms(4,5) by (simp add: steps_in_def)
  moreover have "steps_in G l (?w0, pcs(i := Checked)) (w1, pcs(i := Opened fd))"
    using opened [of "pcs(i := Checked)" i l ?w0 fd w1] o assms(5) by (simp add: steps_in_def)
  moreover have "steps_in G l (w1, pcs(i := Opened fd)) (w3, pcs(i := Holding))"
    using written [of "pcs(i := Opened fd)" i fd "[]" w1 r w2 r' w3 l] h assms(5) by (simp add: steps_in_def)
  ultimately have "rtranclp (steps_in G l) (w, pcs) (w3, pcs(i := Holding))"
    by (meson rtranclp.rtrancl_into_rtrancl rtranclp.rtrancl_refl)
  moreover have "faults w3 = drop 4 (faults w)" by (simp add: h(5) o(2) drop_Suc numeral_eq_Suc)
  ultimately show ?thesis using write_close_locked [OF h(1,2) l1] by blast
qed

lemma calm_run:
  assumes "lookup w l = None" "passes 4 w" "world_inv w"
  shows "\<exists>w'. rtranclp (calm_step l) (w, \<lambda>i. Idle) (w', (\<lambda>i. Idle)(1 := Holding)) \<and> faults w' = drop 4 (faults w)"
proof -
  let ?G = "\<lambda>pcs. one_check pcs \<and> undisturbed pcs"
  have "?G ((\<lambda>i. Idle)(1 := Checked)) \<and> ?G ((\<lambda>i. Idle)(1 := Opened fd)) \<and> ?G ((\<lambda>i. Idle)(1 := Holding))" for fd
    by (simp add: one_check_def undisturbed_iff)
  from takes_lock [OF assms, of "\<lambda>i. Idle" 1 ?G, OF refl this] show ?thesis unfolding calm_step_def by blast
qed

theorem lock_excludes_in_calm_runs_witness:
  "\<exists>w'. rtranclp (calm_step ''/h/lock'') (demo_world [], \<lambda>i. Idle) (w', (\<lambda>i. Idle)(1 := Holding))
    \<and> lookup w' ''/h/lock'' \<noteq> None"
proof -
  obtain w' where "rtranclp (calm_step ''/h/lock'') (demo_world [], \<lambda>i. Idle) (w', (\<lambda>i. Idle)(1 := Holding))"
    using calm_run [of "demo_world []" "''/h/lock''"] by (auto simp: demo_lookup demo_world_inv passes_def)
  from this lock_excludes_in_calm_runs [OF this, of 1] show ?thesis by (auto simp: honest_def holds_def)
qed

section \<open>A dead holder\<close>

text \<open>A process that will not touch the lock, or only look at it.\<close>

fun inert :: "pc \<Rightarrow> bool" where
  "inert Idle = True"
| "inert Refused = True"
| "inert (Gone r) = True"
| "inert Dead = True"
| "inert _ = False"

definition blocked :: "string \<Rightarrow> world \<times> (nat \<Rightarrow> pc) \<Rightarrow> bool" where
  "blocked p a \<longleftrightarrow> honest (fst a) \<and> lookup (fst a) p \<noteq> None \<and> (\<forall>i. inert (snd a i))"

lemma blocked_step:
  assumes "lock_step p (w, pcs) (w', pcs')" "blocked p (w, pcs)"
  shows "blocked p (w', pcs')"
proof -
  have h: "honest w" and l: "lookup w p \<noteq> None" and b: "\<And>i. inert (pcs i)"
    using assms(2) by (auto simp: blocked_def)
  from assms(1) show ?thesis
  proof cases
    case (held i n)
    have "lookup w' = lookup w" using stat_effect [OF held(3)] by simp
    then show ?thesis using l b calls_honest(1) [OF held(3) h] held(1) by (simp add: blocked_def)
  next
    case (free i)
    then show ?thesis using stat_enoent [OF free(3) h] l by simp
  next
    case (refused i e)
    have "lookup w' = lookup w" using stat_effect [OF refused(3)] by simp
    then show ?thesis using l b calls_honest(1) [OF refused(3) h] refused(1) by (simp add: blocked_def)
  next
    case (interrupted i)
    then show ?thesis using b [of i] by (cases "pcs i") simp_all
  next
    case (killed i c)
    have "lookup w' = lookup w" using text_next_fault [OF killed(4)] by simp
    then show ?thesis using l b next_fault_honest [OF killed(4) h] killed(1) by (simp add: blocked_def)
  qed (use b in \<open>metis inert.simps\<close>)+
qed

text \<open>Beside the one that has the lock, only its children can still run.\<close>

lemma others_inert:
  assumes "lock_inv p (w, pcs)" "undisturbed pcs" "busy (pcs i)" "j \<noteq> i" "pcs j \<noteq> Working Child"
  shows "inert (pcs j)"
proof -
  have "\<not> busy (pcs j)" using assms(1,3,4) unfolding lock_inv_def snd_conv by blast
  moreover have "\<And>c. pcs j = Statting c \<or> pcs j = Unlinking c \<Longrightarrow> c = Gone Owner" "pcs j \<noteq> Working Interrupted"
    using assms(2) unfolding undisturbed_iff by blast+
  ultimately show ?thesis using assms(5)
    by (cases "pcs j" rule: inert.cases) (auto, metis role.exhaust)
qed

text \<open>C18. A process that is killed while it has the lock, and while it has no forked child that could still
  run the inherited handler, leaves the lock file, and nothing removes it: from then on, whatever
  calls fail, whatever the other processes do and whenever they are interrupted or killed, no process
  ever gets the lock. The run up to there is one of those in which the lock excludes.\<close>

theorem killed_holder_blocks_all:
  assumes "rtranclp (calm_step p) (w0, \<lambda>i. Idle) (w, pcs)" "honest w0"
    and "holds (pcs i)" "next_fault w = (Some KILL, w1)" "\<forall>j. pcs j \<noteq> Working Child"
    and "rtranclp (lock_step p) (w1, pcs(i := Dead)) (w2, pcs2)"
  shows "lookup w2 p \<noteq> None \<and> \<not> holds (pcs2 j)"
proof -
  have inv: "lock_inv p (w, pcs)" "undisturbed pcs" using calm_steps_inv [OF assms(1,2)] by auto
  have b: "busy (pcs i)" "created (pcs i)" using holds_busy [OF assms(3)] by auto
  have "blocked p (w1, pcs(i := Dead))"
    unfolding blocked_def fst_conv snd_conv
  proof (intro conjI allI)
    show "honest w1" using inv by (auto simp: lock_inv_def intro: next_fault_honest [OF assms(4)])
    show "lookup w1 p \<noteq> None" using inv b(2) text_next_fault [OF assms(4)] by (auto simp: lock_inv_def)
    show "inert ((pcs(i := Dead)) j)" for j
      using others_inert [OF inv b(1), of j] assms(5) by simp
  qed
  with assms(6) have "blocked p (w2, pcs2)"
    by (induction rule: rtranclp_induct2) (blast intro: blocked_step)+
  then show ?thesis by (auto simp: blocked_def holds_def) (metis inert.simps)+
qed

theorem killed_holder_blocks_all_witness:
  "\<exists>w w1. rtranclp (calm_step ''/h/lock'') ((demo_world [])\<lparr>faults := [None, None, None, None, Some KILL]\<rparr>, \<lambda>i. Idle)
      (w, (\<lambda>i. Idle)(1 := Holding))
    \<and> next_fault w = (Some KILL, w1)
    \<and> (\<forall>w2 pcs2. rtranclp (lock_step ''/h/lock'') (w1, (\<lambda>i. Idle)(1 := Dead)) (w2, pcs2)
        \<longrightarrow> lookup w2 ''/h/lock'' \<noteq> None \<and> \<not> holds (pcs2 2))"
proof -
  let ?w = "(demo_world [])\<lparr>faults := [None, None, None, None, Some KILL]\<rparr>"
  have "lookup ?w ''/h/lock'' = None" "world_inv ?w" "honest ?w" "passes 4 ?w"
    using demo_world_inv [of "[]"] by (simp_all add: demo_world_def lookup_def world_inv_def honest_def passes_def)
  with calm_run [of ?w "''/h/lock''"] obtain w where
    w: "rtranclp (calm_step ''/h/lock'') (?w, \<lambda>i. Idle) (w, (\<lambda>i. Idle)(1 := Holding))" "faults w = [Some KILL]" by auto
  then have k: "next_fault w = (Some KILL, w\<lparr>faults := []\<rparr>)" by (simp add: next_fault_def)
  have "lookup w2 ''/h/lock'' \<noteq> None \<and> \<not> holds (pcs2 2)"
    if "rtranclp (lock_step ''/h/lock'') (w\<lparr>faults := []\<rparr>, (\<lambda>i. Idle)(1 := Dead)) (w2, pcs2)" for w2 pcs2
    using killed_holder_blocks_all [OF w(1) \<open>honest ?w\<close> _ k, of 1 w2 pcs2 2] that by (simp add: holds_def)
  with w(1) k show ?thesis by blast
qed

section \<open>The handlers and the lock\<close>

lemma handler_removes:
  assumes "pcs i = Statting c" "locked_in l w" "faults w = []" "G (pcs(i := Unlinking c))" "G (pcs(i := c))"
  shows "\<exists>w'. rtranclp (steps_in G l) (w, pcs) (w', pcs(i := c)) \<and> faults w' = [] \<and> world_inv w' \<and> lookup w' l = None"
proof -
  obtain n where n: "lookup w l = Some n" "kind n \<noteq> Dir" "world_inv w" using assms(2) by (auto simp: locked_in_def)
  have st: "stat l w = (Inr n, w)" using n(1) assms(3) by (simp add: stat_def syscall_def next_fault_def)
  let ?w = "w\<lparr>dir := (dir w)(l := None)\<rparr>"
  have u: "unlink l w = (Inr (), ?w)" using n assms(3) by (simp add: unlink_def syscall_def next_fault_def)
  have "steps_in G l (w, pcs) (w, pcs(i := Unlinking c))"
    using there [of pcs i c l w n w] assms(1,4) st by (simp add: steps_in_def)
  moreover have "steps_in G l (w, pcs(i := Unlinking c)) (?w, pcs(i := c))"
    using removed [of "pcs(i := Unlinking c)" i c l w ?w] assms(5) u by (simp add: steps_in_def)
  ultimately have "rtranclp (steps_in G l) (w, pcs) (?w, pcs(i := c))"
    by (meson rtranclp.rtrancl_into_rtrancl rtranclp.rtrancl_refl)
  moreover have "world_inv ?w" using u n(3) wf.keeps_unlink unfolding keeps_def by (metis snd_conv)
  ultimately show ?thesis using assms(3) lookup_remove [of w l] by (intro exI [of _ ?w]) simp
qed

text \<open>States in which every process satisfies \<open>F\<close>; at rest, none is between check and creation.\<close>

definition all_in :: "(pc \<Rightarrow> bool) \<Rightarrow> (nat \<Rightarrow> pc) \<Rightarrow> bool" where
  "all_in F pcs \<longleftrightarrow> one_check pcs \<and> (\<forall>i. F (pcs i))"

definition at_rest :: "(pc \<Rightarrow> bool) \<Rightarrow> (nat \<Rightarrow> pc) \<Rightarrow> bool" where
  "at_rest F pcs \<longleftrightarrow> (\<forall>i. F (pcs i) \<and> pcs i \<noteq> Checked)"

lemma all_in_upd: "at_rest F pcs \<Longrightarrow> F c \<Longrightarrow> all_in F (pcs(i := c))"
  by (simp add: at_rest_def all_in_def one_check_def)

lemma at_rest_upd: "at_rest F pcs \<Longrightarrow> F c \<Longrightarrow> c \<noteq> Checked \<Longrightarrow> at_rest F (pcs(i := c))"
  by (simp add: at_rest_def)

lemma rest_step:
  assumes "lock_step l (w, pcs) (w', pcs(i := c))" "at_rest F pcs" "F c"
  shows "rtranclp (steps_in (all_in F) l) (w, pcs) (w', pcs(i := c))"
  using assms all_in_upd [OF assms(2,3)] by (auto simp: steps_in_def)

lemma rest_takes:
  assumes "lookup w l = None" "faults w = []" "world_inv w" "at_rest F pcs" "pcs i = Idle"
    and "F Checked" "\<And>fd. F (Opened fd)" "F Holding"
  shows "\<exists>w'. rtranclp (steps_in (all_in F) l) (w, pcs) (w', pcs(i := Holding)) \<and> faults w' = [] \<and> locked_in l w'"
proof -
  have "passes 4 w" using assms(2) by (simp add: passes_def)
  from takes_lock [where pcs = pcs and i = i and G = "all_in F", OF assms(1) this assms(3,5)] show ?thesis
    using all_in_upd [OF assms(4)] assms(2,6-8) by simp
qed

lemma rest_removes:
  assumes "locked_in l w" "faults w = []" "at_rest F pcs" "pcs i = Statting c" "F c" "F (Unlinking c)"
  shows "\<exists>w'. rtranclp (steps_in (all_in F) l) (w, pcs) (w', pcs(i := c)) \<and> faults w' = [] \<and> world_inv w' \<and> lookup w' l = None"
  using handler_removes [where pcs = pcs and i = i and G = "all_in F", OF assms(4,1,2)] all_in_upd [OF assms(3)] assms(5,6) by blast

text \<open>The owner takes the lock and registers its handlers.\<close>

lemma becomes_owner:
  assumes "lookup w l = None" "faults w = []" "world_inv w"
    and "F Idle" "F Checked" "\<And>fd. F (Opened fd)" "F Holding" "F (Working Owner)"
  shows "\<exists>w'. rtranclp (steps_in (all_in F) l) (w, \<lambda>i. Idle) (w', (\<lambda>i. Idle)(1 := Working Owner))
    \<and> faults w' = [] \<and> locked_in l w'"
proof -
  have r: "at_rest F (\<lambda>i. Idle)" using assms(4) by (simp add: at_rest_def)
  obtain w1 where w1: "rtranclp (steps_in (all_in F) l) (w, \<lambda>i. Idle) (w1, (\<lambda>i. Idle)(1 := Holding))" "faults w1 = []" "locked_in l w1"
    using rest_takes [OF assms(1-3) r _ assms(5-7), of 1] by auto
  have "simple_call w1 = (Inr (), w1)" using w1(2) by (simp add: simple_call_def syscall_def next_fault_def)
  then have "lock_step l (w1, (\<lambda>i. Idle)(1 := Holding)) (w1, (\<lambda>i. Idle)(1 := Holding, 1 := Working Owner))"
    by (intro guarded) simp_all
  from rest_step [OF this at_rest_upd [OF r] assms(8)] have
    "rtranclp (steps_in (all_in F) l) (w1, (\<lambda>i. Idle)(1 := Holding)) (w1, (\<lambda>i. Idle)(1 := Working Owner))"
    using assms(7) by simp
  with w1 show ?thesis by (meson rtranclp_trans)
qed

text \<open>A child of the owner that fails, and another process that takes the lock.\<close>

lemma failing_child_run:
  assumes "lookup w l = None" "faults w = []" "world_inv w"
  shows "\<exists>w'. rtranclp (steps_in (all_in sigint_free) l) (w, \<lambda>i. Idle)
    (w', (\<lambda>i. Idle)(1 := Working Owner, 3 := Gone Child, 2 := Holding))"
proof -
  let ?S = "rtranclp (steps_in (all_in sigint_free) l)" and ?P = "(\<lambda>i :: nat. Idle)(1 := Working Owner)"
  have r: "at_rest sigint_free ?P" by (simp add: at_rest_def)
  note r3 = at_rest_upd [OF r]
  obtain w1 where w1: "?S (w, \<lambda>i. Idle) (w1, ?P)" "faults w1 = []" "locked_in l w1"
    using becomes_owner [OF assms, of sigint_free] by auto
  have "simple_call w1 = (Inr (), w1)" using w1(2) by (simp add: simple_call_def syscall_def next_fault_def)
  then have "lock_step l (w1, ?P) (w1, ?P(3 := Working Child))" by (intro forked [where i = 1 and r = Owner]) simp_all
  from rest_step [OF this r] have 2: "?S (w1, ?P) (w1, ?P(3 := Working Child))" by simp
  have "lock_step l (w1, ?P(3 := Working Child)) (w1, ?P(3 := Working Child, 3 := Statting (Gone Child)))"
    by (intro exits) simp
  from rest_step [OF this r3] have 3: "?S (w1, ?P(3 := Working Child)) (w1, ?P(3 := Statting (Gone Child)))" by simp
  obtain w2 where 4: "?S (w1, ?P(3 := Statting (Gone Child))) (w2, ?P(3 := Gone Child))"
      "faults w2 = []" "world_inv w2" "lookup w2 l = None"
    using rest_removes [OF w1(3,2) r3, of "Statting (Gone Child)" 3 3 "Gone Child"] by auto
  obtain w3 where 5: "?S (w2, ?P(3 := Gone Child)) (w3, ?P(3 := Gone Child, 2 := Holding))"
    using rest_takes [OF 4(4,2,3) r3, of "Gone Child" 3 2] by auto
  from w1(1) 2 3 4(1) 5 show ?thesis by (meson rtranclp_trans)
qed

definition patient :: "pc \<Rightarrow> bool" where
  "patient c \<longleftrightarrow> c \<noteq> Statting (Gone Child) \<and> c \<noteq> Unlinking (Gone Child)"

text \<open>A program that is interrupted and ends later, and two processes that take the lock in between and then.\<close>

lemma interrupted_run:
  assumes "lookup w l = None" "faults w = []" "world_inv w"
  shows "\<exists>w'. rtranclp (steps_in (all_in patient) l) (w, \<lambda>i. Idle)
    (w', (\<lambda>i. Idle)(2 := Holding, 1 := Gone Interrupted, 3 := Holding))"
proof -
  let ?S = "rtranclp (steps_in (all_in patient) l)" and ?I = "\<lambda>i :: nat. Idle"
  let ?P = "?I(1 := Working Interrupted)" let ?Q = "?P(2 := Holding)"
  have p: "patient Idle" "patient Checked" "patient (Opened fd)" "patient Holding" "patient (Working ro)"
      "patient (Gone ro)" "patient (Statting (Working ro))" "patient (Unlinking (Working ro))"
      "patient (Statting (Gone Interrupted))" "patient (Unlinking (Gone Interrupted))" for fd ro
    by (simp_all add: patient_def)
  have i: "at_rest patient ?I" by (simp add: at_rest_def p)
  note i1 = at_rest_upd [OF i]
  have q: "at_rest patient ?Q" by (simp add: at_rest_def p)
  note q1 = at_rest_upd [OF q]
  obtain w1 where w1: "?S (w, ?I) (w1, ?I(1 := Working Owner))" "faults w1 = []" "locked_in l w1"
    using becomes_owner [OF assms, of patient] p by auto
  have "lock_step l (w1, ?I(1 := Working Owner)) (w1, ?I(1 := Working Owner, 1 := Statting (Working Interrupted)))"
    using interrupted [of "?I(1 := Working Owner)" 1 l w1] by simp
  from rest_step [OF this i1 p(7)] have 2: "?S (w1, ?I(1 := Working Owner)) (w1, ?I(1 := Statting (Working Interrupted)))"
    by (simp add: p)
  obtain w2 where 3: "?S (w1, ?I(1 := Statting (Working Interrupted))) (w2, ?P)"
      "faults w2 = []" "world_inv w2" "lookup w2 l = None"
    using rest_removes [OF w1(3,2) i1, of "Statting (Working Interrupted)" 1 1 "Working Interrupted"] p by auto
  obtain w3 where 4: "?S (w2, ?P) (w3, ?Q)" "faults w3 = []" "locked_in l w3"
    using rest_takes [OF 3(4,2,3) i1, of "Working Interrupted" 1 2] p by auto
  have "lock_step l (w3, ?Q) (w3, ?Q(1 := Statting (Gone Interrupted)))" by (intro exits) simp
  from rest_step [OF this q p(9)] have 5: "?S (w3, ?Q) (w3, ?Q(1 := Statting (Gone Interrupted)))" .
  obtain w4 where 6: "?S (w3, ?Q(1 := Statting (Gone Interrupted))) (w4, ?Q(1 := Gone Interrupted))"
      "faults w4 = []" "world_inv w4" "lookup w4 l = None"
    using rest_removes [OF 4(3,2) q1, of "Statting (Gone Interrupted)" 1 1 "Gone Interrupted"] p by auto
  obtain w5 where 7: "?S (w4, ?Q(1 := Gone Interrupted)) (w5, ?Q(1 := Gone Interrupted, 3 := Holding))"
    using rest_takes [OF 6(4,2,3) q1, of "Gone Interrupted" 1 3] p by auto
  have "?Q(1 := Gone Interrupted, 3 := Holding) = ?I(2 := Holding, 1 := Gone Interrupted, 3 := Holding)" by auto
  with w1(1) 2 3(1) 4(1) 5 6(1) 7 show ?thesis by (metis rtranclp_trans)
qed

text \<open>C19. The handlers remove whatever lock there is, so exclusion can fail although no two processes check
  the lock at the same time. A child of the program that has the lock ends through \<open>err\<close>: its
  inherited handler removes the lock, and a second process gets it while the first still works. A
  program is interrupted and goes on without its lock, which a second process takes; the exit of
  the first removes the lock of the second, and a third process gets it, too.\<close>

theorem handlers_release_the_lock:
  assumes "lookup w l = None" "faults w = []" "world_inv w"
  shows "(\<exists>w' pcs. rtranclp (steps_in (\<lambda>pcs. one_check pcs \<and> no_sigint pcs) l) (w, \<lambda>i. Idle) (w', pcs)
      \<and> holds (pcs 1) \<and> holds (pcs 2))
    \<and> (\<exists>w' pcs. rtranclp (steps_in (\<lambda>pcs. one_check pcs \<and> no_failing_child pcs) l) (w, \<lambda>i. Idle) (w', pcs)
      \<and> holds (pcs 2) \<and> holds (pcs 3))"
proof -
  have a: "all_in sigint_free = (\<lambda>pcs. one_check pcs \<and> no_sigint pcs)"
    by (simp add: all_in_def no_sigint_def fun_eq_iff)
  have b: "all_in patient = (\<lambda>pcs. one_check pcs \<and> no_failing_child pcs)"
    by (simp add: all_in_def no_failing_child_def patient_def fun_eq_iff)
  obtain w1 where 1: "rtranclp (steps_in (\<lambda>pcs. one_check pcs \<and> no_sigint pcs) l) (w, \<lambda>i. Idle)
      (w1, (\<lambda>i. Idle)(1 := Working Owner, 3 := Gone Child, 2 := Holding))"
    using failing_child_run [OF assms] unfolding a by blast
  obtain w2 where 2: "rtranclp (steps_in (\<lambda>pcs. one_check pcs \<and> no_failing_child pcs) l) (w, \<lambda>i. Idle)
      (w2, (\<lambda>i. Idle)(2 := Holding, 1 := Gone Interrupted, 3 := Holding))"
    using interrupted_run [OF assms] unfolding b by blast
  show ?thesis
    by (intro conjI exI) (rule 1, simp add: holds_def, simp add: holds_def, rule 2, simp_all add: holds_def)
qed

theorem handlers_release_the_lock_witness:
  "\<exists>w' pcs. rtranclp (steps_in (\<lambda>pcs. one_check pcs \<and> no_sigint pcs) ''/h/lock'') (demo_world [], \<lambda>i. Idle) (w', pcs)
      \<and> holds (pcs 1) \<and> holds (pcs 2)"
  by (rule handlers_release_the_lock [THEN conjunct1]) (simp_all add: demo_lookup demo_world_inv)

section \<open>The race\<close>

text \<open>C38. The check and the creation are two calls, and the creation is no exclusive one: two
  processes that both check before either creates the file both get the lock.\<close>

theorem two_processes_get_the_lock:
  assumes "lookup w l = None" "faults w = []" "world_inv w"
  shows "\<exists>w' pcs. rtranclp (lock_step l) (w, \<lambda>i. Idle) (w', pcs) \<and> pcs 1 = Holding \<and> pcs 2 = Holding"
proof -
  let ?p = "\<lambda>a b. (\<lambda>i. Idle)(1 := a, 2 := b)"
  have st: "stat l w = (Inl ENOENT, w)" using assms by (simp add: stat_def syscall_def next_fault_def)
  have "dir w l = None" using assms by (simp add: lookup_iff)
  then obtain fd w1 where o1: "fopen_w l w = (Inr fd, w1)" "faults w1 = []" "dir w1 l = Some fd"
      "\<exists>n. node w1 fd = Some n \<and> kind n = Reg"
    using assms(2) by (simp add: fopen_w_def syscall_def next_fault_def create_def)
  then obtain w2 where o2: "fopen_w l w1 = (Inr fd, w2)" "faults w2 = []"
    by (auto simp: fopen_w_def syscall_def next_fault_def)
  obtain r w3 r' w4 where h1: "write_fd fd [] w2 = (r, w3)" "close_fd fd w3 = (r', w4)" "r \<noteq> Inl KILL" "r' \<noteq> Inl KILL"
      and q: "faults w4 = []"
    using o2(2) by (auto intro: write_close_returns [of w2 fd "[]"] simp: passes_def)
  obtain r2 w5 r2' w6 where h2: "write_fd fd [] w4 = (r2, w5)" "close_fd fd w5 = (r2', w6)" "r2 \<noteq> Inl KILL" "r2' \<noteq> Inl KILL"
    using q by (auto intro: write_close_returns [of w4 fd "[]"] simp: passes_def)
  have "lock_step l (w, \<lambda>i. Idle) (w, ?p Checked Idle)"
    using free [of "?p Idle Idle" 1 l w w] st by (simp add: fun_upd_idem fun_upd_twist)
  moreover have "lock_step l (w, ?p Checked Idle) (w, ?p Checked Checked)"
    using free [of "?p Checked Idle" 2 l w w] st by simp
  moreover have "lock_step l (w, ?p Checked Checked) (w1, ?p (Opened fd) Checked)"
    using opened [of "?p Checked Checked" 1 l w fd w1] o1 by (simp add: fun_upd_twist)
  moreover have "lock_step l (w1, ?p (Opened fd) Checked) (w2, ?p (Opened fd) (Opened fd))"
    using opened [of "?p (Opened fd) Checked" 2 l w1 fd w2] o2 by simp
  moreover have "lock_step l (w2, ?p (Opened fd) (Opened fd)) (w4, ?p Holding (Opened fd))"
    using written [of "?p (Opened fd) (Opened fd)" 1 fd "[]" w2 r w3 r' w4 l] h1 by (simp add: fun_upd_twist)
  moreover have "lock_step l (w4, ?p Holding (Opened fd)) (w6, ?p Holding Holding)"
    using written [of "?p Holding (Opened fd)" 2 fd "[]" w4 r2 w5 r2' w6 l] h2 by simp
  ultimately have "rtranclp (lock_step l) (w, \<lambda>i. Idle) (w6, ?p Holding Holding)"
    by (meson converse_rtranclp_into_rtranclp rtranclp.rtrancl_refl)
  then show ?thesis by (intro exI [of _ w6] exI [of _ "?p Holding Holding"]) simp
qed

theorem two_processes_get_the_lock_witness:
  "\<exists>w' pcs. rtranclp (lock_step ''/h/lock'') (demo_world [], \<lambda>i. Idle) (w', pcs) \<and> pcs 1 = Holding \<and> pcs 2 = Holding"
  by (rule two_processes_get_the_lock) (simp_all add: demo_lookup demo_world_inv)

end
