(* ===== verification/Program.thy ===== *)
theory Program
  imports Safety Invariants
begin

text \<open>
  Properties of whole runs: the dispatch of the commands, and what a command needs before it touches
  anything.
\<close>

section \<open>The dispatch\<close>

fun command_name :: "command \<Rightarrow> string" where
  "command_name Edit = ''edit''"
| "command_name Generate = ''generate''"
| "command_name Add = ''add''"
| "command_name Get = ''get''"
| "command_name Prompt = ''prompt''"

text \<open>The shortest accepted abbreviation: \<open>generate\<close> and \<open>get\<close> share two letters.\<close>

fun least_chars :: "command \<Rightarrow> nat" where
  "least_chars Generate = 3"
| "least_chars Get = 3"
| "least_chars _ = 1"

lemma command_match_prefix:
  "command_match a nm k = (if prefix a nm then
     (if length a < k then Inl (Errx (''ambiguous command '%s'' @ [CHR 0x27]) [ArgS a]) else Inr True) else Inr False)"
  by (auto simp: command_match_def Let_def prefix_def take_is_prefix) (metis append_take_drop_id)

text \<open>The first operand selects a command exactly when it abbreviates its name with enough letters;
  it is ambiguous when it is empty, \<open>g\<close> or \<open>ge\<close>, and everything else is unknown.\<close>

theorem which_command_iff:
  "(which_command a = Inr c \<longleftrightarrow> prefix a (command_name c) \<and> least_chars c \<le> length a)
   \<and> (which_command a = Inl (Errx (''ambiguous command '%s'' @ [CHR 0x27]) [ArgS a])
        \<longleftrightarrow> a \<in> {[], ''g'', ''ge''})"
proof (cases a)
  case Nil
  then show ?thesis by (cases c) (simp_all add: which_command_def command_match_prefix)
next
  case (Cons x t)
  consider "x = CHR ''e''" | "x = CHR ''g''" | "x = CHR ''a''" | "x = CHR ''p''"
    | "x \<notin> {CHR ''e'', CHR ''g'', CHR ''a'', CHR ''p''}" by auto
  then show ?thesis
  proof cases
    case 2
    show ?thesis
    proof (cases t)
      case Nil
      then show ?thesis using 2 Cons by (cases c) (simp_all add: which_command_def command_match_prefix)
    next
      case (Cons y u)
      then show ?thesis using 2 \<open>a = x # t\<close>
        by (cases u; cases c) (auto simp: which_command_def command_match_prefix)
    qed
  qed (cases c; auto simp: Cons which_command_def command_match_prefix)+
qed

section \<open>The key\<close>

text \<open>The action stops the program.\<close>

definition fails :: "('s, 'a) act \<Rightarrow> 's \<Rightarrow> bool" where
  "fails m s \<longleftrightarrow> (\<exists>h. fst (m s) = Inl h)"

lemma fails_after:
  assumes "act_inv P m" "P s" "\<And>x s. P s \<Longrightarrow> fails (f x) s"
  shows "fails (bnd m f) s"
proof -
  obtain r s' where m: "m s = (r, s')" by fastforce
  then have "P s'" using assms(1,2) by (metis act_inv_def snd_conv)
  then show ?thesis using m assms(3) by (cases r) (auto simp: fails_def bnd_def)
qed

lemma fails_first: "fails m s \<Longrightarrow> fails (bnd m f) s"
  by (auto simp: fails_def bnd_def split: prod.split sum.split)

lemma fails_if: "(c \<Longrightarrow> fails a s) \<Longrightarrow> (\<not> c \<Longrightarrow> fails b s) \<Longrightarrow> fails (if c then a else b) s"
  by simp

lemma fails_stop: "fails (stop h) s"
  by (simp add: fails_def stop_def)

text \<open>Only the configuration file can set the key: everything that runs later leaves it unset.\<close>

definition key_unset :: "config \<Rightarrow> bool" where
  "key_unset c \<longleftrightarrow> cfg_gpg_key_id c = None"

interpretation key: frame_checks "\<lambda>w l t c b. key_unset c"
  by unfold_locales (simp_all add: keeps_def)

lemma gpg_check_fails:
  assumes "key_unset (cfg (conf s))"
  shows "fails (gpg_check L) s"
proof -
  have key: "fails (bnd (gets (\<lambda>s. cfg_gpg_key_id (cfg (conf s))))
      (\<lambda>k. if k = None then stop h else ret ())) s" if "key_unset (cfg (conf s))" for h and s :: "'a mdp"
    using that by (simp add: fails_def ebind_simps key_unset_def)
  show ?thesis unfolding gpg_check_def using assms
    by (intro fails_after [where P = "framed (\<lambda>w l t c b. key_unset c)"] act_inv_intros any_tame fails_if fails_stop key)
qed

text \<open>C35. Every command but \<open>generate\<close> refuses to run when the configuration file sets no
  \<open>gpg_key_id\<close>, whatever its arguments are: the option \<open>-k\<close> of \<open>add\<close> and \<open>edit\<close>, which is parsed
  after the configuration was completed, has no effect.\<close>

theorem key_option_has_no_effect:
  assumes "cfg_gpg_key_id (cfg (conf s)) = None" "c \<noteq> Generate"
  shows "\<exists>h. fst (run_command L c args s) = Inl h"
proof -
  let ?P = "framed (\<lambda>w l t c b. key_unset c)"
  have k: "key_unset (cfg (conf s))" using assms(1) by (simp add: key_unset_def)
  have "fails (mdp_add L) s" "fails (mdp_edit L) s" "fails (mdp_get L) s" "fails (mdp_prompt L) s"
    if "key_unset (cfg (conf s))" for s :: "'a mdp" and L :: "('a, 'b) lib"
    unfolding mdp_add_def mdp_edit_def mdp_get_def mdp_prompt_def
    by (rule fails_after [where P = ?P] that fails_first gpg_check_fails act_inv_intros | assumption)+
  then have "fails (run_command L c args) s"
    using k assms(2) by (cases c) (auto simp: run_command_def intro!: fails_after [where P = ?P] act_inv_intros)
  then show ?thesis by (simp add: fails_def)
qed

theorem key_option_has_no_effect_witness:
  "\<exists>h. fst (run_command (demo_lib (\<lambda>c w. (0, w)) (\<lambda>f args t w. None)) Edit [''-k'', ''KEY'']
     (demo_state None (demo_world []))) = Inl h"
  by (rule key_option_has_no_effect) simp_all

end
