(* ===== verification/Endings.thy ===== *)
theory Endings
  imports Mdp
begin

text \<open>
  How a run can end. The program has a handful of places where C leaves its behaviour open; here
  every function of the program is shown to end with a value, with a diagnosed error, or in one of
  these places, and to run forever only where a loop of the program can.
\<close>

section \<open>Endings\<close>

text \<open>
  The places: \<open>line_matches_plain\<close> uses \<open>kw\<close> after a keyword of fifty characters,
  \<open>line_matches_regex\<close> uses \<open>mbs_line\<close> after a line that does not fit, the prompt stores a line of
  fifty characters, \<open>lock_set\<close> and \<open>has_changed\<close> do not look at \<open>fopen\<close>'s result, \<open>gpg_close\<close> does
  not look at \<open>waitpid\<close>'s, \<open>refresh_listing\<close> divides by the width of the terminal, \<open>main\<close> prints
  \<open>LC_ALL\<close> whether it is set or not, \<open>config_read\<close> counts the lines in an \<open>int\<close>, and \<open>wcsjoin\<close> its
  characters, which it takes for a size, too.
\<close>

definition open_places :: "string set" where
  "open_places = {''kw is not terminated'', ''mbs_line is not terminated'', ''getnstr writes outside kw'',
     ''fprintf to a null stream'', ''fclose of a null stream'', ''status is indeterminate'', ''division by zero'',
     ''null pointer for %s'', ''linenum overflows'', ''the length in wcsjoin overflows'', ''swprintf to a null pointer''}"

text \<open>The flag says whether running forever is allowed.\<close>

definition tolerated :: "bool \<Rightarrow> halt \<Rightarrow> bool" where
  "tolerated f h = (case h of Undefined u \<Rightarrow> u \<in> open_places | Forever \<Rightarrow> f | _ \<Rightarrow> True)"

lemma tolerated_simps [simp]:
  "tolerated f (Err m as)" "tolerated f (Errx m as)" "tolerated f (Exit n)" "tolerated f Killed"
  "tolerated f Forever = f" "tolerated f (Undefined u) \<longleftrightarrow> u \<in> open_places"
  by (simp_all add: tolerated_def)

definition gives :: "(halt \<Rightarrow> bool) \<Rightarrow> ('a \<Rightarrow> bool) \<Rightarrow> halt + 'a \<Rightarrow> bool" where
  "gives A Q r = (case r of Inl h \<Rightarrow> A h | Inr x \<Rightarrow> Q x)"

named_theorems gives_intros \<open>how pure code ends\<close>

lemma gives_simps [simp]: "gives A Q (Inl h) = A h" "gives A Q (Inr x) = Q x"
  by (simp_all add: gives_def)

lemma gives_ebind [gives_intros]:
  "gives A R m \<Longrightarrow> (\<And>x. R x \<Longrightarrow> gives A Q (f x)) \<Longrightarrow> gives A Q (ebind m f)"
  by (cases m) auto

lemma gives_if [gives_intros]:
  "(c \<Longrightarrow> gives A Q a) \<Longrightarrow> (\<not> c \<Longrightarrow> gives A Q b) \<Longrightarrow> gives A Q (if c then a else b)"
  by simp

lemma gives_mono: "gives A R m \<Longrightarrow> (\<And>x. R x \<Longrightarrow> Q x) \<Longrightarrow> gives A Q m"
  by (cases m) auto

lemma gives_safe: "safe m \<Longrightarrow> (\<And>x. m = Inr x \<Longrightarrow> Q x) \<Longrightarrow> gives (tolerated f) Q m"
  by (cases m) (auto simp: tolerated_def safe_def split: halt.split)

text \<open>The same for code that may not return.\<close>

definition tgives :: "bool \<Rightarrow> ('a \<Rightarrow> bool) \<Rightarrow> (halt + 'a) option \<Rightarrow> bool" where
  "tgives f Q r = (case r of None \<Rightarrow> f | Some r \<Rightarrow> gives (tolerated f) Q r)"

lemma tgives_simps [simp]: "tgives f Q None = f" "tgives f Q (Some r) = gives (tolerated f) Q r"
  by (simp_all add: tgives_def)

lemma tgives_tbind:
  "tgives f R m \<Longrightarrow> (\<And>x. R x \<Longrightarrow> tgives f Q (g x)) \<Longrightarrow> tgives f Q (tbind m g)"
  by (cases m; cases "the m") (auto simp: tbind_def)

section \<open>Arrays\<close>

lemma gives_add:
  assumes "carr_inv a"
  shows "gives (tolerated f) (\<lambda>a'. carr_inv a' \<and> carr_list a' = carr_list a @ [x]) (ARRAY_ADD ok a x)"
  by (rule gives_safe) (use assms carr_add [OF assms] in \<open>auto intro: ARRAY_ADD_safe\<close>)

lemma gives_add_all:
  assumes "carr_inv a"
  shows "gives (tolerated f) (\<lambda>a'. carr_inv a' \<and> carr_list a' = carr_list a @ xs) (add_all (ARRAY_ADD ok) xs a)"
  using assms
proof (induction xs arbitrary: a)
  case (Cons x xs)
  show ?case
    unfolding add_all.simps
    by (rule gives_ebind [OF gives_add [OF Cons.prems]]) (use gives_mono [OF Cons.IH] in fastforce)
qed simp

lemma efold_gives:
  assumes "Q acc" "\<And>x acc. x \<in> set xs \<Longrightarrow> Q acc \<Longrightarrow> gives A Q (body x acc)"
  shows "gives A Q (efold body xs acc)"
  using assms
proof (induction xs arbitrary: acc)
  case (Cons x xs)
  then show ?case by (auto intro: gives_ebind)
qed simp

section \<open>Keywords\<close>

lemma gives_keywords_clear:
  "keywords_inv k \<Longrightarrow> gives (tolerated f) (\<lambda>k. carr_inv k \<and> carr_list k = []) (keywords_clear k)"
  by (simp add: keywords_clear_ok) (simp add: keywords_inv_def carr_inv_clear)

lemma gives_argv:
  assumes "keywords_inv k"
  shows "gives (tolerated f) keywords_inv (keywords_load_from_argv always av k)"
  unfolding keywords_load_from_argv_def argv_loop_add_all
  by (rule gives_ebind [OF gives_keywords_clear [OF assms]], rule gives_mono [OF gives_add_all])
    (auto simp: keywords_inv_def strdup_def)

lemma gives_char:
  assumes "keywords_inv k"
  shows "gives (tolerated f) keywords_inv (keywords_load_from_char always kw k)"
  unfolding keywords_load_from_char_def char_loop_words
  by (rule gives_ebind [OF gives_keywords_clear [OF assms]], rule gives_mono [OF gives_add_all])
    (auto simp: keywords_inv_def strdup_def)

section \<open>Loading\<close>

lemma gives_wcs_duplicate: "gives (tolerated f) (\<lambda>_. True) (wcs_duplicate_as_mbs ok junk cm v)"
proof (cases "encode cm v")
  case None
  then show ?thesis by (simp add: wcs_duplicate_as_mbs_def wcstombs_len_encode)
next
  case (Some m)
  then show ?thesis
    using wcstombs_ok [of cm v m 0 "length m + 1" "map junk [0..<length m + 1]"]
    by (auto simp: wcs_duplicate_as_mbs_def wcstombs_len_encode intro!: gives_safe safe_ebind simp del: upt_Suc)
qed

definition entry_ok :: "result \<Rightarrow> bool" where
  "entry_ok r \<longleftrightarrow> wcs_value r \<noteq> None"

lemma gives_result_new:
  "gives (tolerated f) (\<lambda>r. \<forall>x. r = Some x \<longrightarrow> entry_ok x) (result_new always junk cm v)"
  unfolding result_new_def Let_def
  by (intro gives_ebind [OF gives_safe [where Q = "\<lambda>_. True"]] gives_ebind [OF gives_wcs_duplicate])
    (auto simp: entry_ok_def wcsdup_def split: option.split)

definition results_ok :: "wlist \<Rightarrow> bool" where
  "results_ok rs \<longleftrightarrow> carr_inv rs \<and> (\<forall>r\<in>set (carr_list rs). entry_ok r)"

lemma gives_add_entry:
  assumes "results_ok rs" "entry_ok r"
  shows "gives (tolerated f) results_ok (ARRAY_ADD ok rs r)"
  by (rule gives_mono [OF gives_add]) (use assms in \<open>auto simp: results_ok_def\<close>)

text \<open>The loop adds at most the length of the stream to the length of the checksum.\<close>

definition length_within :: "nat \<Rightarrow> CKSUM_CTX \<Rightarrow> CKSUM_CTX \<Rightarrow> bool" where
  "length_within n ctx ctx' \<longleftrightarrow> (\<exists>k\<le>n. len ctx' = len ctx + of_nat k)"

lemma length_within_step:
  assumes "length_within n (CKSUM_Update ctx b k) ctx'" "k + n \<le> m"
  shows "length_within m ctx ctx'"
proof -
  obtain j where j: "j \<le> n" "len ctx' = len ctx + of_nat k + of_nat j"
    using assms(1) by (auto simp: length_within_def CKSUM_Update_def)
  then show ?thesis using assms(2) by (auto simp: length_within_def intro!: exI [of _ "k + j"])
qed

lemma gives_load_loop:
  assumes "wline_inv wl" "results_ok rs"
  shows "gives (tolerated f) (\<lambda>(wl, ctx', rs, warn). wline_inv wl \<and> results_ok rs \<and> length_within (length fp) ctx ctx')
    (load_loop always junk cm fp n wl ctx rs warn)"
  using assms
proof (induction "length fp" arbitrary: fp n wl ctx rs warn rule: less_induct)
  case less
  show ?case
  proof (cases "fgets MAX_LINE_SIZE fp")
    case None
    then show ?thesis using less.prems
      by (subst load_loop.simps) (auto simp: length_within_def intro!: exI [of _ 0])
  next
    case (Some p)
    obtain chunk rest where p: "p = (chunk, rest)" by fastforce
    let ?line = "cstr NUL chunk"
    have c: "length ?line \<le> length chunk" by (simp add: cstr_def length_takeWhile_le)
    then have l: "length ?line < MAX_LINE_SIZE"
      using fgets_length [of fp chunk rest] Some p by simp
    obtain r where m: "mbstowcs cm wl 0 MAX_LINE_SIZE ?line = Inr (line_buf cm wl ?line, r)"
      using mbstowcs_line [OF l less.prems(1)] by blast
    let ?w = "wcs_strip_trailing_whitespaces (line_buf cm wl ?line)"
    have w: "wline_inv ?w" by (rule wline_inv_strip [OF line_buf_inv [OF l less.prems(1)]])
    have fp: "fp = chunk @ rest" using fgets_split Some p by simp
    then have rest: "length ?line + length rest \<le> length fp" "length rest < length fp"
      using c fgets_shorter [of fp chunk rest] Some p by simp_all
    have "gives (tolerated f) (\<lambda>(wl, ctx', rs, warn). wline_inv wl \<and> results_ok rs \<and> length_within (length fp) ctx ctx')
        (load_loop always junk cm rest (n + 1) ?w (CKSUM_Update ctx (bytes ?line) (length ?line)) rs' warn')"
      if "results_ok rs'" for rs' warn'
      by (rule gives_mono [OF less.hyps [OF rest(2) w that]]) (use length_within_step rest(1) in auto)
    then show ?thesis
      by (subst load_loop.simps)
        (use Some p m w less.prems(2) in \<open>auto simp: Let_def wline_inv_nul
          intro!: gives_ebind [OF gives_result_new] gives_ebind [OF gives_add_entry] split: option.split\<close>)
  qed
qed

lemma gives_load_results:
  assumes "wline_inv wl" "results_ok rs" "\<And>s. fp = Some s \<Longrightarrow> \<not> f \<Longrightarrow> length s < 2 ^ 63"
  shows "tgives f (\<lambda>(n, c, wl, rs, warn). wline_inv wl \<and> results_ok rs) (load_results_fp always junk cm fp wl rs)"
proof -
  let ?ctx = "CKSUM_Init \<lparr>crc = 0, len = 0\<rparr>"
  have "tgives f (\<lambda>(wl, ctx', rs, warn). wline_inv wl \<and> results_ok rs \<and>
      (\<not> f \<longrightarrow> (\<exists>k<2 ^ 63. len ctx' = of_nat k)))
    (Some (case fp of None \<Rightarrow> Inr (wl, ?ctx, rs, []) | Some s \<Rightarrow> load_loop always junk cm s 0 wl ?ctx rs []))"
  proof (cases fp)
    case None
    then show ?thesis using assms(1,2) by (auto simp: CKSUM_Init_def intro!: exI [of _ 0])
  next
    case (Some s)
    have "\<exists>k<2 ^ 63. len ctx' = of_nat k" if n: "\<not> f" "length_within (length s) ?ctx ctx'" for ctx'
    proof -
      obtain k where "k \<le> length s" "len ctx' = of_nat k" using n(2) by (auto simp: length_within_def CKSUM_Init_def)
      moreover have "length s < 2 ^ 63" using assms(3) Some n(1) by simp
      ultimately show ?thesis using le_less_trans by blast
    qed
    then show ?thesis
      using gives_mono [OF gives_load_loop [OF assms(1,2)]] by (fastforce simp: Some)
  qed
  then show ?thesis unfolding load_results_fp_def Let_def
  proof (rule tgives_tbind, clarify)
    fix wl and ctx' :: CKSUM_CTX and rs warn assume a: "wline_inv wl" "results_ok rs" "\<not> f \<longrightarrow> (\<exists>k<2 ^ 63. len ctx' = of_nat k)"
    have "CKSUM_Final ctx' \<noteq> None" if "\<not> f"
    proof -
      obtain k where k: "k < 2 ^ 63" "len ctx' = of_nat k" using a(3) \<open>\<not> f\<close> by blast
      have "unat (of_nat k :: off_t) < 2 ^ 63" using k(1) by (simp add: unat_of_nat)
      then show ?thesis using k(2) by (simp add: CKSUM_Final_def final_loop_nonneg)
    qed
    then show "tgives f (\<lambda>(n, c, wl, rs, warn). wline_inv wl \<and> results_ok rs)
       (case CKSUM_Final ctx' of None \<Rightarrow> None
        | Some crcctx \<Rightarrow> Some (Inr (ARRAY_LENGTH rs, crc crcctx, wl, rs, warn)))"
      using a by (cases "CKSUM_Final ctx'"; cases f) auto
  qed
qed

section \<open>Filtering\<close>

lemma mbstowcs_length:
  "n \<le> length dst \<Longrightarrow> \<exists>dst' r. mbstowcs cm dst pos n s = Inr (dst', r) \<and> length dst' = length dst"
proof (induction cm dst pos n s rule: mbstowcs.induct)
  case (2 cm dst pos n b s)
  show ?case
  proof (cases "mbtowc cm (b # s)")
    case (Some p)
    obtain c k where p: "p = (c, k)" by fastforce
    show ?thesis
    proof (cases "n \<le> pos")
      case False
      then obtain dst' r where "mbstowcs cm (dst[pos := c]) (Suc pos) n (drop (k - 1) s) = Inr (dst', r)"
          "length dst' = length (dst[pos := c])"
        using 2(1) [OF False Some p [symmetric], of "dst[pos := c]"] 2(2) by auto
      then show ?thesis using False Some p 2(2) by simp
    qed simp
  qed simp
qed auto

lemma wr_all_length:
  "pos + length cs \<le> length b \<Longrightarrow> \<exists>b'. wr_all b pos cs = Inr b' \<and> length b' = length b"
  by (induction b pos cs rule: wr_all.induct) auto

lemma wcstombs_length:
  "n \<le> length dst \<Longrightarrow> \<exists>dst' r. wcstombs cm dst pos n ws = Inr (dst', r) \<and> length dst' = length dst"
proof (induction cm dst pos n ws rule: wcstombs.induct)
  case (2 cm dst pos n c ws)
  show ?case
  proof (cases "wctomb cm c")
    case (Some bs)
    show ?thesis
    proof (cases "n < pos + length bs")
      case False
      obtain b where b: "wr_all dst pos bs = Inr b" "length b = length dst"
        using wr_all_length [of pos bs dst] False 2(2) by auto
      then obtain dst' r where "wcstombs cm b (pos + length bs) n ws = Inr (dst', r)" "length dst' = length b"
        using 2(1) [OF Some False, of b] 2(2) by auto
      then show ?thesis using Some False b by simp
    qed (simp add: Some)
  qed simp
qed auto

lemma keyword_item:
  assumes "keywords_inv ks" "i < unat (ARRAY_LENGTH ks)"
  obtains s where "ARRAY_ITEM ks (of_nat i) = Inr (Some s)"
  using carr_item_nth [OF assms(1), of i] assms
  by (auto simp: keywords_inv_def keywords_abs_def carr.len_abs)

lemma gives_plain:
  assumes "keywords_inv ks" "i + k = unat (ARRAY_LENGTH ks)" "length kw = KEYWORD_LENGTH"
  shows "gives (tolerated f) (\<lambda>_. True) (plain_loop cm lower ks line k i kw)"
  using assms(2,3)
proof (induction k arbitrary: i kw)
  case (Suc k)
  obtain s where s: "ARRAY_ITEM ks (of_nat i) = Inr (Some s)"
    using keyword_item [OF assms(1)] Suc.prems(1) by (metis less_add_Suc1 add_Suc_right)
  obtain kw' r where m: "mbstowcs cm kw 0 KEYWORD_LENGTH s = Inr (kw', r)" "length kw' = KEYWORD_LENGTH"
    using mbstowcs_length [of KEYWORD_LENGTH kw cm 0 s] Suc.prems(2) by auto
  show ?case
  proof (cases "0 \<in> set kw'")
    case True
    obtain x where "wcscasestr lower line (cstr 0 kw') = Inr x"
      using wcscasestr_spec [of "cstr 0 kw'" "lower" line] by auto
    then show ?thesis using s m True Suc by simp
  next
    case False
    then show ?thesis using s m by (simp add: getstr_at_def open_places_def)
  qed
qed simp

lemma gives_regex:
  assumes "keywords_inv ks" "i + k = unat (ARRAY_LENGTH ks)" "length mb = MAX_LINE_SIZE"
  shows "gives (tolerated f) (\<lambda>(b, mb). length mb = MAX_LINE_SIZE) (regex_loop cm rx ks line k i mb)"
  using assms(2,3)
proof (induction k arbitrary: i mb)
  case (Suc k)
  obtain s where s: "ARRAY_ITEM ks (of_nat i) = Inr (Some s)"
    using keyword_item [OF assms(1)] Suc.prems(1) by (metis less_add_Suc1 add_Suc_right)
  obtain mb' r where m: "wcstombs cm mb 0 MAX_LINE_SIZE line = Inr (mb', r)" "length mb' = MAX_LINE_SIZE"
    using wcstombs_length [of MAX_LINE_SIZE mb cm 0 line] Suc.prems(2) by auto
  show ?case
  proof (cases "NUL \<in> set mb'")
    case True
    then show ?thesis using s m Suc by (auto split: option.split)
  next
    case False
    then show ?thesis using s m by (auto simp: getstr_at_def open_places_def split: option.split)
  qed
qed simp

lemma gives_line_matches:
  assumes "keywords_inv ks" "length mb = MAX_LINE_SIZE" "line \<noteq> None"
  shows "gives (tolerated f) (\<lambda>(b, mb). length mb = MAX_LINE_SIZE) (line_matches cm lower rx kw0 re ks line mb)"
  using assms
  by (auto simp: line_matches_def line_matches_plain_def line_matches_regex_def
      intro!: gives_regex gives_ebind [OF gives_plain] split: option.split)

lemma gives_filter_loop:
  assumes "keywords_inv ks" "results_ok rs" "i + k = length (carr_list rs)" "length mb = MAX_LINE_SIZE"
  shows "gives (tolerated f) (\<lambda>(rs, mb). results_ok rs \<and> length mb = MAX_LINE_SIZE)
    (filter_loop cm lower rx kw0 re ks k i rs mb)"
  using assms(2-4)
proof (induction k arbitrary: i rs mb)
  case (Suc k)
  let ?r = "carr_list rs ! i"
  have rs: "carr_inv rs" "i < length (carr_list rs)" using Suc.prems by (simp_all add: results_ok_def)
  have v: "wcs_value ?r \<noteq> None" using Suc.prems(1) rs(2) by (simp add: results_ok_def entry_ok_def)
  have set: "gives (tolerated f) (\<lambda>rs'. results_ok rs' \<and> length (carr_list rs') = length (carr_list rs))
      (ARRAY_SET rs (of_nat i) (?r\<lparr>visible := b\<rparr>))" for b
  proof -
    obtain rs' where rs': "ARRAY_SET rs (of_nat i) (?r\<lparr>visible := b\<rparr>) = Inr rs'" "carr_inv rs'"
        "carr_list rs' = (carr_list rs)[i := ?r\<lparr>visible := b\<rparr>]"
      using carr_set [OF rs] by blast
    have "entry_ok x" if "x \<in> set (carr_list rs')" for x
      using that v Suc.prems(1) set_update_subset_insert [of "carr_list rs" i "?r\<lparr>visible := b\<rparr>"]
      by (auto simp: rs'(3) results_ok_def entry_ok_def)
    then show ?thesis using rs' by (simp add: results_ok_def)
  qed
  show ?case
    using carr.item_abs [OF rs] Suc.prems Suc.IH
    by (auto intro!: gives_ebind [OF gives_line_matches [OF assms(1) Suc.prems(3) v]] gives_ebind [OF set])
qed simp

lemma gives_filter:
  assumes "keywords_inv ks" "results_ok rs" "length mb = MAX_LINE_SIZE"
  shows "gives (tolerated f) (\<lambda>(rs, mb). results_ok rs \<and> length mb = MAX_LINE_SIZE)
    (filter_results cm lower rx kw0 re ks rs mb)"
  unfolding filter_results_def
  by (rule gives_filter_loop) (use assms in \<open>simp_all add: results_ok_def carr.len_abs\<close>)

section \<open>Items\<close>

lemma gives_all_items: "carr_inv a \<Longrightarrow> gives (tolerated f) (\<lambda>xs. xs = carr_list a) (all_items a)"
  by (simp add: all_items_list)

lemma gives_max_length: "carr_inv a \<Longrightarrow> gives (tolerated f) (\<lambda>_. True) (get_max_length a)"
  unfolding get_max_length_def
  by (subst carr.for_items_drop) (auto simp: carr.len_abs intro!: efold_gives)

section \<open>Passwords\<close>

text \<open>A source of random numbers ends well, whatever number it gives.\<close>

definition source_ends :: "bool \<Rightarrow> 's uniform \<Rightarrow> bool" where
  "source_ends f uniform \<longleftrightarrow> (\<forall>n s. tgives f (\<lambda>_. True) (uniform n s))"

lemma max_scan_range: "max_scan ws j m elt = elt \<or> max_scan ws j m elt < j + length ws"
proof (induction ws arbitrary: j m elt)
  case (Cons w ws)
  have "max_scan ws (Suc j) w j < j + length (w # ws)" using Cons [of "Suc j" w j] by auto
  moreover have "max_scan ws (Suc j) m elt = elt \<or> max_scan ws (Suc j) m elt < j + length (w # ws)"
    using Cons [of "Suc j" m elt] by auto
  ultimately show ?case by simp
qed simp

lemma tgives_weights:
  assumes "source_ends f uniform"
  shows "tgives f (\<lambda>(ws, s). length ws = k) (assign_weights uniform k s)"
proof (induction k arbitrary: s)
  case (Suc k)
  have u: "tgives f (\<lambda>_. True) (uniform 20000 s)" using assms by (simp add: source_ends_def)
  show ?case
    unfolding assign_weights.simps
  proof (rule tgives_tbind [OF u], clarify)
    fix r :: u32 and s
    show "tgives f (\<lambda>(ws, s). length ws = Suc k)
        (tbind (assign_weights uniform k s) (\<lambda>(ws, s). Some (Inr (uint (1 + r) # ws, s))))"
      by (rule tgives_tbind [OF Suc.IH]) auto
  qed
qed simp

lemma tgives_password_loop:
  assumes "source_ends f uniform" "n < length cset" "i + k \<le> length pw"
  shows "tgives f (\<lambda>(pw', s). length pw' = length pw) (password_loop uniform cset n k i pw s)"
  using assms(3)
proof (induction k arbitrary: i pw s)
  case (Suc k)
  show ?case
    unfolding password_loop.simps
  proof (rule tgives_tbind [OF tgives_weights [OF assms(1)]], clarify)
    fix ws :: "int list" and s assume n: "n = length ws"
    have "max_scan ws 0 0 0 < length cset" using max_scan_range [of ws 0 0 0] assms(2) n by auto
    then show "tgives f (\<lambda>(pw', s). length pw' = length pw)
        (tbind (Some (rd cset (max_scan ws 0 0 0))) (\<lambda>c.
         tbind (Some (wr pw i c)) (\<lambda>pw. password_loop uniform cset (length ws) k (Suc i) pw s)))"
      using Suc.IH [of "Suc i" "pw[i := cset ! max_scan ws 0 0 0]" s] Suc.prems n by simp
  qed
qed simp

lemma tgives_from_set:
  assumes "source_ends f uniform" "0 \<in> set cset" "1 \<le> n \<Longrightarrow> n \<le> 256 \<Longrightarrow> n < int (length pw)"
  shows "tgives f (\<lambda>_. True) (generate_password_from_set ok uniform pw n cset s)"
proof (cases "n > MAX_PASSWORD_LENGTH \<or> n < 1")
  case True
  then show ?thesis by (simp add: generate_password_from_set_def Let_def)
next
  case False
  then have n: "nat n < length pw" using assms(3) by (auto simp: MAX_PASSWORD_LENGTH_def nat_less_iff not_less)
  note loop = tgives_password_loop [OF assms(1) strlen_less [OF assms(2)], of 0 "nat n" pw]
  have "tgives f (\<lambda>_. True) (Some (xcalloc ok (of_nat (strlen 0 cset)) 4))"
    by (simp add: gives_safe)
  then show ?thesis using False n
    unfolding generate_password_from_set_def Let_def
    by (auto intro!: tgives_tbind [OF _ tgives_tbind [OF loop]])
qed

lemma tgives_generate:
  assumes "source_ends f uniform" "character_set p \<noteq> None"
  shows "tgives f (\<lambda>_. True) (profile_generate_password always uniform o1 p s)"
proof -
  let ?c = "if cmd_character_count o1 > 0 then cmd_character_count o1 else character_count p"
  obtain cset where cset: "character_set p = Some cset" using assms(2) by blast
  have buf: "sint ?c < int (unat (?c + 1))" if "1 \<le> sint ?c" "sint ?c \<le> 256"
  proof -
    have "sint ?c = int (unat ?c)" using sint_cases [of ?c] that(1) by linarith
    then have "1 \<le> unat ?c" "unat ?c \<le> 256" using that by linarith+
    then show ?thesis using requested_int [of ?c] by linarith
  qed
  have "tgives f (\<lambda>_. True) (generate_password_from_set always uniform (replicate (unat (?c + 1)) 0) (sint ?c) (cset @ [0]) s)"
    for s by (rule tgives_from_set [OF assms(1)]) (use buf in auto)
  then show ?thesis
    unfolding profile_generate_password_def Let_def cset option.case
    by (intro tgives_tbind [where R = "\<lambda>_. True"]) (auto simp: gives_safe)
qed

lemma tgives_fprint:
  assumes "source_ends f uniform" "character_set p \<noteq> None"
  shows "tgives f (\<lambda>_. True) (fprint_loop always uniform o1 p k acc s)"
proof (induction k arbitrary: acc s)
  case (Suc k)
  show ?case unfolding fprint_loop.simps
    by (rule tgives_tbind [OF tgives_generate [OF assms]]) (use Suc.IH in auto)
qed simp

lemma gives_wcsjoin: "gives (tolerated f) (\<lambda>_. True) (wcsjoin ok sep base tail)"
  by (auto simp: wcsjoin_def Let_def int_succ_def open_places_def split: prod.split)

lemma tgives_to_results:
  assumes "source_ends f uniform" "character_set p \<noteq> None" "results_ok rs"
  shows "tgives f (\<lambda>(rs, s). results_ok rs) (to_results_loop always junk cm uniform o1 p pfx k rs s)"
  using assms(3)
proof (induction k arbitrary: rs s)
  case (Suc k)
  have new: "tgives f (\<lambda>r. \<forall>x. r = Some x \<longrightarrow> entry_ok x) (Some (case pfx of
        None \<Rightarrow> result_new always junk cm (cstr 0 pw)
      | Some pfx \<Rightarrow> ebind (wcsjoin always 9 pfx (cstr 0 pw)) (\<lambda>line. result_new always junk cm line)))" for pw
    using gives_result_new by (auto intro!: gives_ebind [OF gives_wcsjoin] split: option.split)
  have add: "tgives f results_ok (Some (ARRAY_ADD always rs r))" if "entry_ok r" for r
    using gives_add_entry [OF Suc.prems that] by simp
  show ?case
    unfolding to_results_loop.simps
    by (rule tgives_tbind [OF tgives_generate [OF assms(1,2)]], clarify, rule tgives_tbind [OF new])
      (auto split: option.split intro!: tgives_tbind [OF add] Suc.IH)
qed simp

section \<open>Profiles and the configuration\<close>

lemma gives_safe_lines: "safe_lines n i m \<Longrightarrow> (\<And>x. m = Inr x \<Longrightarrow> Q x) \<Longrightarrow> gives (tolerated f) Q m"
  unfolding safe_lines_def using gives_safe [of m Q f] by (auto simp: open_places_def)

lemma gives_config_read:
  assumes "conf_inv c"
  shows "gives (tolerated f) conf_inv (config_read always cm path fp c)"
proof (cases fp)
  case (Some s)
  show ?thesis
    by (rule gives_safe_lines [of "length s" 1])
      (use config_loop_safe [OF assms] config_loop_inv [OF assms] assms in \<open>auto simp: Some config_read_def\<close>)
qed (simp add: assms config_read_def)

lemma gives_profile_new:
  assumes "registry_inv r"
  shows "gives (tolerated f) (\<lambda>(p, r'). registry_inv r' \<and> p < length (store r') \<and> length (store r) \<le> length (store r'))
    (profile_new always c nm r)"
  unfolding profile_new_def Let_def
  by (rule gives_ebind [OF gives_safe [where Q = "\<lambda>_. True"]])
    (use assms in \<open>auto simp: registry_inv_def strdup_def wcsdup_set_def wcsdup_def less_Suc_eq split: option.splits\<close>)

lemma gives_from_name:
  assumes "registry_inv r"
  shows "gives (tolerated f) (\<lambda>p. \<forall>x. p = Some x \<longrightarrow> x < length (store r)) (profile_get_from_name nm r)"
  using assms by (auto simp: profile_get_spec registry_inv_def find_Some_iff)

lemma gives_defaults:
  "gives (tolerated f) (\<lambda>(c', w). cfg_gpg_path c' \<noteq> None \<and> cfg_password_file c' \<noteq> None \<and> cfg_editor c' \<noteq> None)
    (config_set_defaults always o1 d c)"
  by (auto simp: config_set_defaults_def strdup_def Let_def split: if_splits)

end
