(* ===== verification/RunEnds.thy ===== *)
theory RunEnds
  imports Endings Wp
begin

text \<open>
  The endings of the stateful code, up to whole runs: \<open>ends f P m Q\<close> says that from a state with
  \<open>P\<close> the action \<open>m\<close> returns with \<open>Q\<close> or stops the program in a tolerated way. The data of the
  program stay well formed on the way, whatever the system calls, the programs that mdp starts and
  the user answer.
\<close>

section \<open>Rules\<close>

text \<open>The program waits at the terminal for good: the timeout is negative, as an \<open>int\<close>.\<close>

definition waits :: "'r mdp \<Rightarrow> bool" where
  "waits s \<longleftrightarrow> sint (cfg_timeout (cfg (conf s)) * 1000) < 0"

definition stops :: "bool \<Rightarrow> halt \<Rightarrow> 'r mdp \<Rightarrow> bool" where
  "stops f h s \<longleftrightarrow> tolerated f h \<or> (h = Forever \<and> waits s)"

lemma stops_tolerated [simp]: "tolerated f h \<Longrightarrow> stops f h s"
  by (simp add: stops_def)

definition ends :: "bool \<Rightarrow> ('r mdp \<Rightarrow> bool) \<Rightarrow> ('r mdp, 'a) act \<Rightarrow> ('a \<Rightarrow> 'r mdp \<Rightarrow> bool) \<Rightarrow> bool" where
  "ends f P m Q \<longleftrightarrow> (\<forall>s. P s \<longrightarrow> (case m s of (Inl h, s') \<Rightarrow> stops f h s' | (Inr x, s') \<Rightarrow> Q x s'))"

named_theorems ends_intros \<open>how actions end\<close>

lemma ends_ret [ends_intros]: "(\<And>s. P s \<Longrightarrow> Q x s) \<Longrightarrow> ends f P (ret x) Q"
  by (simp add: ends_def ret_def)

lemma ends_stop [ends_intros]: "tolerated f h \<Longrightarrow> ends f P (stop h) Q"
  by (simp add: ends_def stop_def)

lemma ends_bnd:
  assumes "ends f P m R" "\<And>x. ends f (R x) (g x) Q"
  shows "ends f P (bnd m g) Q"
  unfolding ends_def
proof (intro allI impI)
  fix s assume "P s"
  obtain r s' where m: "m s = (r, s')" by fastforce
  with assms(1) \<open>P s\<close> have "case r of Inl h \<Rightarrow> stops f h s' | Inr x \<Rightarrow> R x s'"
    by (auto simp: ends_def split: sum.splits)
  then show "case bnd m g s of (Inl h, s') \<Rightarrow> stops f h s' | (Inr x, s') \<Rightarrow> Q x s'"
    using m assms(2) [unfolded ends_def, rule_format] by (cases r) (simp_all add: bnd_def)
qed

text \<open>A step that keeps \<open>P\<close>; a step that also says something about its value.\<close>

lemma ends_then [ends_intros]:
  "ends f P m (\<lambda>_. P) \<Longrightarrow> (\<And>x. ends f P (g x) Q) \<Longrightarrow> ends f P (bnd m g) Q"
  by (rule ends_bnd)

lemma ends_known: "(F \<Longrightarrow> ends f P m Q) \<Longrightarrow> ends f (\<lambda>s. P s \<and> F) m Q"
  by (auto simp: ends_def)

lemma ends_value:
  "ends f P m (\<lambda>x s. P s \<and> F x) \<Longrightarrow> (\<And>x. F x \<Longrightarrow> ends f P (g x) Q) \<Longrightarrow> ends f P (bnd m g) Q"
  by (rule ends_bnd) (auto intro: ends_known)

lemma ends_post: "ends f P m R \<Longrightarrow> (\<And>x s. R x s \<Longrightarrow> Q x s) \<Longrightarrow> ends f P m Q"
  by (fastforce simp: ends_def split: prod.splits sum.splits)

lemma ends_pre: "ends f R m Q \<Longrightarrow> (\<And>s. P s \<Longrightarrow> R s) \<Longrightarrow> ends f P m Q"
  by (simp add: ends_def)

lemma ends_gets [ends_intros]: "(\<And>s. P s \<Longrightarrow> Q (g s) s) \<Longrightarrow> ends f P (gets g) Q"
  by (simp add: ends_def gets_def)

lemma ends_modify [ends_intros]: "(\<And>s. P s \<Longrightarrow> Q () (g s)) \<Longrightarrow> ends f P (modify g) Q"
  by (simp add: ends_def modify_def)

lemma ends_lift:
  assumes "gives (tolerated f) R r" "\<And>x s. P s \<Longrightarrow> R x \<Longrightarrow> Q x s"
  shows "ends f P (lift r) Q"
  using assms by (cases r) (simp_all add: ends_def lift_def)

lemma ends_if [ends_intros]:
  "(c \<Longrightarrow> ends f P a Q) \<Longrightarrow> (\<not> c \<Longrightarrow> ends f P b Q) \<Longrightarrow> ends f P (if c then a else b) Q"
  by simp

lemma ends_option [ends_intros]:
  "(x = None \<Longrightarrow> ends f P a Q) \<Longrightarrow> (\<And>y. x = Some y \<Longrightarrow> ends f P (g y) Q) \<Longrightarrow>
   ends f P (case x of None \<Rightarrow> a | Some y \<Rightarrow> g y) Q"
  by (cases x) simp_all

lemma ends_sum [ends_intros]:
  "(\<And>e. x = Inl e \<Longrightarrow> ends f P (a e) Q) \<Longrightarrow> (\<And>y. x = Inr y \<Longrightarrow> ends f P (g y) Q) \<Longrightarrow>
   ends f P (case x of Inl e \<Rightarrow> a e | Inr y \<Rightarrow> g y) Q"
  by (cases x) simp_all

lemma ends_prod [ends_intros]:
  "(\<And>a b. x = (a, b) \<Longrightarrow> ends f P (g a b) Q) \<Longrightarrow> ends f P (case x of (a, b) \<Rightarrow> g a b) Q"
  by (cases x) simp

lemma ends_child [ends_intros]:
  "(\<And>n. x = Exited n \<Longrightarrow> ends f P (a n) Q) \<Longrightarrow> (x = Signaled \<Longrightarrow> ends f P b Q) \<Longrightarrow>
   ends f P (case x of Exited n \<Rightarrow> a n | Signaled \<Rightarrow> b) Q"
  by (cases x) simp_all

text \<open>A value read from the state and used as a string.\<close>

lemma ends_str_of: "p \<noteq> None \<Longrightarrow> ends f P (str_of p) (\<lambda>_. P)"
  by (cases p) (simp_all add: str_of_def ends_ret)

lemma ends_gets_str [ends_intros]:
  assumes "\<And>s. P s \<Longrightarrow> g s \<noteq> None"
  shows "ends f P (bnd (gets g) str_of) (\<lambda>_. P)"
  by (rule ends_value [where F = "\<lambda>p. p \<noteq> None"]) (use assms in \<open>auto intro!: ends_gets ends_str_of\<close>)

section \<open>The data of the program\<close>

text \<open>
  The data are well formed, and the configuration and the name of the temporary file have the
  property \<open>F\<close>, which grows during the start of the program.
\<close>

definition data_ok :: "(config \<Rightarrow> string option \<Rightarrow> bool) \<Rightarrow> 'r mdp \<Rightarrow> bool" where
  "data_ok F s \<longleftrightarrow> results_ok (results s) \<and> keywords_inv (kws s) \<and> wline_inv (wline s)
     \<and> length (mbs_line s) = MAX_LINE_SIZE \<and> conf_inv (conf s) \<and> F (cfg (conf s)) (editor_tmp_path s)"

lemma data_ok_other [simp]:
  "data_ok F (s\<lparr>os := w\<rparr>) = data_ok F s" "data_ok F (s\<lparr>opts := v\<rparr>) = data_ok F s"
  "data_ok F (s\<lparr>result_crc32 := c\<rparr>) = data_ok F s" "data_ok F (s\<lparr>rng := g\<rparr>) = data_ok F s"
  "data_ok F (s\<lparr>lock_path := l\<rparr>) = data_ok F s" "data_ok F (s\<lparr>watcher_pid := n\<rparr>) = data_ok F s"
  "data_ok F (s\<lparr>atexit_registered := b\<rparr>) = data_ok F s" "data_ok F (s\<lparr>debug_enabled := b\<rparr>) = data_ok F s"
  "data_ok F (s\<lparr>window_width := n1\<rparr>) = data_ok F s" "data_ok F (s\<lparr>window_height := n1\<rparr>) = data_ok F s"
  "data_ok F (s\<lparr>screen := b\<rparr>) = data_ok F s" "data_ok F (s\<lparr>user_lines := ls\<rparr>) = data_ok F s"
  by (simp_all add: data_ok_def)

lemma ends_sys [ends_intros]: "ends f (data_ok F) (sys c) (\<lambda>_. data_ok F)"
  by (simp add: ends_def sys_def returned_def split: prod.split sum.split)

lemma ends_sys_or [ends_intros]: "tolerated f h \<Longrightarrow> ends f (data_ok F) (sys_or h c) (\<lambda>_. data_ok F)"
  unfolding sys_or_def by (intro ends_intros)

lemma ends_run [ends_intros]: "ends f (data_ok F) (run L cmd) (\<lambda>_. data_ok F)"
  by (simp add: ends_def run_def split: prod.split)

lemma ends_print [ends_intros]: "ends f (data_ok F) (print e) (\<lambda>_. data_ok F)"
  unfolding print_def by (intro ends_intros) simp

lemma ends_debug [ends_intros]: "ends f (data_ok F) (debug m as) (\<lambda>_. data_ok F)"
  unfolding debug_def by (intro ends_intros) simp_all

lemma ends_debug_any: "ends f P (debug m as) (\<lambda>_ _. True)"
proof -
  have c: "ends f P (sys_or h simple_call) (\<lambda>_ _. True)" if "tolerated f h" for h and P :: "'a mdp \<Rightarrow> bool"
    using that by (auto simp: ends_def sys_or_def sys_def returned_def ebind_simps split: prod.split sum.split)
  show ?thesis unfolding debug_def print_def
    by (intro ends_bnd [OF ends_gets] ends_if ends_bnd [OF c] ends_ret ends_modify) simp_all
qed

lemma ends_lift_opt: "tgives f (\<lambda>_. True) r \<Longrightarrow> ends f P (lift_opt r) (\<lambda>_. P)"
  by (cases r) (auto simp: lift_opt_def intro!: ends_stop ends_lift [where R = "\<lambda>_. True"])

section \<open>Utilities, files and the terminal\<close>

lemma ends_file_exists [ends_intros]: "ends f (data_ok F) (file_exists p) (\<lambda>_. data_ok F)"
  unfolding file_exists_def by (intro ends_intros) simp_all

lemma ends_get_home:
  "lib_ok L = always \<Longrightarrow> ends f (data_ok F) (get_home L) (\<lambda>h s. data_ok F s \<and> h \<noteq> None)"
  unfolding get_home_def by (intro ends_intros) (simp_all add: strdup_def)

lemma ends_watcher [ends_intros]:
  "ends f (data_ok F) (set_pid_timeout t) (\<lambda>_. data_ok F)" "ends f (data_ok F) cancel_pid_timeout (\<lambda>_. data_ok F)"
  unfolding set_pid_timeout_def cancel_pid_timeout_def by (intro ends_intros; simp)+

lemma ends_lock_exists: "ends f (data_ok F) lock_exists (\<lambda>_ s. data_ok F s \<and> lock_path s \<noteq> None)"
  by (auto simp: ends_def lock_exists_def file_exists_def ebind_simps sys_def returned_def
      split: option.split prod.split sum.split)

lemma ends_lock_set [ends_intros]: "ends f (data_ok F) lock_set (\<lambda>_. data_ok F)"
  unfolding lock_set_def
proof (rule ends_bnd [OF ends_lock_exists], rule ends_bnd [where R = "\<lambda>p s. data_ok F s \<and> p \<noteq> None"])
  show "ends f (\<lambda>s. data_ok F s \<and> lock_path s \<noteq> None) (gets lock_path) (\<lambda>p s. data_ok F s \<and> p \<noteq> None)"
    by (rule ends_gets)
  show "ends f (\<lambda>s. data_ok F s \<and> p \<noteq> None)
      (if b then stop (printed p (\<lambda>l. Errx ''locked (%s)'' [ArgS l]))
       else bnd (str_of p) (\<lambda>p.
         bnd (sys (fopen_w p)) (\<lambda>r.
         case r of
           Inl e \<Rightarrow> stop (Undefined ''fprintf to a null stream'')
         | Inr fd \<Rightarrow>
             bnd (gets (\<lambda>s. my_pid (os s))) (\<lambda>pid.
             bnd (sys (write_fd fd (dec_int (int pid)))) (\<lambda>_.
             bnd (sys (close_fd fd)) (\<lambda>_. ret ())))))) (\<lambda>_. data_ok F)" for b p
    by (rule ends_known) (intro ends_intros ends_str_of; auto simp: open_places_def printed_def)
qed

lemma ends_config_checks [ends_intros]:
  "ends f (data_ok F) (config_ensure_directory p) (\<lambda>_. data_ok F)"
  "ends f (data_ok F) (config_check_file p) (\<lambda>_. data_ok F)"
  "ends f (data_ok F) (config_check_password_file p) (\<lambda>_. data_ok F)"
  unfolding config_ensure_directory_def config_check_file_def config_check_password_file_def my_uid_now_def
  by (intro ends_intros; simp)+

lemma ends_curses [ends_intros]: "ends f (data_ok F) (curses c as) (\<lambda>_. data_ok F)"
  unfolding curses_def by (intro ends_intros)

lemma ends_shutdown [ends_intros]: "ends f (data_ok F) shutdown_curses (\<lambda>_. data_ok F)"
  unfolding shutdown_curses_def by (intro ends_intros)

lemma ends_init_curses [ends_intros]: "ends f (data_ok F) (init_curses L) (\<lambda>_. data_ok F)"
  unfolding init_curses_def by (intro ends_intros) simp_all

section \<open>The pager\<close>

lemma ends_listing [ends_intros]: "ends f (data_ok F) (listing_loop width col rs row) (\<lambda>_. data_ok F)"
  by (induction width col rs row rule: listing_loop.induct)
    (auto intro!: ends_intros simp: open_places_def)

lemma ends_of_results [ends_intros]:
  assumes "\<And>rs. results_ok rs \<Longrightarrow> ends f (data_ok F) (g rs) (\<lambda>_. data_ok F)"
  shows "ends f (data_ok F) (bnd (gets results) g) (\<lambda>_. data_ok F)"
  by (rule ends_value [where F = results_ok]) (auto intro!: ends_gets assms simp: data_ok_def)

lemma ends_lift_then:
  "gives (tolerated f) R r \<Longrightarrow> (\<And>x. R x \<Longrightarrow> ends f (data_ok F) (g x) Q) \<Longrightarrow> ends f (data_ok F) (bnd (lift r) g) Q"
  by (rule ends_value [where F = R]) (auto intro: ends_lift)

lemma ends_refresh [ends_intros]: "ends f (data_ok F) refresh_listing (\<lambda>_. data_ok F)"
  unfolding refresh_listing_def Let_def
  by (rule ends_of_results, rule ends_then, (intro ends_intros), simp, rule ends_then, (intro ends_intros), simp,
      rule ends_lift_then [where R = "\<lambda>_. True"])
    (auto simp: results_ok_def results_visible_length_spec
      intro!: ends_intros ends_lift_then [OF gives_max_length] ends_lift_then [OF gives_all_items])

lemma gives_getnstr: "gives (tolerated f) (\<lambda>_. True) (getnstr kw n line)"
proof -
  have "gives (tolerated f) (\<lambda>_. True) (store_str b i cs)" for b i cs
    by (induction b i cs rule: store_str.induct) (auto simp: wr_at_def open_places_def)
  then show ?thesis by (simp add: getnstr_def)
qed

lemma ends_wait [ends_intros]: "ends f (data_ok F) wait_input (\<lambda>_. data_ok F)"
  by (simp add: ends_def wait_input_def waits_def stops_def ebind_simps)

lemma ends_join [ends_intros]:
  "ends f (data_ok F) (lift (formatted ok t)) (\<lambda>_. data_ok F)"
  "ends f (data_ok F) (lift (join ok sep d t)) (\<lambda>_. data_ok F)"
  "ends f (data_ok F) (lift (join_path ok d t)) (\<lambda>_. data_ok F)"
  "ends f (data_ok F) (lift (Inr x)) (\<lambda>_. data_ok F)"
proof -
  have "gives (tolerated f) (\<lambda>_. True) (formatted ok t)" for t using formatted_cases [of ok t] by auto
  then show "ends f (data_ok F) (lift (formatted ok t)) (\<lambda>_. data_ok F)"
      "ends f (data_ok F) (lift (join ok sep d t)) (\<lambda>_. data_ok F)"
      "ends f (data_ok F) (lift (join_path ok d t)) (\<lambda>_. data_ok F)"
    unfolding join_path_def join_def by (auto intro!: ends_lift)
qed (simp add: ends_def lift_def)

lemma ends_keyword_prompt:
  assumes "lib_ok L = always"
  shows "ends f (data_ok F) (keyword_prompt L) (\<lambda>_. data_ok F)"
proof -
  have kws: "ends f (data_ok F) (bnd (gets kws) g) Q" if "\<And>k. keywords_inv k \<Longrightarrow> ends f (data_ok F) (g k) Q" for g Q
    by (rule ends_value [where F = keywords_inv]) (auto intro!: ends_gets that simp: data_ok_def)
  show ?thesis unfolding keyword_prompt_def assms
    by (intro ends_intros kws ends_lift_then [OF gives_getnstr] ends_lift_then [OF gives_char]; (simp add: data_ok_def)?)
qed

lemma ends_filter_all [ends_intros]:
  fixes L :: "('r, 'p) lib"
  shows "ends f (data_ok F) (filter_all L) (\<lambda>_. data_ok F)"
  unfolding ends_def
proof (intro allI impI)
  fix s :: "'r mdp" assume s: "data_ok F s"
  have "gives (tolerated f) (\<lambda>(rs, mb). results_ok rs \<and> length mb = MAX_LINE_SIZE)
      (filter_results (lib_cm L) (lib_lower L) (lib_rx L) (lib_kw0 L) (cmd_regex (opts s)) (kws s) (results s) (mbs_line s))"
    by (rule gives_filter) (use s in \<open>simp_all add: data_ok_def\<close>)
  then show "case filter_all L s of (Inl h, s') \<Rightarrow> stops f h s' | (Inr x, s') \<Rightarrow> data_ok F s'"
    using s by (auto simp: filter_all_def data_ok_def gives_def split: sum.split)
qed

lemma ends_pager_loop:
  assumes "lib_ok L = always"
  shows "ends f (data_ok F) (pager_loop L b keys) (\<lambda>_. data_ok F)"
  using assms
proof (induction L b keys rule: pager_loop.induct)
  case (1 L b keys)
  show ?case
    using 1 by (subst pager_loop.simps)
      (auto intro!: ends_intros ends_keyword_prompt split: list.split)
qed

lemma ends_pager_from:
  assumes "lib_ok L = always"
  shows "ends f (data_ok F) (pager_from L b) (\<lambda>_. data_ok F)"
  unfolding pager_from_def by (intro ends_intros ends_pager_loop assms)

section \<open>GnuPG and the editor\<close>

text \<open>
  The surroundings: every allocation succeeds and the source of random numbers ends well. When
  running forever is excluded, GnuPG writes fewer than $2^{63}$ bytes and the programs that are run
  leave no longer files.
\<close>

definition small_files :: "world \<Rightarrow> bool" where
  "small_files w \<longleftrightarrow> (\<forall>p n. lookup w p = Some n \<longrightarrow> length (contents n) < 2 ^ 63)"

definition lib_ends :: "bool \<Rightarrow> ('r, 'p) lib \<Rightarrow> bool" where
  "lib_ends f L \<longleftrightarrow> lib_ok L = always \<and> source_ends f (lib_uniform L) \<and>
     (\<not> f \<longrightarrow> (\<forall>cmd w. small_files (snd (system L cmd w))) \<and>
        (\<forall>c as t w out e w'. execlp L c as t w = Some (out, e, w') \<longrightarrow> length out < 2 ^ 63))"

lemma ends_gpg_check [ends_intros]:
  assumes "\<And>c e. F c e \<Longrightarrow> cfg_gpg_path c \<noteq> None"
  shows "ends f (data_ok F) (gpg_check L) (\<lambda>_. data_ok (\<lambda>c e. F c e \<and> cfg_gpg_key_id c \<noteq> None))"
proof -
  have key: "ends f (data_ok F) (bnd (gets (\<lambda>s. cfg_gpg_key_id (cfg (conf s))))
      (\<lambda>k. if k = None then stop (Errx m as) else ret ())) (\<lambda>_. data_ok (\<lambda>c e. F c e \<and> cfg_gpg_key_id c \<noteq> None))" for m as
    by (auto simp: ends_def ebind_simps data_ok_def)
  show ?thesis unfolding gpg_check_def
    by (intro ends_intros key) (use assms in \<open>auto simp: gpg_path_def data_ok_def\<close>)
qed

lemma ends_gpg_child:
  fixes L :: "('r, 'p) lib"
  assumes "lib_ends f L"
  shows "ends f (data_ok F) (gpg_child L path pw) (\<lambda>c s. data_ok F s \<and> (\<not> f \<longrightarrow> length (fst c) < 2 ^ 63))"
  unfolding ends_def
proof (intro allI impI)
  fix s :: "'r mdp" assume s: "data_ok F s"
  obtain r s' where c: "gpg_child_code L path pw s = (r, s')" by fastforce
  have "length (fst x) < 2 ^ 63" if "r = Inr x" "\<not> f" for x
  proof -
    obtain t w0 w where "execlp L path [''-q'', ''--decrypt'', pw] t w0 = Some (fst x, snd x, w)"
      using c \<open>r = Inr x\<close> by (auto simp: gpg_child_code_def bnd_def gets_def split: prod.splits sum.splits option.splits)
    then show ?thesis using assms \<open>\<not> f\<close> unfolding lib_ends_def by metis
  qed
  then show "case gpg_child L path pw s of (Inl h, s') \<Rightarrow> stops f h s'
      | (Inr c, s') \<Rightarrow> data_ok F s' \<and> (\<not> f \<longrightarrow> length (fst c) < 2 ^ 63)"
    using s c by (cases r) (simp_all add: gpg_child_def)
qed

lemma ends_gpg_open:
  assumes "lib_ends f L" "\<And>c e. F c e \<Longrightarrow> cfg_gpg_path c \<noteq> None \<and> cfg_password_file c \<noteq> None"
  shows "ends f (data_ok F) (gpg_open L)
    (\<lambda>c s. data_ok F s \<and> (\<forall>x. c = Some x \<longrightarrow> \<not> f \<longrightarrow> length (fst x) < 2 ^ 63))"
  unfolding gpg_open_def
  by (intro ends_gets_str ends_value [OF ends_gpg_child [OF assms(1)]] ends_intros)
    (use assms(2) in \<open>auto simp: gpg_path_def password_file_def data_ok_def split: sum.splits\<close>)

lemma ends_gpg_close [ends_intros]: "ends f (data_ok F) (gpg_close fp) (\<lambda>_. data_ok F)"
  unfolding gpg_close_def by (intro ends_intros) (simp_all add: open_places_def)

lemma ends_load_fp:
  fixes L :: "('r, 'p) lib"
  assumes "lib_ok L = always" "\<And>x. fp = Some x \<Longrightarrow> \<not> f \<Longrightarrow> length x < 2 ^ 63"
  shows "ends f (data_ok F) (load_fp L fp) (\<lambda>_. data_ok F)"
  unfolding ends_def
proof (intro allI impI)
  fix s :: "'r mdp" assume s: "data_ok F s"
  have "tgives f (\<lambda>(n, c, wl, rs, warn). wline_inv wl \<and> results_ok rs)
      (load_results_fp always (lib_junk L) (lib_cm L) fp (wline s) (results s))"
    by (rule gives_load_results) (use s assms(2) in \<open>auto simp: data_ok_def\<close>)
  then show "case load_fp L fp s of (Inl h, s') \<Rightarrow> stops f h s' | (Inr x, s') \<Rightarrow> data_ok F s'"
    using s by (auto simp: load_fp_def assms(1) data_ok_def tgives_def gives_def split: option.splits sum.splits)
qed

lemma ends_load_results:
  assumes "lib_ends f L" "\<And>c e. F c e \<Longrightarrow> cfg_gpg_path c \<noteq> None \<and> cfg_password_file c \<noteq> None"
  shows "ends f (data_ok F) (load_results_gpg L) (\<lambda>_. data_ok F)"
  unfolding load_results_gpg_def
  by (rule ends_value [OF ends_gpg_open [OF assms]])
    (use assms(1) in \<open>auto intro!: ends_intros ends_load_fp simp: lib_ends_def\<close>)

lemma ends_gpg_encrypt:
  assumes "\<And>c e. F c e \<Longrightarrow> cfg_gpg_path c \<noteq> None \<and> cfg_password_file c \<noteq> None \<and> cfg_gpg_key_id c \<noteq> None"
  shows "ends f (data_ok F) (gpg_encrypt L tmp) (\<lambda>_. data_ok F)"
  unfolding gpg_encrypt_def swap_in_def put_in_place_def move_aside_def Let_def
  by (intro ends_intros) (use assms in \<open>auto simp: gpg_path_def password_file_def data_ok_def\<close>)

lemma ends_spawn_editor:
  fixes L :: "('r, 'p) lib"
  assumes "lib_ends f L" "\<And>c e. F c e \<Longrightarrow> cfg_editor c \<noteq> None"
  shows "ends f (data_ok F) (spawn_editor L path) (\<lambda>_ s. data_ok F s \<and> (\<not> f \<longrightarrow> small_files (os s)))"
proof -
  have run: "ends f (data_ok F) (bnd (run L cmd) (\<lambda>r.
      if r = -1 then stop (Err m as) else if r > 0 then stop (Err m' as') else ret ()))
      (\<lambda>_ s. data_ok F s \<and> (\<not> f \<longrightarrow> small_files (os s)))" for cmd m as m' as'
    unfolding ends_def
  proof (intro allI impI)
    fix s :: "'r mdp" assume s: "data_ok F s"
    obtain r w where w: "system L cmd (os s) = (r, w)" by fastforce
    have "\<not> f \<Longrightarrow> small_files w" using assms(1) w by (auto simp: lib_ends_def) (metis snd_conv)
    then show "case bnd (run L cmd) (\<lambda>r. if r = -1 then stop (Err m as)
          else if r > 0 then stop (Err m' as') else ret ()) s of
        (Inl h, s') \<Rightarrow> stops f h s' | (Inr x, s') \<Rightarrow> data_ok F s' \<and> (\<not> f \<longrightarrow> small_files (os s'))"
      using s w by (simp add: bnd_def run_def stop_def ret_def)
  qed
  show ?thesis unfolding spawn_editor_def Let_def
    by (intro ends_gets_str run ends_str_of ends_intros)
      (use assms in \<open>auto simp: data_ok_def lib_ends_def strdup_def intro: ends_join\<close>)
qed

lemma ends_has_changed:
  fixes L :: "('r, 'p) lib"
  assumes "lib_ends f L"
  shows "ends f (\<lambda>s. data_ok F s \<and> (\<not> f \<longrightarrow> small_files (os s))) (has_changed L path) (\<lambda>_. data_ok F)"
proof -
  let ?P = "\<lambda>s :: 'r mdp. data_ok F s \<and> (\<not> f \<longrightarrow> small_files (os s))"
  have fopen: "ends f ?P (sys (fopen_r path)) (\<lambda>fp s. data_ok F s \<and> (\<forall>x. fp = Inr x \<longrightarrow> \<not> f \<longrightarrow> length x < 2 ^ 63))"
    unfolding ends_def
  proof (intro allI impI)
    fix s :: "'r mdp" assume s: "?P s"
    have "length x < 2 ^ 63" if "fst (fopen_r path (os s)) = Inr x" "\<not> f" for x
      using s that by (auto simp: small_files_def fopen_r_def syscall_def next_fault_def lookup_def
          split: list.splits option.splits)
    then show "case sys (fopen_r path) s of (Inl h, s') \<Rightarrow> stops f h s'
        | (Inr fp, s') \<Rightarrow> data_ok F s' \<and> (\<forall>x. fp = Inr x \<longrightarrow> \<not> f \<longrightarrow> length x < 2 ^ 63)"
      using s by (auto simp: sys_def returned_def split: prod.split sum.split)
  qed
  have load: "ends f (data_ok F) (load_fp L (case fp of Inl e \<Rightarrow> None | Inr s \<Rightarrow> Some s)) (\<lambda>_. data_ok F)"
    if "\<forall>x. fp = Inr x \<longrightarrow> \<not> f \<longrightarrow> length x < 2 ^ 63" for fp :: "errno + string"
    by (rule ends_load_fp) (use that assms in \<open>auto simp: lib_ends_def split: sum.splits\<close>)
  show ?thesis unfolding has_changed_def
  proof (rule ends_bnd [OF ends_gets], assumption, rule ends_bnd [OF fopen], rule ends_known)
    fix c and fp :: "errno + string" assume "\<forall>x. fp = Inr x \<longrightarrow> \<not> f \<longrightarrow> length x < 2 ^ 63"
    then show "ends f (data_ok F) (bnd (load_fp L (case fp of Inl e \<Rightarrow> None | Inr s \<Rightarrow> Some s)) (\<lambda>_.
        bnd (case fp of Inl e \<Rightarrow> stop (Undefined ''fclose of a null stream'') | Inr _ \<Rightarrow> ret ()) (\<lambda>_.
        bnd (gets result_crc32) (\<lambda>c'. ret (c \<noteq> c'))))) (\<lambda>_. data_ok F)"
      by (intro ends_intros load) (simp_all add: open_places_def)
  qed
qed

lemma ends_dump [ends_intros]: "ends f (data_ok F) (dump_loop fd rs) (\<lambda>_. data_ok F)"
  by (induction rs) (auto intro!: ends_intros)

text \<open>What the configuration needs before the commands work on the password file.\<close>

definition configured_ok :: "config \<Rightarrow> string option \<Rightarrow> bool" where
  "configured_ok c e \<longleftrightarrow> cfg_gpg_path c \<noteq> None \<and> cfg_password_file c \<noteq> None \<and> cfg_editor c \<noteq> None \<and> e \<noteq> None"

definition keyed :: "config \<Rightarrow> string option \<Rightarrow> bool" where
  "keyed c e \<longleftrightarrow> configured_ok c e \<and> cfg_gpg_key_id c \<noteq> None"

lemma ends_edit_results:
  assumes "lib_ends f L"
  shows "ends f (data_ok keyed) (edit_results L) (\<lambda>_. data_ok keyed)"
proof -
  have items: "ends f (data_ok keyed) (bnd (gets results) (\<lambda>rs. lift (all_items rs))) (\<lambda>_. data_ok keyed)"
    by (rule ends_of_results, rule ends_lift [OF gives_all_items]) (auto simp: results_ok_def)
  show ?thesis unfolding edit_results_def
    by (intro ends_gets_str items ends_bnd [OF ends_spawn_editor [OF assms]] ends_bnd [OF ends_has_changed [OF assms]]
        ends_gpg_encrypt ends_intros) (auto simp: data_ok_def keyed_def configured_ok_def)
qed

section \<open>The command line\<close>

lemma ends_set_opts [ends_intros]: "ends f (data_ok F) (set_opts g) (\<lambda>_. data_ok F)"
  unfolding set_opts_def by (intro ends_intros) simp

lemma ends_print_lines [ends_intros]: "ends f (data_ok F) (print_lines ls) (\<lambda>_. data_ok F)"
  by (induction ls) (auto intro!: ends_intros)

lemma ends_usage [ends_intros]: "ends f (data_ok F) (usage msg n) Q"
  unfolding usage_def by (intro ends_intros) simp

lemma ends_usage_core [ends_intros]: "ends f (data_ok F) cmd_usage_core (\<lambda>_. data_ok F)"
  unfolding cmd_usage_core_def by (intro ends_intros)

lemma ends_printw_lines [ends_intros]: "ends f (data_ok F) (printw_lines ls) (\<lambda>_. data_ok F)"
  by (induction ls) (auto intro!: ends_intros)

lemma ends_each_opt [ends_intros]:
  "(\<And>c a. ends f (data_ok F) (h c a) (\<lambda>_. data_ok F)) \<Longrightarrow> ends f (data_ok F) (each_opt h os') (\<lambda>_. data_ok F)"
  by (induction h os' rule: each_opt.induct) (auto intro!: ends_intros)

lemma ends_core_opt [ends_intros]: "ends f (data_ok F) (core_opt L c a) (\<lambda>_. data_ok F)"
  unfolding core_opt_def cmd_usage_core_with_commands_def deprecated_def by (intro ends_intros) simp_all

lemma strlcat_keeps_length:
  assumes "n \<le> length b"
  shows "\<exists>b' k. strlcat b (c @ [NUL]) n = Inr (b', k) \<and> length b' = length b"
  using strlcat_spec [of "c @ [NUL]" n b] assms by (auto simp: Let_def)

lemma gives_join_loop:
  assumes "\<And>b. buf = Some b \<Longrightarrow> length b = n" "ts \<noteq> [] \<or> buf \<noteq> None"
  shows "gives (tolerated f) (\<lambda>r. r \<noteq> None) (join_loop always junk sep ts buf n)"
  using assms
proof (induction ts arbitrary: buf n)
  case (Cons c cs)
  have IH: "gives (tolerated f) (\<lambda>r. r \<noteq> None) (join_loop always junk sep cs (Some b) m)" if "length b = m" for b m
    by (rule Cons.IH) (use that in auto)
  have add: "gives (tolerated f) (\<lambda>(b', k). length b' = m) (strlcat b (t @ [NUL]) m)" if "length b = m" for b t m
    using strlcat_keeps_length [of m b t] that by auto
  show ?case
  proof (cases buf)
    case None
    let ?m = "n + length c"
    have "gives (tolerated f) (\<lambda>_. 0 < ?m) (xmalloc always (of_nat ?m))"
      by (rule gives_safe) (auto simp: xmalloc_def)
    then show ?thesis unfolding None join_loop.simps Let_def option.case
      by (elim gives_ebind) (auto intro!: gives_ebind [OF add] IH simp del: upt_Suc not_None_eq)
  next
    case (Some b)
    let ?m = "n + length c + 1" and ?b = "b @ map junk [length b..<n + length c + 1]"
    have b: "length ?b = ?m" using Cons.prems(1) Some by simp
    show ?thesis unfolding Some join_loop.simps Let_def option.case
    proof (rule gives_ebind [OF gives_safe [where Q = "\<lambda>_. True"]])
      show "gives (tolerated f) (\<lambda>r. r \<noteq> None) (ebind (strlcat ?b [sep, NUL] ?m) (\<lambda>(b, _).
          ebind (strlcat b (c @ [NUL]) ?m) (\<lambda>(b, _). join_loop always junk sep cs (Some b) ?m)))"
        by (rule gives_ebind [OF add [OF b, of "[sep]", unfolded append.simps]])
          (auto intro!: gives_ebind [OF add] IH simp del: not_None_eq)
    qed simp_all
  qed
qed simp

lemma gives_join_list:
  "ts \<noteq> [] \<Longrightarrow> gives (tolerated f) (\<lambda>r. r \<noteq> None) (join_list always junk sep ts)"
  unfolding join_list_def Let_def by (rule gives_join_loop) simp_all

lemma ends_parse_core [ends_intros]: "ends f (data_ok F) (cmd_parse_core L args) (\<lambda>_. data_ok F)"
  unfolding cmd_parse_core_def Let_def by (intro ends_intros) simp_all

lemma ends_parse_simple [ends_intros]:
  "ends f (data_ok F) (cmd_parse_edit L args) (\<lambda>_. data_ok F)"
  "ends f (data_ok F) (cmd_parse_generate L args) (\<lambda>_. data_ok F)"
  "ends f (data_ok F) (cmd_parse_prompt L args) (\<lambda>_. data_ok F)"
  unfolding cmd_parse_edit_def cmd_parse_generate_def cmd_parse_prompt_def Let_def
  by (intro ends_intros; simp)+

lemma ends_parse_add:
  assumes "lib_ok L = always"
  shows "ends f (data_ok F) (cmd_parse_add L args) (\<lambda>_. data_ok F)"
  unfolding cmd_parse_add_def Let_def assms
  by (intro ends_lift_then [OF gives_join_list] ends_bnd [OF ends_str_of]
      ends_lift_then [OF gives_safe [OF mbs_duplicate_safe, where Q = "\<lambda>_. True"]] ends_intros) simp_all

lemma ends_parse_get:
  assumes "lib_ok L = always"
  shows "ends f (data_ok F) (cmd_parse_get L args) (\<lambda>_. data_ok F)"
proof -
  have load: "ends f (data_ok F) (bnd (gets kws) (\<lambda>k. bnd (lift (keywords_load_from_argv always av k))
      (\<lambda>k. modify (\<lambda>s. s\<lparr>kws := k\<rparr>)))) (\<lambda>_. data_ok F)" for av
    by (rule ends_value [where F = keywords_inv])
      (auto intro!: ends_gets ends_lift_then [OF gives_argv] ends_modify simp: data_ok_def)
  show ?thesis unfolding cmd_parse_get_def Let_def assms
    by (intro load ends_intros) simp_all
qed

section \<open>The start of a run\<close>

lemma ends_editor_init:
  fixes L :: "('r, 'p) lib"
  assumes "lib_ok L = always"
  shows "ends f (data_ok (\<lambda>c e. True)) (editor_init L d) (\<lambda>_. data_ok (\<lambda>c e. e \<noteq> None))"
  unfolding editor_init_def
proof (rule ends_then)
  show "ends f (data_ok (\<lambda>c e. True) :: 'r mdp \<Rightarrow> bool) (bnd (modify (\<lambda>s. s\<lparr>editor_tmp_path := Some p\<rparr>)) (\<lambda>_.
      bnd (gets (\<lambda>s. environ (os s) ''EDITOR'')) (\<lambda>e.
      case e of
        None \<Rightarrow> ret ()
      | Some v \<Rightarrow> modify (\<lambda>s. s\<lparr>conf := (conf s)\<lparr>cfg := (cfg (conf s))\<lparr>cfg_editor := strdup (lib_ok L) v\<rparr>\<rparr>\<rparr>))))
      (\<lambda>_. data_ok (\<lambda>c e. e \<noteq> None))" for p
    by (rule ends_bnd [where R = "\<lambda>_. data_ok (\<lambda>c e. e \<noteq> None)"])
      (auto intro!: ends_intros simp: data_ok_def conf_inv_def)
qed (rule ends_join)

lemma ends_do_config_read:
  fixes L :: "('r, 'p) lib"
  assumes "lib_ok L = always"
  shows "ends f (data_ok (\<lambda>c e. e \<noteq> None)) (do_config_read L p) (\<lambda>_. data_ok (\<lambda>c e. e \<noteq> None))"
proof -
  have read: "ends f (data_ok (\<lambda>c e. e \<noteq> None)) (bnd (gets conf) (\<lambda>c. bnd (lift (config_read always (lib_cm L) p fp c))
      (\<lambda>c. modify (\<lambda>s. s\<lparr>conf := c\<rparr>)))) (\<lambda>_. data_ok (\<lambda>c e. e \<noteq> None))" for fp
    by (rule ends_value [where F = conf_inv])
      (auto intro!: ends_gets ends_lift_then [OF gives_config_read] ends_modify simp: data_ok_def)
  show ?thesis unfolding do_config_read_def assms by (intro read ends_intros)
qed

lemma ends_set_defaults:
  fixes L :: "('r, 'p) lib"
  assumes "lib_ok L = always"
  shows "ends f (data_ok (\<lambda>c e. e \<noteq> None)) (do_set_defaults L d) (\<lambda>_. data_ok configured_ok)"
  unfolding do_set_defaults_def assms
proof (rule ends_value [where F = "\<lambda>(c, w). cfg_gpg_path c \<noteq> None \<and> cfg_password_file c \<noteq> None \<and> cfg_editor c \<noteq> None"])
  show "ends f (data_ok (\<lambda>c e. e \<noteq> None) :: 'r mdp \<Rightarrow> bool) (bnd (gets (\<lambda>s. config_set_defaults always (opts s) d (cfg (conf s)))) lift)
      (\<lambda>x s. data_ok (\<lambda>c e. e \<noteq> None) s \<and>
        (case x of (c, w) \<Rightarrow> cfg_gpg_path c \<noteq> None \<and> cfg_password_file c \<noteq> None \<and> cfg_editor c \<noteq> None))"
    unfolding ends_def
  proof (intro allI impI)
    fix s :: "'r mdp" assume "data_ok (\<lambda>c e. e \<noteq> None) s"
    then show "case bnd (gets (\<lambda>s. config_set_defaults always (opts s) d (cfg (conf s)))) lift s of
        (Inl h, s') \<Rightarrow> stops f h s'
      | (Inr x, s') \<Rightarrow> data_ok (\<lambda>c e. e \<noteq> None) s' \<and>
          (case x of (c, w) \<Rightarrow> cfg_gpg_path c \<noteq> None \<and> cfg_password_file c \<noteq> None \<and> cfg_editor c \<noteq> None)"
      using gives_defaults [of f "opts s" d "cfg (conf s)"]
      by (cases "config_set_defaults always (opts s) d (cfg (conf s))") (auto simp: ebind_simps)
  qed
  fix x :: "config \<times> bool" assume x: "case x of (c, w) \<Rightarrow> cfg_gpg_path c \<noteq> None \<and> cfg_password_file c \<noteq> None \<and> cfg_editor c \<noteq> None"
  show "ends f (data_ok (\<lambda>c e. e \<noteq> None) :: 'r mdp \<Rightarrow> bool) (case x of (c, warn) \<Rightarrow>
      bnd (modify (\<lambda>s. s\<lparr>conf := (conf s)\<lparr>cfg := c\<rparr>\<rparr>)) (\<lambda>_.
      bnd (if warn then print (Warning ''WARNING: neither $EDITOR or 'set editor' was defined, defaulting to /usr/bin/vi.'' [])
           else ret ()) (\<lambda>_.
      bnd (lift (join_path always d ''lock'')) (\<lambda>lock.
      modify (\<lambda>s. s\<lparr>lock_path := Some lock\<rparr>))))) (\<lambda>_. data_ok configured_ok)"
    using x
    by (cases x; simp only: prod.case, intro ends_bnd [where R = "\<lambda>_. data_ok configured_ok" and m = "modify _"] ends_intros)
      (auto simp: data_ok_def configured_ok_def conf_inv_def)
qed

lemma ends_read_config:
  assumes "lib_ok L = always"
  shows "ends f (data_ok (\<lambda>c e. True)) (read_config L) (\<lambda>_. data_ok configured_ok)"
proof -
  have home: "ends f (data_ok F) (bnd (get_home L) str_of) (\<lambda>_. data_ok F)" for F
    by (rule ends_value [OF ends_get_home [OF assms]]) (rule ends_str_of)
  have dir: "ends f (data_ok F) (bnd (lift (xdirname always pw)) str_of) (\<lambda>_. data_ok F)" for F pw
    by (rule ends_lift_then [where R = "\<lambda>d. d \<noteq> None"]) (auto simp: xdirname_def strdup_def intro: ends_str_of)
  have path: "ends f (data_ok F) (lift (case c of None \<Rightarrow> join_path always d x | Some p \<Rightarrow> Inr p)) (\<lambda>_. data_ok F)" for F c d x
    by (cases c) (simp_all add: ends_join(4))
  show ?thesis unfolding read_config_def Let_def assms
    by (intro ends_gets_str home dir path ends_bnd [OF ends_editor_init [OF assms]] ends_bnd [OF ends_set_defaults [OF assms]]
        ends_do_config_read [OF assms] ends_intros) (auto simp: data_ok_def configured_ok_def password_file_def)
qed

section \<open>Whole runs\<close>

lemma ends_chosen_profile:
  fixes L :: "('r, 'p) lib"
  assumes "lib_ok L = always"
  shows "ends f (data_ok F) (chosen_profile L) (\<lambda>p s. data_ok F s \<and> character_set p \<noteq> None)"
proof -
  let ?P = "\<lambda>p (s :: 'r mdp). data_ok F s \<and> (\<forall>x. p = Some x \<longrightarrow> x < length (store (reg (conf s))))"
  have new: "ends f (data_ok F) (bnd (gets conf) (\<lambda>c. case nm of
           None \<Rightarrow>
             bnd (lift (profile_new always (cfg c) ''default'' (reg c))) (\<lambda>(p, r).
             bnd (modify (\<lambda>s. s\<lparr>conf := c\<lparr>reg := r\<rparr>\<rparr>)) (\<lambda>_. ret (Some p)))
         | Some nm \<Rightarrow> lift (profile_get_from_name nm (reg c)))) ?P" for nm
    unfolding ends_def
  proof (intro allI impI)
    fix s :: "'r mdp" assume s: "data_ok F s"
    then have r: "registry_inv (reg (conf s))" "\<And>p. current_profile (conf s) = Some p \<Longrightarrow> p < length (store (reg (conf s)))"
      by (simp_all add: data_ok_def conf_inv_def)
    show "case bnd (gets conf) (\<lambda>c. case nm of
           None \<Rightarrow>
             bnd (lift (profile_new always (cfg c) ''default'' (reg c))) (\<lambda>(p, r).
             bnd (modify (\<lambda>s. s\<lparr>conf := c\<lparr>reg := r\<rparr>\<rparr>)) (\<lambda>_. ret (Some p)))
         | Some nm \<Rightarrow> lift (profile_get_from_name nm (reg c))) s of
        (Inl h, s') \<Rightarrow> stops f h s' | (Inr x, s') \<Rightarrow> ?P x s'"
      using s gives_profile_new [OF r(1), of f "cfg (conf s)" "''default''"] gives_from_name [OF r(1), of f "the nm"] r(2)
      by (auto simp: ebind_simps gives_def data_ok_def conf_inv_def split: option.splits sum.splits)
  qed
  have item: "ends f (?P p) (case p of None \<Rightarrow> stop (Errx ''unknown profile'' [])
      | Some p \<Rightarrow> bnd (gets (\<lambda>s. store (reg (conf s)))) (\<lambda>ps. lift (rd ps p)))
      (\<lambda>p s. data_ok F s \<and> character_set p \<noteq> None)" for p
    by (auto simp: ends_def ebind_simps data_ok_def conf_inv_def registry_inv_def split: option.split)
  show ?thesis unfolding chosen_profile_def assms
    by (rule ends_then, rule ends_gets, assumption)
      (simp only: bnd_assoc [symmetric], rule ends_bnd [OF new item])
qed

lemma ends_add_passwords:
  fixes L :: "('r, 'p) lib"
  assumes "lib_ends f L" "character_set p \<noteq> None"
  shows "ends f (data_ok F) (add_passwords L p) (\<lambda>_. data_ok F)"
  unfolding ends_def
proof (intro allI impI)
  fix s :: "'r mdp" assume s: "data_ok F s"
  have "tgives f (\<lambda>(rs, g). results_ok rs) (profile_passwords_to_results always (lib_junk L) (lib_cm L) (lib_uniform L)
      (opts s) p (cmd_add_prefix (opts s)) (results s) (rng s))"
    unfolding profile_passwords_to_results_def
    by (rule tgives_to_results) (use s assms in \<open>simp_all add: data_ok_def lib_ends_def\<close>)
  moreover have "lib_ok L = always" using assms(1) by (simp add: lib_ends_def)
  ultimately show "case add_passwords L p s of (Inl h, s') \<Rightarrow> stops f h s' | (Inr x, s') \<Rightarrow> data_ok F s'"
    using s by (auto simp: add_passwords_def ebind_simps lift_opt_def tgives_def gives_def data_ok_def
        split: option.splits sum.splits)
qed

lemma ends_setup [ends_intros]: "ends f (data_ok F) setup_signals_and_atexit (\<lambda>_. data_ok F)"
  unfolding setup_signals_and_atexit_def by (intro ends_intros) simp_all

lemma keyed_enough:
  "keyed c e \<Longrightarrow> cfg_gpg_path c \<noteq> None \<and> cfg_password_file c \<noteq> None"
  by (simp add: keyed_def configured_ok_def)

lemma ends_check:
  "ends f (data_ok configured_ok) (gpg_check L) (\<lambda>_. data_ok keyed)"
  by (rule ends_post [OF ends_gpg_check]) (auto simp: configured_ok_def keyed_def data_ok_def)

lemma ends_commands:
  fixes L :: "('r, 'p) lib"
  assumes "lib_ends f L"
  shows "ends f (data_ok configured_ok) (mdp_add L) (\<lambda>_ _. True)" (is ?add)
    "ends f (data_ok configured_ok) (mdp_edit L) (\<lambda>_ _. True)" (is ?edit)
    "ends f (data_ok configured_ok) (mdp_generate L) (\<lambda>_ _. True)" (is ?generate)
    "ends f (data_ok configured_ok) (mdp_get L) (\<lambda>_ _. True)" (is ?get)
    "ends f (data_ok configured_ok) (mdp_prompt L) (\<lambda>_ _. True)" (is ?prompt)
proof -
  have ok: "lib_ok L = always" using assms by (simp add: lib_ends_def)
  note load = ends_load_results [OF assms keyed_enough]
  note edit = ends_post [OF ends_edit_results [OF assms] TrueI]
  note check = ends_bnd [OF ends_check]
  show ?edit unfolding mdp_edit_def by (intro check edit load ends_intros)
  show ?prompt unfolding mdp_prompt_def
    by (intro check load ends_post [OF ends_pager_from [OF ok] TrueI] ends_intros) simp_all
  show ?add unfolding mdp_add_def
    by (intro ends_value [OF ends_chosen_profile [OF ok]] check edit load ends_add_passwords [OF assms] ends_intros)
  have shown: "ends f (data_ok keyed) (bnd (gets results) (\<lambda>rs. lift (print_results rs))) (\<lambda>_. data_ok keyed)"
    by (rule ends_of_results, rule ends_lift [where R = "\<lambda>_. True"]) (auto simp: results_ok_def print_results_spec)
  show ?get unfolding mdp_get_def
    by (intro shown check load ends_post [OF ends_pager_from [OF ok] TrueI] ends_post [OF ends_printw_lines TrueI] ends_intros) simp_all
  have gen: "ends f (data_ok configured_ok) (bnd (gets (\<lambda>s. s)) (\<lambda>s.
      bnd (lift_opt (profile_fprint_passwords (lib_ok L) (lib_uniform L) (opts s) p (rng s))) (\<lambda>(ls, g).
      bnd (modify (\<lambda>s. s\<lparr>rng := g\<rparr>)) (\<lambda>_. printw_lines (map Some ls))))) (\<lambda>_ _. True)"
    if "character_set p \<noteq> None" for p
    unfolding ok profile_fprint_passwords_def
    by (intro ends_then [OF ends_gets] ends_then [OF ends_lift_opt [OF tgives_fprint [OF _ that]]]
        ends_post [OF ends_printw_lines TrueI] ends_intros)
      (use assms in \<open>simp_all add: lib_ends_def\<close>)
  show ?generate unfolding mdp_generate_def
    by (intro ends_value [OF ends_chosen_profile [OF ok]] gen ends_intros)
qed

lemma ends_run_command:
  fixes L :: "('r, 'p) lib"
  assumes "lib_ends f L"
  shows "ends f (data_ok configured_ok) (run_command L c args) (\<lambda>_ _. True)"
proof -
  have "lib_ok L = always" using assms by (simp add: lib_ends_def)
  note parse = ends_parse_add [OF this] ends_parse_get [OF this] ends_parse_simple
  show ?thesis
    by (cases c) (simp_all add: run_command_def, (rule ends_then, rule parse, rule ends_commands [OF assms])+)
qed

lemma gives_command: "gives (tolerated f) (\<lambda>_. True) (which_command a)"
proof -
  have m: "gives (tolerated f) (\<lambda>_. True) (command_match a nm k)" for nm k
    by (simp add: command_match_def Let_def)
  show ?thesis unfolding which_command_def
    by (intro gives_ebind [OF m] gives_if) simp_all
qed

lemma ends_main:
  fixes L :: "('r, 'p) lib"
  assumes "lib_ends f L"
  shows "ends f (data_ok (\<lambda>c e. True)) (mdp_main L args) (\<lambda>_ _. True)"
proof -
  have ok: "lib_ok L = always" using assms by (simp add: lib_ends_def)
  show ?thesis unfolding mdp_main_def
    by (intro ends_bnd [OF ends_read_config [OF ok]] ends_lift_then [OF gives_command]
        ends_bnd [OF ends_run_command [OF assms]] ends_bnd [OF ends_debug_any] ends_intros) (simp_all add: open_places_def)
qed

text \<open>A run ends with a status, in an open place, or when the exit handler itself fails.\<close>

lemma initial_data_ok: "data_ok (\<lambda>c e. True) (initial_state w g keys ls)"
proof -
  have "results_ok results_initial" by (simp add: results_ok_def results_initial_inv)
  then show ?thesis
    by (simp add: data_ok_def initial_state_def keywords_initial_inv wline_initial_inv conf_initial_inv)
qed

lemma finish_ends:
  assumes "case r of Inl h \<Rightarrow> stops f h s | Inr n \<Rightarrow> True"
  shows "case fst (finish (r, s)) of Status n \<Rightarrow> True | Slain \<Rightarrow> True | Running \<Rightarrow> f \<or> waits (snd (finish (r, s)))
    | Crash m \<Rightarrow> m = ''exit called twice'' \<or> m \<in> open_places"
proof (cases "outcome_of r")
  case (Status n)
  then show ?thesis by (auto simp: finish_def split: prod.split sum.split)
next
  case (Crash m)
  then show ?thesis using assms by (auto simp: finish_def outcome_of_def stops_def split: sum.splits halt.splits)
next
  case Running
  then show ?thesis using assms by (auto simp: finish_def outcome_of_def stops_def split: sum.splits halt.splits)
next
  case Slain
  then show ?thesis by (simp add: finish_def)
qed

lemma run_ends:
  assumes "lib_ends f L"
  shows "case fst (run_mdp L args (initial_state w g keys ls)) of Status n \<Rightarrow> True | Slain \<Rightarrow> True
    | Running \<Rightarrow> f \<or> waits (snd (run_mdp L args (initial_state w g keys ls)))
    | Crash m \<Rightarrow> m = ''exit called twice'' \<or> m \<in> open_places"
proof -
  obtain r s where m: "mdp_main L args (initial_state w g keys ls) = (r, s)" by fastforce
  have "case r of Inl h \<Rightarrow> stops f h s | Inr n \<Rightarrow> True"
    using ends_main [OF assms, unfolded ends_def, rule_format, OF initial_data_ok, of args w g keys ls] m
    by (auto split: sum.splits)
  then show ?thesis unfolding run_mdp_def m by (rule finish_ends)
qed

end
