(* ===== verification/Signals.thy ===== *)
theory Signals
  imports EditRun
begin

text \<open>
  \<open>SIGINT\<close> during an edit: the handler that \<open>setup_signals_and_atexit\<close> installs cleans up and
  returns, so the program goes on without its lock and without its file.
\<close>

lemma sig_cleanup_calls:
  assumes "quiet s" "lock_path s = Some l" "lookup (os s) l = Some n" "kind n \<noteq> Dir"
    and "editor_tmp_path s = Some t" "t \<noteq> l" "lookup (os s) t = Some m" "kind m \<noteq> Dir" "\<not> screen s"
  shows "sig_cleanup s = (Inr (), s\<lparr>os := (os s)\<lparr>dir := (dir (os s))(l := None, t := None)\<rparr>\<rparr>)"
  using cleanup_calls [OF assms] assms(1) by (simp add: sig_cleanup_def quiet_def ebind_simps calls)

lemma load_fp_null: "\<exists>c. load_fp L None s = (Inr (ARRAY_LENGTH (results s)), s\<lparr>result_crc32 := c\<rparr>)"
  by (rule exI [of _ "- 1"]) (simp add: load_fp_def load_results_fp_def CKSUM_Init_def CKSUM_Final_def final_loop.simps Let_def)

text \<open>Without the file that it reads back, the program passes a null stream to \<open>fclose\<close>.\<close>

lemma has_changed_missing:
  assumes "faults (os s) = []" "lookup (os s) t = None"
  shows "\<exists>s'. has_changed L t s = (Inl (Undefined ''fclose of a null stream''), s')"
proof -
  have "fopen_r t (os s) = (Inl ENOENT, os s)" using assms by (simp add: fopen_r_def calls)
  then have "sys (fopen_r t) s = (Inr (Inl ENOENT), s)" by (simp add: sys_def)
  then show ?thesis using load_fp_null [of L s] by (auto simp: has_changed_def ebind_simps)
qed

text \<open>C36. \<open>sig_cleanup\<close> does not end the program: after a \<open>SIGINT\<close> during an edit the lock and the plain
  text are gone and the program still runs. Another process gets the lock, and \<open>has_changed\<close>, which
  comes next when the signal came behind the editor, closes a null stream.\<close>

theorem sigint_leaves_a_running_program:
  assumes "quiet s" "lock_path s = Some l" "lookup (os s) l = Some n" "kind n \<noteq> Dir"
    and "editor_tmp_path s = Some t" "t \<noteq> l" "lookup (os s) t = Some m" "kind m \<noteq> Dir" "\<not> screen s" "world_inv (os s)"
  shows "\<exists>s1. sig_cleanup s = (Inr (), s1) \<and> lookup (os s1) l = None \<and> lookup (os s1) t = None
    \<and> (\<forall>pid. \<exists>s2. lock_set (s1\<lparr>os := (os s1)\<lparr>my_pid := pid\<rparr>\<rparr>) = (Inr (), s2))
    \<and> (\<exists>s2. has_changed L t s1 = (Inl (Undefined ''fclose of a null stream''), s2))"
proof -
  let ?s = "s\<lparr>os := (os s)\<lparr>dir := (dir (os s))(l := None, t := None)\<rparr>\<rparr>"
  have f: "faults (os ?s) = []" using assms(1) by (simp add: quiet_def)
  have g: "lookup (os ?s) l = None" "lookup (os ?s) t = None" by (simp_all add: lookup_def)
  have "world_inv ((os ?s)\<lparr>my_pid := pid\<rparr>)" "lookup ((os ?s)\<lparr>my_pid := pid\<rparr>) l = None" for pid
    using assms(10) by (auto simp: world_inv_def lookup_def)
  then have "\<exists>s2. lock_set (?s\<lparr>os := (os ?s)\<lparr>my_pid := pid\<rparr>\<rparr>) = (Inr (), s2)" for pid
    using lock_set_creates [of "?s\<lparr>os := (os ?s)\<lparr>my_pid := pid\<rparr>\<rparr>" l] assms(2) f by simp
  then show ?thesis
    using sig_cleanup_calls [OF assms(1-9)] g has_changed_missing [OF f g(2), of L] by blast
qed

theorem sigint_leaves_a_running_program_witness:
  "\<exists>s1. sig_cleanup (demo_state None (demo_world [(''/h/lock'', regular ''42''), (''/h/tmp'', regular ''ab'')])) = (Inr (), s1)
    \<and> lookup (os s1) ''/h/lock'' = None
    \<and> (\<exists>s2. has_changed (demo_lib (\<lambda>c w. (0, w)) (\<lambda>f args t w. None)) ''/h/tmp'' s1
        = (Inl (Undefined ''fclose of a null stream''), s2))"
proof -
  let ?s = "demo_state None (demo_world [(''/h/lock'', regular ''42''), (''/h/tmp'', regular ''ab'')])"
  have "quiet ?s" "lookup (os ?s) ''/h/lock'' = Some (regular ''42'')" "lookup (os ?s) ''/h/tmp'' = Some (regular ''ab'')"
    "world_inv (os ?s)" "\<And>x. kind (regular x) \<noteq> Dir" "''/h/tmp'' \<noteq> ''/h/lock''"
    by (simp_all add: quiet_def demo_lookup demo_world_inv) (simp add: regular_def)
  from sigint_leaves_a_running_program [OF this(1) _ this(2,5) _ this(6,3,5) _ this(4)] show ?thesis by fastforce
qed

end
