(* ===== verification/Survival.thy ===== *)
theory Survival
  imports EditRun Privacy
begin

text \<open>
  The old password file survives every run that keeps backups: whatever the arguments, whichever
  system calls fail and wherever the program stops or is killed, the file that was there under the password
  file's name is at the end under this name or under the backup's.
\<close>

section \<open>The file and its names\<close>

text \<open>
  Inode \<open>i\<close> has the old text and no names but the two; it has the first, or, once the file was
  moved aside, one of them.
\<close>

definition intact :: "bool \<Rightarrow> string \<Rightarrow> nat \<Rightarrow> string \<Rightarrow> world \<Rightarrow> bool" where
  "intact moved pw i old w \<longleftrightarrow> world_inv w \<and> map_option contents (node w i) = Some old
     \<and> (dir w pw = Some i \<or> moved \<and> dir w (pw @ ''.bak'') = Some i)
     \<and> (\<forall>p. dir w p = Some i \<longrightarrow> p = pw \<or> p = pw @ ''.bak'')"

lemma intact_text:
  "intact moved pw i old w \<Longrightarrow> file_text w pw = Some old \<or> file_text w (pw @ ''.bak'') = Some old"
  by (auto simp: intact_def file_text_def lookup_def)

lemma intact_moved: "intact False pw i old w \<Longrightarrow> intact moved pw i old w"
  by (auto simp: intact_def)

lemma intact_same: "intact m pw i old w \<Longrightarrow> dir w' = dir w \<Longrightarrow> node w' = node w \<Longrightarrow> fresh w' = fresh w \<Longrightarrow> intact m pw i old w'"
  by (simp add: intact_def world_inv_def)

lemma intact_next: "intact m pw i old w \<Longrightarrow> next_fault w = (e, w') \<Longrightarrow> intact m pw i old w'"
  by (auto dest: next_fault_same intro: intact_same)

lemma intact_syscall:
  assumes "intact m pw i old w" "syscall g w = (r, w')"
    and "\<And>w0. intact m pw i old w0 \<Longrightarrow> g w0 = (r, w') \<Longrightarrow> intact m pw i old w'"
  shows "intact m pw i old w'"
  using assms intact_next [OF assms(1)] by (auto simp: syscall_def split: prod.splits option.splits)

lemma keeps_intact_syscall: "keeps (intact m pw i old) g \<Longrightarrow> keeps (intact m pw i old) (syscall g)"
  unfolding keeps_def by (metis intact_syscall prod.collapse snd_conv)

lemma intact_fresh: "intact m pw i old w \<Longrightarrow> fresh w \<noteq> i"
  by (auto simp: intact_def world_inv_def)

lemma intact_create: "intact m pw i old w \<Longrightarrow> dir w p = None \<Longrightarrow> intact m pw i old (create p n w)"
  using intact_fresh [of m pw i old w] create_inv [of w p n] by (auto simp: intact_def create_def)

lemma intact_node:
  assumes "intact m pw i old w" "node w j \<noteq> None" "j = i \<Longrightarrow> contents n = old"
  shows "intact m pw i old (w\<lparr>node := (node w)(j := Some n)\<rparr>)"
  using assms by (auto simp: intact_def world_inv_def)

lemma intact_unlink:
  assumes "intact m pw i old w" "p \<noteq> pw" "m \<Longrightarrow> p \<noteq> pw @ ''.bak''"
  shows "intact m pw i old (w\<lparr>dir := (dir w)(p := None)\<rparr>)"
  using assms by (auto simp: intact_def world_inv_def)

lemma intact_link:
  assumes "intact m pw i old w" "p \<noteq> pw" "p \<noteq> pw @ ''.bak''" "dir w q = None"
  shows "intact m pw i old (w\<lparr>dir := (dir w)(q := dir w p)\<rparr>)"
  using assms by (auto simp: intact_def world_inv_def)

text \<open>The calls, with the names of other files.\<close>

lemma intact_calls:
  "keeps (intact m pw i old) (stat p)" "keeps (intact m pw i old) (fopen_r p)" "keeps (intact m pw i old) simple_call"
  "keeps (intact m pw i old) (close_fd fd)" "keeps (intact m pw i old) (mkdir p md)"
  "keeps (intact m pw i old) (chmod p md)"
  unfolding stat_def fopen_r_def simple_call_def close_fd_def mkdir_def chmod_def
  by (rule keeps_intact_syscall; auto simp: keeps_def intact_create intro!: intact_node
      split: option.split; auto simp: intact_def)+

lemma intact_write: "fd \<noteq> i \<Longrightarrow> keeps (intact m pw i old) (write_fd fd s)"
  unfolding write_fd_def by (rule keeps_intact_syscall) (auto simp: keeps_def intro!: intact_node split: option.split)

lemma intact_unlink_call:
  "p \<noteq> pw \<Longrightarrow> (m \<Longrightarrow> p \<noteq> pw @ ''.bak'') \<Longrightarrow> keeps (intact m pw i old) (unlink p)"
  unfolding unlink_def by (rule keeps_intact_syscall) (auto simp: keeps_def intro!: intact_unlink split: option.split)

lemma intact_link_call:
  "p \<noteq> pw \<Longrightarrow> p \<noteq> pw @ ''.bak'' \<Longrightarrow> keeps (intact m pw i old) (link p q)"
  unfolding link_def by (rule keeps_intact_syscall) (auto simp: keeps_def intro!: intact_link split: option.split)

text \<open>A file that is opened for writing is another one.\<close>

lemma intact_opened:
  assumes "intact m pw i old w" "p \<noteq> pw" "p \<noteq> pw @ ''.bak''" "fopen_w p w = (r, w')"
  shows "intact m pw i old w' \<and> r \<noteq> Inr i"
proof -
  obtain e w0 where n: "next_fault w = (e, w0)" by fastforce
  note k = intact_next [OF assms(1) n]
  show ?thesis
  proof (cases e)
    case None
    have i: "dir w0 p \<noteq> Some i" using k assms(2,3) by (auto simp: intact_def)
    from assms(4) n None show ?thesis
      using k i intact_fresh [OF k] by (auto simp: fopen_w_def syscall_def intact_create intro!: intact_node
          split: option.splits if_splits)
  next
    case (Some e')
    then show ?thesis using assms(4) n k by (auto simp: fopen_w_def syscall_def)
  qed
qed

lemma pick_name_base: "pick_name base d xs = Some (p, ys) \<Longrightarrow> d p = None \<and> (\<exists>x. p = base @ x)"
  by (induction xs) (auto split: if_splits)

lemma intact_mkstemp:
  assumes "intact m pw i old w" "mkstemp t w = (r, w')"
  shows "intact m pw i old w' \<and> (\<forall>fd p. r = Inr (fd, p) \<longrightarrow> fd \<noteq> i \<and> (\<exists>x. p = take (length t - 8) t @ x))"
proof -
  obtain e w0 where n: "next_fault w = (e, w0)" by fastforce
  note k = intact_next [OF assms(1) n]
  show ?thesis
  proof (cases "\<exists>p ys. e = None \<and> pick_name (take (length t - 8) t) (dir w0) (tmp_names w0) = Some (p, ys)")
    case True
    then obtain p ys where p: "e = None" "pick_name (take (length t - 8) t) (dir w0) (tmp_names w0) = Some (p, ys)"
      by blast
    have "intact m pw i old (w0\<lparr>tmp_names := ys\<rparr>)" by (rule intact_same [OF k]) simp_all
    from intact_create [OF this] pick_name_base [OF p(2)] show ?thesis
      using assms(2) n p intact_fresh [OF k] by (auto simp: mkstemp_def syscall_def)
  next
    case False
    then show ?thesis using assms(2) n k
      by (cases e) (auto simp: mkstemp_def syscall_def split: option.splits)
  qed
qed

text \<open>The two calls that move the file aside.\<close>

lemma intact_backup:
  assumes "intact False pw i old w" "link pw (pw @ ''.bak'') w = (r, w')"
  shows "intact False pw i old w' \<and> (r = Inr () \<longrightarrow> dir w' (pw @ ''.bak'') = Some i)"
proof -
  obtain e w0 where n: "next_fault w = (e, w0)" by fastforce
  note k = intact_next [OF assms(1) n]
  have "intact False pw i old (w0\<lparr>dir := (dir w0)(pw @ ''.bak'' := dir w0 pw)\<rparr>)"
    using k by (auto simp: intact_def world_inv_def)
  then show ?thesis using assms(2) n k
    by (cases e) (auto simp: link_def syscall_def intact_def split: option.splits if_splits)
qed

lemma intact_aside:
  assumes "intact False pw i old w" "dir w (pw @ ''.bak'') = Some i" "unlink pw w = (r, w')"
  shows "intact True pw i old w'"
proof -
  obtain e w0 where n: "next_fault w = (e, w0)" by fastforce
  note k = intact_next [OF assms(1) n]
  have "intact True pw i old (w0\<lparr>dir := (dir w0)(pw := None)\<rparr>)"
    using k assms(2) next_fault_same [OF n] by (auto simp: intact_def world_inv_def)
  then show ?thesis using assms(3) n intact_moved [OF k]
    by (cases e) (auto simp: unlink_def syscall_def split: option.splits if_splits)
qed

section \<open>A predicate that every operation keeps\<close>

text \<open>The names that the program uses for its own files.\<close>

definition own_name :: "string \<Rightarrow> string \<Rightarrow> bool" where
  "own_name d p \<longleftrightarrow> p = in_dir d ''lock'' \<or> (\<exists>x. p = in_dir d ''tmp_edit.'' @ x)"

definition apart :: "string \<Rightarrow> string \<Rightarrow> bool" where
  "apart d pw \<longleftrightarrow> \<not> own_name d pw \<and> \<not> own_name d (pw @ ''.bak'')"

lemma apart_own: "apart d pw \<Longrightarrow> own_name d p \<Longrightarrow> p \<noteq> pw \<and> p \<noteq> pw @ ''.bak''"
  by (auto simp: apart_def)

text \<open>\<open>ls\<close> and \<open>ts\<close> are what the names of the lock and of the temporary file may be, \<open>cs\<close> the settings.\<close>

definition kept :: "bool \<Rightarrow> string \<Rightarrow> string \<Rightarrow> nat \<Rightarrow> string \<Rightarrow> string option set \<Rightarrow> string option set \<Rightarrow> config set \<Rightarrow>
    world \<Rightarrow> string option \<Rightarrow> string option \<Rightarrow> config \<Rightarrow> bool \<Rightarrow> bool" where
  "kept m d pw i old ls ts cs w l t c b \<longleftrightarrow> apart d pw \<and> (\<forall>p. Some p \<in> ls \<union> ts \<longrightarrow> own_name d p)
     \<and> intact m pw i old w \<and> l \<in> ls \<and> t \<in> ts \<and> c \<in> cs"

lemma keeps_kept: "keeps (intact m pw i old) g \<Longrightarrow> keeps (\<lambda>w. kept m d pw i old ls ts cs w l t c b) g"
  by (auto simp: keeps_def kept_def)

interpretation kept: frame_guards "kept m d pw i old ls ts cs" for m d pw i old ls ts cs
proof
  let ?K = "kept m d pw i old ls ts cs"
  show "?K (emit e w) l t c b" if "?K w l t c b" for e w l t c b
    using that by (auto simp: kept_def emit_def intro: intact_same)
  have own: "p \<noteq> pw \<and> p \<noteq> pw @ ''.bak''" if "?K w l t c b" "Some p \<in> ls \<union> ts" for w l t c b p
    using that apart_own [of d pw p] by (auto simp: kept_def)
  show "keeps (\<lambda>w. ?K w (Some p) t c b) (unlink p)" for p t c b
    using intact_unlink_call [of p pw m i old] own [of _ "Some p" t c _ p]
    by (auto simp: keeps_def kept_def)
  show "keeps (\<lambda>w. ?K w l (Some p) c b) (unlink p)" for p l c b
    using intact_unlink_call [of p pw m i old] own [of _ l "Some p" c _ p]
    by (auto simp: keeps_def kept_def)
  show "?K w' (Some p) t c b \<and> (\<forall>fd x. r = Inr fd \<longrightarrow> keeps (\<lambda>w. ?K w (Some p) t c b) (write_fd fd x))"
    if "?K w (Some p) t c b" "fopen_w p w = (r, w')" for w p t c b r w'
  proof -
    have "intact m pw i old w' \<and> r \<noteq> Inr i"
      using that own [OF that(1), of p] by (intro intact_opened [OF _ _ _ that(2)]) (auto simp: kept_def)
    then show ?thesis using that(1) by (auto simp: kept_def [of m d pw i old ls ts cs w'] kept_def [of m d pw i old ls ts cs w]
        intro!: keeps_kept intact_write)
  qed
  show "?K w l t c b \<Longrightarrow> ?K w l t c b'" for w l t c b b' by (simp add: kept_def)
qed (simp_all add: keeps_kept intact_calls)

lemma kept_mono:
  "kept m d pw i old ls ts cs w l t c b \<Longrightarrow> l \<in> ls' \<Longrightarrow> t \<in> ts' \<Longrightarrow> c \<in> cs' \<Longrightarrow>
   \<forall>p. Some p \<in> ls' \<union> ts' \<longrightarrow> own_name d p \<Longrightarrow> kept m d pw i old ls' ts' cs' w l t c b"
  by (simp add: kept_def)

lemma kept_moved: "kept False d pw i old ls ts cs w l t c b \<Longrightarrow> kept m d pw i old ls ts cs w l t c b"
  using intact_moved by (auto simp: kept_def)

lemma tame_kept: "tame (intact m pw i old) L \<Longrightarrow> tame (\<lambda>w. kept m d pw i old ls ts cs w l t c b) L"
  by (auto simp: tame_def kept_def keeps_def)

section \<open>The exchange\<close>

lemma move_aside_keeps:
  assumes "framed (kept False d pw i old ls ts cs) s"
  shows "wp (move_aside pw True) (\<lambda>r. framed (kept True d pw i old ls ts cs)) s"
proof -
  let ?F = "framed (kept False d pw i old ls ts cs)" and ?T = "framed (kept True d pw i old ls ts cs)"
  let ?linked = "\<lambda>r s. ?F s \<and> (r = Inr () \<longrightarrow> dir (os s) (pw @ ''.bak'') = Some i)"
  have t: "?F s \<Longrightarrow> ?T s" for s :: "'a mdp" by (rule kept_moved)
  have unlink_bak: "keeps (\<lambda>w. kept False d pw i old ls ts cs w l t c b) (unlink (pw @ ''.bak''))" for l t c b
    by (intro keeps_kept intact_unlink_call) simp_all
  have link: "wp (sys_or h (link pw (pw @ ''.bak''))) ?linked s" if "?F s" for h and s :: "'a mdp"
    using that intact_backup [of pw i old "os s"] by (intro wp_sys_or) (fastforce simp: kept_def)+
  have unlink_pw: "wp (sys_or h (unlink pw)) (\<lambda>r. ?T) s"
    if "?F s" "dir (os s) (pw @ ''.bak'') = Some i" for h and s :: "'a mdp"
    using that intact_aside [of pw i old "os s"] by (intro wp_sys_or) (auto simp: kept_def)
  show ?thesis
    unfolding move_aside_def if_True
  proof (rule wp_seq [where R = ?linked])
    show "wp (bnd (debug ''gpg_encrypt backup: %s'' [ArgS (pw @ ''.bak'')]) (\<lambda>_.
       bnd (sys (unlink (pw @ ''.bak''))) (\<lambda>r.
       bnd (case r of
              Inl e \<Rightarrow> if e \<noteq> ENOENT then stop (Err ''gpg_encrypt backup unlink'' []) else ret ()
            | Inr _ \<Rightarrow> ret ()) (\<lambda>_.
       sys_or (Err ''gpg_encrypt backup link'' []) (link pw (pw @ ''.bak'')))))) ?linked s"
      by (rule wp_keeps [where P = ?F] | rule kept.debug_inv assms framed_sys unlink_bak link act_inv_intros | assumption | (simp; fail))+
  qed (use t unlink_pw in auto)
qed

lemma swap_in_keeps:
  assumes "framed (kept False d pw i old ls ts {k}) s" "cfg_backup k" "own_name d encrypted"
  shows "wp (swap_in ok encrypted pw) (\<lambda>r. framed (kept True d pw i old ls ts {k})) s"
proof -
  let ?F = "framed (kept False d pw i old ls ts {k})" and ?T = "framed (kept True d pw i old ls ts {k})"
  have t: "?F s \<Longrightarrow> ?T s" for s :: "'a mdp" by (rule kept_moved)
  have "encrypted \<noteq> pw \<and> encrypted \<noteq> pw @ ''.bak''"
    using assms(1,3) apart_own [of d pw encrypted] by (auto simp: kept_def)
  then have place: "act_inv ?T (put_in_place encrypted pw :: ('a mdp, unit) act)"
    unfolding put_in_place_def by (intro act_inv_intros keeps_kept intact_link_call intact_calls intact_unlink_call) simp_all
  have aside: "wp (if b then bnd (gets (\<lambda>s. cfg_backup (cfg (conf s)))) (\<lambda>backup. move_aside pw backup) else ret ())
      (\<lambda>r. ?T) s" if "?F s" for b and s :: "'a mdp"
  proof -
    have "cfg_backup (cfg (conf s))" using that assms(2) by (simp add: kept_def)
    then show ?thesis using that t move_aside_keeps [of d pw i old ls ts "{k}"]
      by (auto intro!: wp_gets_then wp_ret)
  qed
  show ?thesis
    unfolding swap_in_def
  proof (rule wp_keeps [where P = ?F, OF kept.file_exists_inv assms(1)])
    show "wp (bnd (if b then bnd (gets (\<lambda>s. cfg_backup (cfg (conf s)))) (\<lambda>backup. move_aside pw backup) else ret ())
        (\<lambda>_. bnd (lift (formatted ok encrypted)) (\<lambda>x. put_in_place x pw))) (\<lambda>r. ?T) s" if "?F s" for b and s :: "'a mdp"
      by (rule wp_seq [OF aside [OF that]], assumption, rule wp_formatted_then, assumption)
        (use place in \<open>auto simp: act_inv_def wp_def split: prod.split\<close>)
  qed (rule t)
qed

lemma gpg_encrypt_keeps:
  assumes "framed (kept False d pw i old ls ts {k}) s" "cfg_backup k" "cfg_password_file k = Some pw"
    and "own_name d (tmp @ ''.gpg'')" "tame (intact False pw i old) L"
  shows "wp (gpg_encrypt L tmp) (\<lambda>r. framed (kept True d pw i old ls ts {k})) s"
proof -
  let ?F = "framed (kept False d pw i old ls ts {k})" and ?T = "framed (kept True d pw i old ls ts {k})"
  have swap: "wp (bnd (bnd (gets password_file) str_of) (\<lambda>pw'.
      bnd (lift (formatted (lib_ok L) (pw' @ ''.bak''))) (\<lambda>_. swap_in (lib_ok L) (tmp @ ''.gpg'') pw'))) (\<lambda>r. ?T) s"
    if "?F s" for s :: "'a mdp"
    using that assms(3) kept_moved [OF that]
    by (intro wp_str_then [where x = pw] wp_formatted_then swap_in_keeps assms(2,4)) (simp_all add: kept_def password_file_def)
  show ?thesis
    unfolding gpg_encrypt_def Let_def
    by (rule swap wp_keeps [where P = ?F] assms(1) framed_run tame_kept assms(5) act_inv_intros wp_if wp_stop
        | assumption | erule kept_moved)+
qed

section \<open>The edit cycle\<close>

definition own_names :: "string \<Rightarrow> string option set" where
  "own_names d = {t. \<forall>p. t = Some p \<longrightarrow> own_name d p}"

text \<open>What is kept with particular names is kept with any of the program's own.\<close>

lemma kept_forget:
  assumes "kept m d pw i old ls ts cs w l t c b"
  shows "kept m d pw i old ls (own_names d) cs w l t c b" "kept m d pw i old (own_names d) (own_names d) UNIV w l t c b"
  using assms by (auto simp: kept_def own_names_def)

definition template :: "string \<Rightarrow> string" where
  "template d = in_dir d ''tmp_edit.XXXXXXXX''"

lemma template_names:
  "own_name d (template d)" "own_name d (take (length (template d) - 8) (template d) @ x)"
  by (auto simp: own_name_def template_def in_dir_def)

lemma wp_act_inv: "act_inv P m \<Longrightarrow> P s \<Longrightarrow> (\<And>r s. P s \<Longrightarrow> Q r s) \<Longrightarrow> wp m Q s"
  by (auto simp: act_inv_def wp_def split: prod.split dest: spec [of _ s])

lemma edit_results_keeps:
  assumes "framed (kept False d pw i old ls {Some (template d)} {k}) s" "cfg_backup k" "cfg_password_file k = Some pw"
    and "tame (intact False pw i old) L"
  shows "wp (edit_results L) (\<lambda>r. framed (kept True d pw i old ls (own_names d) {k})) s"
proof -
  let ?F = "framed (kept False d pw i old ls (own_names d) {k})"
    and ?T = "framed (kept True d pw i old ls (own_names d) {k})"
    and ?rest = "\<lambda>(tmp_fd, path).
      bnd (modify (\<lambda>s. s\<lparr>editor_tmp_path := Some path\<rparr>)) (\<lambda>_.
      bnd (bnd (gets results) (\<lambda>rs. lift (all_items rs))) (\<lambda>items.
      bnd (dump_loop tmp_fd items) (\<lambda>_.
      bnd (sys_or (Err ''edit_results close(tmp_fd)'' []) (close_fd tmp_fd)) (\<lambda>_.
      bnd (spawn_editor L path) (\<lambda>_.
      bnd (has_changed L path) (\<lambda>b.
      if b then gpg_encrypt L path
      else print (Warning ''No changes, exiting...'' [])))))))"
  note f = assms(1) [unfolded kept_def]
  have dump: "act_inv ?F (dump_loop fd rs :: ('a mdp, unit) act)" if "fd \<noteq> i" for fd rs
    using that by (induction rs) (auto intro!: act_inv_intros keeps_kept intact_write)
  have rest: "wp (?rest (fd, path)) (\<lambda>r. ?T) s1"
    if "?F s1" "fd \<noteq> i" "own_name d path" "own_name d (path @ ''.gpg'')" for fd path s1
  proof -
    have "?F (s1\<lparr>editor_tmp_path := Some path\<rparr>)"
      using that(1,3) by (auto simp: kept_def own_names_def)
    then show ?thesis
      unfolding prod.case
      by - (rule wp_modify_then wp_keeps [where P = ?F] gpg_encrypt_keeps assms(2-4) that(4) dump that(2) framed_sys_or
          kept.frame_close kept.spawn_editor_inv kept.has_changed_inv tame_kept wp_act_inv [where P = ?F] kept.print_inv
          act_inv_intros wp_if | assumption | erule kept_moved)+
  qed
  show ?thesis
    unfolding edit_results_def
  proof (rule wp_str_then [where x = "template d"])
    show "editor_tmp_path s = Some (template d)" using f by auto
    show "wp (bnd (sys_or (Err ''edit_results mkstemp()'' []) (mkstemp (template d))) ?rest) (\<lambda>r. ?T) s"
    proof (rule wp_sys_or_then)
      fix e w assume "mkstemp (template d) (os s) = (Inl e, w)"
      from intact_mkstemp [OF _ this, of False pw i old] f
      have "?F (s\<lparr>os := w\<rparr>)" by (auto simp: kept_def own_names_def)
      then show "?T (s\<lparr>os := w\<rparr>)" by (rule kept_moved)
    next
      fix x w assume m: "mkstemp (template d) (os s) = (Inr x, w)"
      obtain fd path where x: "x = (fd, path)" by fastforce
      have k: "intact False pw i old w" "fd \<noteq> i" "\<exists>y. path = take (length (template d) - 8) (template d) @ y"
        using intact_mkstemp [OF _ m, of False pw i old] f x by auto
      then have "own_name d path" "own_name d (path @ ''.gpg'')" using template_names(2) [of d] by auto
      moreover have "?F (s\<lparr>os := w\<rparr>)" using f k(1) by (auto simp: kept_def own_names_def)
      ultimately show "wp (?rest x) (\<lambda>r. ?T) (s\<lparr>os := w\<rparr>)" unfolding x using k(2) by (intro rest)
    qed
  qed
qed

section \<open>The configuration\<close>

lemma do_set_defaults_names:
  assumes "framed (kept False d pw i old A {t} UNIV) s"
  shows "wp (do_set_defaults L d) (\<lambda>r s. framed (kept False d pw i old (insert (Some (in_dir d ''lock'')) A) {t} UNIV) s
    \<and> (r = Inr () \<longrightarrow> lock_path s = Some (in_dir d ''lock''))) s"
proof -
  let ?P = "framed (kept False d pw i old A {t} UNIV)"
    and ?R = "framed (kept False d pw i old (insert (Some (in_dir d ''lock'')) A) {t} UNIV)"
  have lock: "own_name d (in_dir d ''lock'')" by (simp add: own_name_def)
  have stays: "?R s" if "?P s" for s :: "'a mdp" using that lock by (auto simp: kept_def)
  have set: "?P (s\<lparr>conf := (conf s)\<lparr>cfg := c\<rparr>\<rparr>)" if "?P s" for c and s :: "'a mdp"
    using that by (simp add: kept_def)
  have last: "wp (bnd (lift (join_path (lib_ok L) d ''lock'')) (\<lambda>lock. modify (\<lambda>s. s\<lparr>lock_path := Some lock\<rparr>)))
      (\<lambda>r s. ?R s \<and> (r = Inr () \<longrightarrow> lock_path s = Some (in_dir d ''lock''))) s" if "?P s" for s :: "'a mdp"
    using stays [OF that] lock that by (intro wp_join_path_then wp_modify) (auto simp: kept_def)
  have warn: "act_inv ?P (if b then print e else ret () :: ('a mdp, unit) act)" for b e
    by (rule act_inv_if [OF kept.print_inv act_inv_ret])
  have defaults: "act_inv ?P (bnd (gets f) lift :: ('a mdp, 'x) act)" for f
    by (intro act_inv_intros)
  show ?thesis
    unfolding do_set_defaults_def split_def
    by (rule wp_keeps [where P = ?P, OF defaults assms], simp add: stays,
      rule wp_modify_then, rule wp_keeps [where P = ?P, OF warn], erule set, simp add: stays, erule last)
qed

text \<open>The names after \<open>read_config\<close>, and wherever it stopped.\<close>

lemma read_config_keeps:
  fixes L :: "('r, 'p) lib" and s :: "'r mdp"
  assumes "framed (kept False d pw i old {None} {None} UNIV) s" "environ (os s) ''HOME'' = Some h"
    and "d = in_dir h ''.mdp''"
  shows "wp (read_config L) (\<lambda>r s. framed (kept False d pw i old (own_names d) (own_names d) UNIV) s
    \<and> (r = Inr () \<longrightarrow> lock_path s = Some (in_dir d ''lock'') \<and> editor_tmp_path s = Some (template d))) s"
proof -
  let ?A = "framed (kept False d pw i old {None} {None} UNIV)"
    and ?B = "framed (kept False d pw i old {None} {Some (template d)} UNIV)"
    and ?C = "framed (kept False d pw i old {Some (in_dir d ''lock''), None} {Some (template d)} UNIV)"
    and ?D = "framed (kept False d pw i old {Some (in_dir d ''lock'')} {Some (template d)} UNIV)"
    and ?W = "framed (kept False d pw i old (own_names d) (own_names d) UNIV)"
  let ?Q = "\<lambda>r s. ?W s \<and> (r = Inr () \<longrightarrow> lock_path s = Some (in_dir d ''lock'') \<and> editor_tmp_path s = Some (template d))"
  have own: "own_name d (template d)" "own_name d (in_dir d ''lock'')"
    using template_names(1) by (simp_all add: own_name_def)
  have weak: "?A s \<Longrightarrow> ?W s" "?B s \<Longrightarrow> ?W s" "?C s \<Longrightarrow> ?W s" "?D s \<Longrightarrow> ?W s" for s :: "'r mdp"
    by (erule kept_forget(2))+
  have read: "act_inv ?B (do_config_read L p :: ('r mdp, unit) act)" for p
    unfolding do_config_read_def by (intro act_inv_intros kept.frame_calls act_inv_modify) (simp add: kept_def)
  have fine: "?Q r s" if "?D s" for r and s :: "'r mdp"
    using weak(4) [OF that] that by (simp add: kept_def)
  have stopped: "?Q (Inl h) s" if "?W s" for h and s :: "'r mdp" using that by simp
  have init: "wp (bnd (editor_init L d) g) ?Q s" if "?A s" "\<And>s. ?B s \<Longrightarrow> wp (g ()) ?Q s" for g and s :: "'r mdp"
  proof (rule wp_seq [where R = "\<lambda>r s. if \<exists>h. r = Inl h then ?W s else ?B s"])
    have b: "?B (s\<lparr>editor_tmp_path := Some (template d)\<rparr>)" using that(1) own by (auto simp: kept_def)
    have e: "?B (s\<lparr>editor_tmp_path := Some (template d), conf := (conf s)\<lparr>cfg := c\<rparr>\<rparr>)" for c
      using b by (simp add: kept_def)
    show "wp (editor_init L d) (\<lambda>r s. if \<exists>h. r = Inl h then ?W s else ?B s) s"
      unfolding editor_init_def
      by (rule wp_join_path_then, simp add: weak(1) [OF that(1)], fold template_def, rule wp_modify_then, rule wp_gets_then)
        (use b e weak(2) in \<open>auto simp: wp_def modify_def ret_def split: option.split\<close>)
  qed (use weak(2) that(2) in auto)
  have defaults: "wp (bnd (do_set_defaults L d) g) ?Q s" if "?B s" "\<And>s. ?D s \<Longrightarrow> wp (g ()) ?Q s" for g and s :: "'r mdp"
  proof (rule wp_seq [OF do_set_defaults_names [OF that(1)]])
    show "wp (g x) ?Q s" if "?C s \<and> (Inr x = Inr () \<longrightarrow> lock_path s = Some (in_dir d ''lock''))" for x :: unit and s :: "'r mdp"
    proof -
      have "?D s" using that by (auto simp: kept_def)
      then show ?thesis using \<open>\<And>s. ?D s \<Longrightarrow> wp (g ()) ?Q s\<close> by simp
    qed
  qed (use weak(3) in auto)
  have tail: "wp (bnd (bnd (lift (xdirname (lib_ok L) pw')) str_of) (\<lambda>password_dir.
      bnd (config_ensure_directory password_dir) (\<lambda>_. config_check_password_file pw'))) ?Q s" if "?D s" for pw' and s :: "'r mdp"
    by (rule wp_keeps [where P = ?D] wp_act_inv [where P = ?D] act_inv_intros kept.config_ensure_directory_inv
        kept.config_check_password_file_inv that | (rule fine, assumption) | assumption)+
  have head: "wp (bnd (config_ensure_directory d) g) ?Q s" if "?A s" "\<And>s. ?A s \<Longrightarrow> wp (g ()) ?Q s" for g and s :: "'r mdp"
    by (rule wp_keeps [where P = ?A, OF kept.config_ensure_directory_inv that(1)], rule stopped, erule weak(1), simp add: that(2))
  have mid: "wp (bnd m g) ?Q s" if "act_inv ?B m" "?B s" "\<And>x s. ?B s \<Longrightarrow> wp (g x) ?Q s" for m :: "('r mdp, 'x) act" and g s
    by (rule wp_keeps [where P = ?B, OF that(1,2)]) (rule stopped, erule weak(2), erule that(3))
  have config: "wp (bnd (bnd (gets password_file) str_of) g) ?Q s" if "?D s" "\<And>x s. ?D s \<Longrightarrow> wp (g x) ?Q s" for g and s :: "'r mdp"
    by (rule wp_keeps [where P = ?D, OF _ that(1)], intro act_inv_intros, erule fine, erule that(2))
  show ?thesis
    unfolding read_config_def Let_def
  proof (rule kept.home_then [OF assms(1)])
    fix h' and s' :: "'r mdp" assume a: "?A s'" "environ (os s) ''HOME'' = Some h'"
    then have d: "in_dir h' ''.mdp'' = d" using assms(2,3) by simp
    show "wp (bnd (lift (join_path (lib_ok L) h' ''.mdp'')) (\<lambda>config_dir.
      bnd (config_ensure_directory config_dir) (\<lambda>_.
      bnd (editor_init L config_dir) (\<lambda>_.
      bnd (gets (\<lambda>s. cmd_config_path (opts s))) (\<lambda>c.
      bnd (lift (case c of None \<Rightarrow> join_path (lib_ok L) config_dir ''config'' | Some p \<Rightarrow> Inr p)) (\<lambda>path.
      bnd (set_opts (\<lambda>o'. o'\<lparr>cmd_config_path := Some path\<rparr>)) (\<lambda>_.
      bnd (config_check_file path) (\<lambda>_.
      bnd (do_config_read L path) (\<lambda>_.
      bnd (do_set_defaults L config_dir) (\<lambda>_.
      bnd (bnd (gets password_file) str_of) (\<lambda>pw.
      bnd (bnd (lift (xdirname (lib_ok L) pw)) str_of) (\<lambda>password_dir.
      bnd (config_ensure_directory password_dir) (\<lambda>_.
      config_check_password_file pw))))))))))))) ?Q s'"
      using a(1)
      by (intro wp_join_path_then, simp add: weak(1), unfold d) (intro head init defaults tail config mid read act_inv_intros kept.set_opts_inv
          kept.config_check_file_inv)
  qed (use weak(1) in auto)
qed

section \<open>The commands\<close>

lemma run_command_keeps:
  fixes L :: "('r, 'p) lib" and s :: "'r mdp"
  assumes "framed (kept False d pw i old {Some (in_dir d ''lock'')} {Some (template d)} {k}) s"
    and "cfg_backup k" "cfg_password_file k = Some pw" "tame (intact False pw i old) L"
  shows "wp (run_command L c args) (\<lambda>r. framed (kept True d pw i old {Some (in_dir d ''lock'')} (own_names d) {k})) s"
proof -
  let ?F = "framed (kept False d pw i old {Some (in_dir d ''lock'')} {Some (template d)} {k})"
    and ?T = "framed (kept True d pw i old {Some (in_dir d ''lock'')} (own_names d) {k})"
  have t: "?T s" if "?F s" for s :: "'r mdp"
    by (rule kept_moved [OF kept_forget(1) [OF that]])
  have run: "wp (bnd m g) (\<lambda>r. ?T) s" if "act_inv ?F m" "?F s" "\<And>x s. ?F s \<Longrightarrow> wp (g x) (\<lambda>r. ?T) s"
    for m :: "('r mdp, 'x) act" and g s
    by (rule wp_keeps [where P = ?F, OF that(1,2)], erule t, erule that(3))
  have edit: "wp (edit_results L) (\<lambda>r. ?T) s" if "?F s" for s
    using that assms(2-4) by (rule edit_results_keeps)
  have whole: "wp m (\<lambda>r. ?T) s" if "act_inv ?F m" "?F s" for m :: "('r mdp, 'x) act" and s
    by (rule wp_act_inv [where P = ?F, OF that], erule t)
  note tame = tame_kept [OF assms(4)]
  note steps = kept.debug_inv kept.chosen_profile_inv kept.gpg_check_inv kept.lock_set_inv kept.setup_inv
    kept.load_results_gpg_inv kept.add_passwords_inv
  have add: "wp (mdp_add L) (\<lambda>r. ?T) s" if "?F s" for s
    unfolding mdp_add_def by (intro run edit steps tame that; assumption)
  have edits: "wp (mdp_edit L) (\<lambda>r. ?T) s" if "?F s" for s
    unfolding mdp_edit_def by (intro run edit steps tame that; assumption)
  show ?thesis
    using assms(1) unfolding run_command_def
    by (cases c; simp only: command.case)
      (intro run add edits whole kept.parse_inv kept.queries_inv kept.mdp_generate_inv tame; assumption)+
qed

text \<open>The commands do not change the settings.\<close>

interpretation settings: frame_guards "\<lambda>w l t c b. c = k" for k
  by unfold_locales (simp_all add: keeps_def)

lemma settings_edit: "act_inv (framed (\<lambda>w l t c b. c = k)) (edit_results L)"
proof -
  have any: "keeps (\<lambda>w. b) g" for b and g :: "world \<Rightarrow> 'x \<times> world" by (simp add: keeps_def)
  have dump: "act_inv (framed (\<lambda>w l t c b. c = k)) (dump_loop fd rs :: ('a mdp, unit) act)" for fd rs
    by (induction rs) (auto intro!: act_inv_intros any)
  have encrypt: "act_inv (framed (\<lambda>w l t c b. c = k)) (gpg_encrypt L tmp :: ('a mdp, unit) act)" for tmp
    unfolding gpg_encrypt_def swap_in_def move_aside_def put_in_place_def Let_def
    by (intro act_inv_intros any any_tame)
  show ?thesis
    unfolding edit_results_def by (intro dump encrypt act_inv_intros any any_tame act_inv_modify) simp
qed

lemma settings_command: "act_inv (framed (\<lambda>w l t c b. c = k)) (run_command L c args)"
  unfolding run_command_def mdp_add_def mdp_edit_def
  by (cases c; simp only: command.case) (intro settings_edit act_inv_intros any_tame)+

section \<open>Whole runs\<close>

interpretation env: frame_checks "\<lambda>w l t c b. environ w x = y" for x y
  by unfold_locales (auto simp: keeps_def emit_def stat_def mkdir_def fopen_r_def simple_call_def syscall_def next_fault_def create_def
      split: list.split option.split)

lemma act_inv_conj: "act_inv P m \<Longrightarrow> act_inv Q m \<Longrightarrow> act_inv (\<lambda>s. P s \<and> Q s) m"
  by (simp add: act_inv_def)

text \<open>What a run guarantees when the settings ask for backups of \<open>pw\<close>.\<close>

definition saved :: "string \<Rightarrow> string \<Rightarrow> nat \<Rightarrow> string \<Rightarrow> world \<Rightarrow> string option \<Rightarrow> string option \<Rightarrow> config \<Rightarrow> bool \<Rightarrow> bool" where
  "saved d pw i old w l t c b \<longleftrightarrow> (cfg_backup c \<longrightarrow> cfg_password_file c = Some pw \<longrightarrow>
     kept True d pw i old (own_names d) (own_names d) UNIV w l t c b)"

interpretation saved: frame_guards "saved d pw i old" for d pw i old
proof
  have imp: "keeps (\<lambda>w. a \<longrightarrow> b \<longrightarrow> R w) g" if "keeps R g" for a b R and g :: "world \<Rightarrow> 'x \<times> world"
    using that by (simp add: keeps_def)
  fix w w' :: world and l t c b b' e p m r x
  note k = kept.frame_calls kept.frame_read kept.frame_unlock kept.frame_forget
  show "saved d pw i old w l t c b \<Longrightarrow> saved d pw i old (emit e w) l t c b"
    by (simp add: saved_def kept.frame_emit)
  show "saved d pw i old w l t c b \<Longrightarrow> saved d pw i old w l t c b'"
    by (simp add: saved_def kept_def)
  show "saved d pw i old w (Some p) t c b \<Longrightarrow> fopen_w p w = (r, w') \<Longrightarrow> saved d pw i old w' (Some p) t c b
      \<and> (\<forall>fd x. r = Inr fd \<longrightarrow> keeps (\<lambda>w. saved d pw i old w (Some p) t c b) (write_fd fd x))"
    unfolding saved_def using kept.frame_create [of True d pw i old "own_names d" "own_names d" UNIV w p t c b r w']
    by (cases "cfg_backup c \<and> cfg_password_file c = Some pw") (auto simp: keeps_def)
qed (unfold saved_def, (rule kept.frame_calls kept.frame_read kept.frame_unlock kept.frame_forget
      | simp add: keeps_def, metis kept.frame_calls kept.frame_read kept.frame_unlock kept.frame_forget keeps_def)+)

lemma run_command_saves:
  assumes "framed (kept False d pw i old (own_names d) (own_names d) UNIV) s"
    and "lock_path s = Some (in_dir d ''lock'')" "editor_tmp_path s = Some (template d)"
    and "tame (intact False pw i old) L"
  shows "wp (run_command L c args) (\<lambda>r. framed (saved d pw i old)) s"
proof -
  obtain r s' where m: "run_command L c args s = (r, s')" by fastforce
  let ?k = "cfg (conf s)"
  have k: "cfg (conf s') = ?k" using settings_command [of ?k, unfolded act_inv_def, rule_format, of s] m by (metis snd_conv)
  have "framed (kept False d pw i old {Some (in_dir d ''lock'')} {Some (template d)} {?k}) s"
    using assms(1-3) template_names(1) by (auto simp: kept_def own_name_def)
  from run_command_keeps [OF this _ _ assms(4), of c args] have "cfg_backup ?k \<Longrightarrow> cfg_password_file ?k = Some pw \<Longrightarrow>
      framed (kept True d pw i old {Some (in_dir d ''lock'')} (own_names d) {?k}) s'"
    using m by (simp add: wp_def)
  then have "framed (saved d pw i old) s'" unfolding saved_def k by (auto simp: kept_def own_names_def)
  then show ?thesis using m by (simp add: wp_def)
qed

lemma main_saves:
  fixes L :: "('r, 'p) lib"
  assumes "environ w ''HOME'' = Some h" "d = in_dir h ''.mdp''" "apart d pw"
    and "intact False pw i old w" "tame (intact False pw i old) L"
  shows "wp (mdp_main L args) (\<lambda>r. framed (saved d pw i old)) (initial_state w g keys ls)"
proof -
  let ?P = "\<lambda>s :: 'r mdp. framed (kept False d pw i old {None} {None} UNIV) s \<and> environ (os s) ''HOME'' = Some h"
    and ?W = "framed (kept False d pw i old (own_names d) (own_names d) UNIV)"
    and ?J = "framed (saved d pw i old) :: 'r mdp \<Rightarrow> bool"
  have start: "?P (initial_state w g keys ls)" using assms(1,3,4) by (simp add: kept_def initial_state_def)
  have weak: "?P s \<Longrightarrow> ?W s" for s by (rule kept_forget(2), erule conjunct1)
  have save: "?W s \<Longrightarrow> ?J s" for s by (auto simp: saved_def intro: kept_moved)
  have early: "wp (bnd m g) (\<lambda>r. ?J) s" if "act_inv ?P m" "?P s" "\<And>x s. ?P s \<Longrightarrow> wp (g x) (\<lambda>r. ?J) s"
    for m :: "('r mdp, 'x) act" and g s
    by (rule wp_keeps [where P = ?P, OF that(1,2)]) (use weak save that(3) in auto)
  have read: "wp (bnd (read_config L) g) (\<lambda>r. ?J) s"
    if "?P s" "\<And>s. ?W s \<Longrightarrow> lock_path s = Some (in_dir d ''lock'') \<Longrightarrow> editor_tmp_path s = Some (template d) \<Longrightarrow>
      wp (g ()) (\<lambda>r. ?J) s" for g and s :: "'r mdp"
    by (rule wp_seq [OF read_config_keeps [of d pw i old s h]]) (use that assms(2) save in auto)
  have command: "wp (bnd (lift (which_command a)) (\<lambda>c. bnd (run_command L c as) (\<lambda>_. bnd (debug ''normal shutdown'' []) (\<lambda>_. ret x)))) (\<lambda>r. ?J) s"
    if "?W s" "lock_path s = Some (in_dir d ''lock'')" "editor_tmp_path s = Some (template d)"
    for a as x and s :: "'r mdp"
  proof (rule wp_seq [where R = "\<lambda>r s'. s' = s"])
    fix c s' assume "s' = s"
    show "wp (bnd (run_command L c as) (\<lambda>_. bnd (debug ''normal shutdown'' []) (\<lambda>_. ret x))) (\<lambda>r. ?J) s'"
      unfolding \<open>s' = s\<close>
      by (rule wp_seq [OF run_command_saves [OF that assms(5)]])
        (auto intro!: wp_act_inv [where P = ?J] act_inv_bnd saved.debug_inv act_inv_ret)
  qed (use save [OF that(1)] in \<open>simp_all add: wp_def lift_def\<close>)
  show ?thesis
    unfolding mdp_main_def
    by (assumption | rule start command read early act_inv_conj kept.parse_inv kept.print_inv kept.cmd_usage_core_inv
        env.parse_inv env.print_inv env.cmd_usage_core_inv act_inv_intros wp_if wp_stop save weak)+
qed

text \<open>C3. In every run with backups the old password file survives: whatever the arguments and the input,
  whichever calls fail, and at whichever call the process is killed, it is at the end under its name or
  under the backup's.\<close>

theorem old_file_survives:
  assumes "environ w ''HOME'' = Some h" "apart (in_dir h ''.mdp'') pw"
    and "intact False pw i old w" "tame (intact False pw i old) L"
    and "run_mdp L args (initial_state w g keys ls) = (oc, s')"
    and "cfg_backup (cfg (conf s'))" "cfg_password_file (cfg (conf s')) = Some pw"
  shows "file_text (os s') pw = Some old \<or> file_text (os s') (pw @ ''.bak'') = Some old"
proof -
  let ?m = "mdp_main L args (initial_state w g keys ls)"
  have "framed (saved (in_dir h ''.mdp'') pw i old) (snd ?m)"
    using main_saves [OF assms(1) refl assms(2-4), of args g keys ls] by (simp add: wp_def split: prod.splits)
  from saved.finish_inv [OF this] have "framed (saved (in_dir h ''.mdp'') pw i old) s'"
    using assms(5) by (simp add: run_mdp_def)
  then show ?thesis using assms(6,7) intact_text [of True pw i old "os s'"] by (auto simp: saved_def kept_def)
qed

text \<open>The settings of a run are those of the configuration.\<close>

lemma edit_run_settings:
  assumes "locale_found L" "read_config L s0 = (Inr (), s)"
  shows "cfg (conf (snd (run_mdp L [''edit''] s0))) = cfg (conf s)"
proof -
  let ?rest = "bnd (run_command L Edit []) (\<lambda>_. bnd (debug ''normal shutdown'' []) (\<lambda>_. ret exit_success))"
  have "mdp_main L [''edit''] s0 = ?rest s"
    using assms by (simp add: mdp_main_def cmd_parse_core_def which_command_def command_match_def Let_def ebind_simps calls)
  moreover have "act_inv (framed (\<lambda>w l t c b. c = cfg (conf s))) ?rest"
    by (intro settings_command settings.debug_inv act_inv_intros)
  ultimately show ?thesis
    using settings.finish_inv [of "?rest s" "cfg (conf s)"] by (simp add: act_inv_def run_mdp_def)
qed

lemma intact_replace: "intact m pw i old w \<Longrightarrow> p \<noteq> pw \<Longrightarrow> (m \<Longrightarrow> p \<noteq> pw @ ''.bak'') \<Longrightarrow> intact m pw i old (create p n w)"
  using intact_fresh [of m pw i old w] create_inv [of w p n] by (auto simp: intact_def create_def)

theorem old_file_survives_witness:
  "\<exists>oc s'. run_mdp (demo_lib home_tools (\<lambda>f args t w. Some (file_of [''ab''], Exited 0, w))) [''edit''] home_start = (oc, s')
    \<and> (file_text (os s') ''/h/.mdp/passwords'' = Some ''OLD'' \<or> file_text (os s') ''/h/.mdp/passwords.bak'' = Some ''OLD'')"
proof -
  let ?L = "demo_lib home_tools (\<lambda>f args t w. Some (file_of [''ab''], Exited 0, w))" and ?pw = "''/h/.mdp/passwords''"
  obtain oc s' where r: "run_mdp ?L [''edit''] home_start = (oc, s')" by fastforce
  have "cfg (conf s') = cfg (conf home_ready)"
    using edit_run_settings [of ?L, OF _ home_read_config] r by (simp add: demo_lib_def)
  then have c: "cfg_backup (cfg (conf s'))" "cfg_password_file (cfg (conf s')) = Some ?pw"
    by (simp_all add: home_ready_def home_config_def config_initial_def)
  have a: "apart (in_dir ''/h'' ''.mdp'') ?pw"
    by (simp add: apart_def own_name_def in_dir_def)
  have n: "dir (demo_world home_files) p = Some 3 \<Longrightarrow> p = ?pw" for p
    by (simp add: demo_world_def home_files_def split: if_splits)
  have d: "dir (demo_world home_files) ?pw = Some 3" "map_option contents (node (demo_world home_files) 3) = Some ''OLD''"
    by (simp_all add: demo_world_def home_files_def regular_def)
  have i: "intact False ?pw 3 ''OLD'' (demo_world home_files)"
    unfolding intact_def using demo_world_inv [of home_files] d n by blast
  have t: "tame (intact False ?pw 3 ''OLD'') ?L"
  proof -
    have "intact False ?pw 3 ''OLD'' (create ''/h/.mdp/tmp_edit.aaaaaaaa'' n w)" "intact False ?pw 3 ''OLD'' (mark_file w)"
      if "intact False ?pw 3 ''OLD'' w" for n w
      unfolding mark_file_def by (rule intact_replace [OF that], simp, simp)+
    then show ?thesis by (simp add: tame_def keeps_def demo_lib_def home_tools_def)
  qed
  show ?thesis
    using old_file_survives [OF home_simps(8) a i t r [unfolded home_start_def] c] r by (simp add: numeral_eq_Suc)
qed

end
