(* ===== verification/Spec2Isabelle.thy ===== *)
theory Spec2Isabelle
  imports ArrayOps AddRun CleanEnd Kills Listing Locked LockRace Program RunEnds Signals Survival
begin

text \<open>
  A model of mdp, the password manager that keeps its entries in one text file encrypted with
  GnuPG, in Isabelle/HOL. All paths below are under \<open>src/src/\<close>; the theories carry the names of
  the C functions and read in the order of the files.

  The program. \<open>main.c\<close> parses the options, reads \<open>~/.mdp/config\<close> and runs one of five
  commands. \<open>edit\<close> and \<open>add\<close> take a lock, decrypt the password file through a child process that
  executes GnuPG, split it into entries, write the entries to a temporary file, run the user's
  editor on it, and encrypt the result in place of the old file when its checksum changed.
  \<open>get\<close> and \<open>prompt\<close> decrypt, keep the entries that match the keywords and print or page them.
  \<open>generate\<close> prints random passwords, \<open>add\<close> appends them as entries. An exit handler removes the
  lock and the temporary plain text.

  How the code is modelled. A function that computes is a HOL function from its arguments, and
  from the variables it uses, to \<open>halt + 'a\<close>, where \<open>halt\<close> has one constructor per way of ending:
  \<open>errx\<close> and \<open>err\<close> with their message, \<open>exit\<close>, undefined behaviour, never returning, and being
  killed. Integers
  have the width of a 64-bit Unix and wrap around; strings are byte or wide-character lists, and
  objects that are written through pointers are lists with checked accesses, so that an access
  outside is a value that a theorem can exclude or show to happen. A function that touches
  several globals, the file system or the user is an action (\<open>act\<close>) on the record \<open>mdp\<close>, which
  holds the operating system and the static and global variables of all the C files. The
  operating system is a file system with hard links, the environment, the messages printed, and an
  oracle that makes any system call fail, or has the process killed in place of the call: by
  \<open>SIGKILL\<close>, or because the machine stops. Parameters stand for code that is not the program's:
  whether an allocation succeeds (\<open>lib_ok\<close>; every allocation asks it, those of \<open>xasprintf\<close> and the
  unchecked ones included, and \<open>always\<close> grants all), the contents of fresh memory, the locale's
  conversion functions and its \<open>towlower\<close> (\<open>lib_cm\<close>, \<open>lib_lower\<close>), \<open>regcomp\<close> and \<open>regexec\<close>, the device that seeds the generator, and the programs that mdp starts.

  The theories, from the bottom.

  \<^item> Prelude: machine integers, \<open>halt\<close>, sequencing of fallible computations and of actions,
    checked objects, C strings.
  \<^item> CString (\<open>strlcpy.c\<close>, \<open>strlcat.c\<close>, \<open>wcslcpy.c\<close>), Xmalloc (\<open>xmalloc.c\<close>, \<open>wcsdup.c\<close>), Strlib
    (\<open>str.c\<close>, \<open>wcsncasecmp.c\<close>, for any \<open>towlower\<close>), Charset (the conversions of \<open>str.c\<close>) and Locales (the
    C locale and UTF-8), Strdelim (\<open>strdelim.c\<close>, as it works in the buffer and on strings), Crc (\<open>crc.c\<close>).
    Lemmas: sizes and truncation, first match, round trip of the conversions, refinement of the
    in-place tokeniser, the table against polynomial division, detection of changed bursts.
  \<^item> Carray and ArrayOps (\<open>array.h\<close>): the doubling loop and every macro on the record of a C array,
    each as the operation on lists it stands for.
  \<^item> Arc4random (\<open>arc4random.c\<close>) and Randpass (\<open>randpass.c\<close>): the permutation is kept, a number below
    a bound is the first draw that is kept, and without bias, a password has the length and the characters asked for.
  \<^item> Keywords (\<open>keywords.c\<close>), Results and ResultsFilter (\<open>results.c\<close>): loading makes one entry per
    line, the filters keep exactly the matching entries.
  \<^item> Globals, Profile (\<open>profile.c\<close>, an array of addresses over a store), Config (the parser of
    \<open>config.c\<close>) and ConfigRound (a written configuration is read back).
  \<^item> Unix (the operating system), State (the record \<open>mdp\<close>, actions, \<open>debug.c\<close>), Utils (\<open>utils.c\<close>,
    \<open>lock.c\<close>), ConfigFiles (the checks of \<open>config.c\<close> on files), Ui (\<open>ui-curses.c\<close>, \<open>pager.c\<close>), Gpg
    (\<open>gpg.c\<close>, \<open>cleanup.c\<close>), Editor (\<open>editor.c\<close>), Cmd (\<open>cmd.c\<close> and \<open>getopt\<close>), Mdp (\<open>main.c\<close>, and how a
    run ends).
  \<^item> Wp (weakest preconditions of actions) and Demo (concrete surroundings for the witnesses).
  \<^item> Invariants, Safety, Privacy, Program, CleanEnd: what holds whatever call fails and wherever the
    process is killed. A file system
    stays well formed (\<open>wf\<close>), the new and the old text are never both lost, a
    configuration that was accepted is private, and a run that ends leaves no lock and no plain text.
  \<^item> Survival: the old password file through every run with backups. The invariant follows its inode
    and the names that lead to it; it is kept by every call except the two of \<open>move_aside\<close>, for
    which it has a second form.
  \<^item> Locked: runs that start while the lock exists change no file.
  \<^item> Signals: an edit after its handler of \<open>SIGINT\<close>, which does not end it.
  \<^item> Kills: what an exchange of the password file that is killed half way leaves to the next processes.
  \<^item> Listing: the curses calls of the pager's listing as a function of the visible entries.
  \<^item> Session, Queries, EditRun, AddRun: what the commands compute when no call fails, up to whole
    runs from the command line to the exit handler.
  \<^item> Endings and RunEnds: how code can end. Endings says which undefined places and which endless
    loops the pure functions can reach; RunEnds is a logic of triples in which every operation, up to
    whole runs, keeps the globals in shape and ends with a value, an exit, or in an open place.
  \<^item> LockRace: several processes around one lock file, as a step relation on their system calls: taking
    the lock, both handlers with the two calls of \<open>lock_unset\<close>, the children that inherit them,
    crashes and kills. The lock excludes when there are no simultaneous checks, no \<open>SIGINT\<close> and no
    child that ends through \<open>err\<close>, and without any one of these three conditions it does not; a process
    that dies with the lock and without a child blocks all others.

  The interfaces. \<open>dyn_array\<close> is what the clients of \<open>array.h\<close> use (interpreted as \<open>carr\<close> by the
  macros); \<open>charset\<close> is the contract of the locale's conversions (\<open>c_locale\<close>, \<open>utf8\<close>);
  \<open>uniform_source\<close> is the contract of a source of random numbers (\<open>arc4\<close>, by the generator of
  \<open>arc4random.c\<close>); the frame locales say which system calls keep a predicate, and
  inside them the operations of the program are shown to keep it, once for all predicates.
  \<open>frame_checks\<close> is for a predicate on the world, the names of the program's files, its settings and
  whether the exit handler is registered, that looking at files and calls without an effect keep. It has three extensions:
  \<open>frame_free\<close>, where the names and settings do not matter, so that the whole start keeps the
  predicate; \<open>frame_reads\<close>, which also has the calls of a decryption, with \<open>frame_unregistered\<close> on top
  of it for predicates that rest on the handler not being registered yet; and \<open>frame_guards\<close>, over
  \<open>frame_reads\<close>, where the lock and the temporary file come and go. \<open>checks_invariant\<close> and
  \<open>os_invariant\<close> are for predicates on the world alone, and give \<open>frame_free\<close> and \<open>frame_guards\<close>. They
  are interpreted by well-formedness (\<open>wf\<close>), by the absence of false \<open>ENOENT\<close> answers (\<open>hon\<close>), by both
  (\<open>calm\<close>), for the calls made before the lock by the privacy of a directory (\<open>priv\<close>), by the names,
  settings and environment themselves (\<open>same\<close>, \<open>names\<close>, \<open>key\<close>, \<open>settings\<close>, \<open>settled\<close>, \<open>env\<close>, \<open>lock_name\<close>), by the
  safety of the old password file (\<open>kept\<close>, \<open>saved\<close>), and by the files being as they were (\<open>read\<close>,
  \<open>start\<close>).

  Termination. There is no fuel: loops are structural recursion or have a measure. Two may run
  forever and say so: \<open>final_loop\<close> of the checksum and \<open>uniform_loop\<close> of the generator are partial
  functions with values in \<open>option\<close>, with theorems that say exactly when they return; the pager ends
  with the user's keys, which are a finite list, and with its timeout when they are used up, unless
  the number given to curses is negative (\<open>wait_input\<close>): then it waits for ever. The last theorem
  below says that no other run is endless when the random source answers and no program makes
  a file of $2^{63}$ bytes.

  Not modelled, and why. Signals other than \<open>SIGKILL\<close> are not delivered in a run (their handlers are
  definitions, and Signals says what the one of \<open>SIGINT\<close> does to an edit); a call that is cut short by
  the end of the process has its whole effect or none; the child that decrypts runs on the shared
  file system and ends before the parent reads (in LockRace it runs beside it); process
  numbers are left out of log messages except the program's own; the text of \<open>printf\<close> output is its
  format, without the newline at its end, and its arguments; the main
  function of \<open>arc4random.c\<close> is disabled in the source; the configure script, the makefiles, the
  tests and the documents are not C code of the program.

  The last part of this theory has three properties of the whole program.
\<close>

section \<open>The end of every run\<close>

text \<open>C7. A run that ends with a status, after the exit handler was registered, leaves neither its lock
  nor its plain text behind: for any arguments, any user and any failing calls, as long as the
  system never claims that a file is missing which is there, and wherever the program stopped.\<close>

theorem ended_run_is_clean:
  assumes "tame honest L" "honest (os s)" "run_mdp L args s = (Status n, s')"
    and "atexit_registered (snd (mdp_main L args s))"
  shows "\<exists>l. lock_path s' = Some l \<and> lookup (os s') l = None
    \<and> (\<forall>t. editor_tmp_path s' = Some t \<longrightarrow> lookup (os s') t = None)"
proof -
  obtain r s1 where m: "mdp_main L args s = (r, s1)" by fastforce
  have h: "honest (os s1)" using hon.mdp_main_inv [OF assms(1), of args] assms(2) m
    by (metis act_inv_def snd_conv)
  obtain u where "atexit_cleanup (s1\<lparr>atexit_registered := False\<rparr>) = (Inr u, s')"
    using assms(3,4) m by (auto simp: run_mdp_def finish_def split: outcome.splits prod.splits sum.splits if_splits)
  then show ?thesis using atexit_removes h by force
qed

theorem ended_run_is_clean_witness:
  "\<exists>s' l. run_mdp (demo_lib (\<lambda>cmd w. (0, w)) (\<lambda>f args t w. Some (file_of [''ab''], Exited 0, w))) [''edit''] home_start = (Status 0, s')
    \<and> lock_path s' = Some l \<and> lookup (os s') l = None
    \<and> (\<forall>t. editor_tmp_path s' = Some t \<longrightarrow> lookup (os s') t = None)"
proof -
  let ?L = "demo_lib (\<lambda>cmd w. (0, w)) (\<lambda>f args t w. Some (file_of [''ab''], Exited 0, w))"
  have L: "locale_found ?L" "lib_ok ?L = always" "lib_cm ?L = utf8" by (simp_all add: demo_lib_def)
  have "decrypts ?L ''/usr/bin/gpg'' (file_of [''ab''])" by (simp add: decrypts_def demo_lib_def)
  note st = home_started [OF this L(2,3)]
  have "edits ?L ''vi'' ''/h/.mdp/tmp_edit.aaaaaaaa'' (map trimmed [''ab'']) [''ab'']"
    using trimmed_clean [OF demo_clean] by (auto simp: edits_def demo_lib_def) (metis fun_upd_triv)
  from mdp_edit_decides [OF st this demo_lines(1)] obtain s2
    where m: "mdp_edit ?L home_ready = print (Warning ''No changes, exiting...'' []) s2"
      and d: "decided ''/h/.mdp/lock'' ''/h/.mdp/tmp_edit.aaaaaaaa'' (os home_ready) (cfg (conf home_ready)) [''ab''] s2"
    by auto
  have "print (Warning ''No changes, exiting...'' []) s2
      = (Inr (), s2\<lparr>os := emit (Warning ''No changes, exiting...'' []) (os s2)\<rparr>)" by (simp add: print_def modify_def)
  note m2 = run_edit(1) [OF L(1) home_read_config [OF L(2)] m [unfolded this]]
  have q: "quiet s2" "atexit_registered s2" using d by (auto simp: decided_def)
  have a: "atexit_registered (snd (mdp_main ?L [''edit''] home_start))" using m2 q by (simp add: quiet_def)
  have tmp: "''/h/.mdp/tmp_edit.aaaaaaaa'' \<noteq> ''/h/.mdp/lock''" by simp
  from unchanged_finish [OF d tmp started_free [OF st]] obtain s'
    where f: "run_mdp ?L [''edit''] home_start = (Status 0, s')"
    using m2 q by (auto simp: run_mdp_def print_def modify_def quiet_def exit_success_def)
  have t: "tame honest ?L" by (simp add: tame_def keeps_def demo_lib_def)
  have "honest (os home_start)" by (simp add: home_start_def initial_state_def honest_def demo_world_def)
  from ended_run_is_clean [OF t this f a] f show ?thesis by blast
qed

section \<open>How a run can end\<close>

text \<open>C8. As long as no allocation is refused (\<open>lib_ok L = always\<close>), every run, with any arguments,
  environment, files, failing system calls, programs and input, killed or not, stays within what C
  defines except in twelve places: a keyword of fifty characters, a line that does not fit
  \<open>mbs_line\<close>, a typed line of fifty characters, the three unchecked results of \<open>fopen\<close>, \<open>fopen\<close> and
  \<open>waitpid\<close>, a terminal without columns, \<open>LC_ALL\<close> printed when it is not set, a configuration file
  with $2^{31} - 1$ lines, a prefix of that many characters (in \<open>wcsjoin\<close>, whose \<open>int\<close> overflows or
  turns negative and asks \<open>calloc\<close> for more than there is), and an exit handler that fails. All other
  accesses to buffers, arrays, strings and pointers are in bounds and not null. When memory is
  refused, the unchecked \<open>strdup\<close> and \<open>calloc\<close> of the program give null pointers.\<close>

theorem runs_stay_defined:
  assumes "lib_ok L = always" "\<forall>n g u. lib_uniform L n g \<noteq> Some (Inl (Undefined u))"
  shows "case fst (run_mdp L args (initial_state w g keys ls)) of
      Crash m \<Rightarrow> m \<in> {''kw is not terminated'', ''mbs_line is not terminated'', ''getnstr writes outside kw'',
        ''fprintf to a null stream'', ''fclose of a null stream'', ''status is indeterminate'', ''division by zero'',
        ''null pointer for %s'', ''linenum overflows'', ''the length in wcsjoin overflows'', ''swprintf to a null pointer'',
        ''exit called twice''}
    | Status n \<Rightarrow> True | Running \<Rightarrow> True | Slain \<Rightarrow> True"
proof -
  have "tgives True (\<lambda>_. True) (lib_uniform L n g)" for n g
    using assms(2) by (cases "lib_uniform L n g") (auto simp: gives_def tolerated_def split: halt.split sum.split)
  then have "lib_ends True L" using assms(1) by (simp add: lib_ends_def source_ends_def)
  from run_ends [OF this, of args w g keys ls] show ?thesis
    unfolding open_places_def by (cases "fst (run_mdp L args (initial_state w g keys ls))") auto
qed

theorem runs_stay_defined_witness:
  "case fst (run_mdp (demo_lib (\<lambda>cmd w. (0, w)) (\<lambda>f args t w. None)) [''get'', ''web''] (initial_state (demo_world []) 0 [] [])) of
      Crash m \<Rightarrow> m \<in> {''kw is not terminated'', ''mbs_line is not terminated'', ''getnstr writes outside kw'',
        ''fprintf to a null stream'', ''fclose of a null stream'', ''status is indeterminate'', ''division by zero'',
        ''null pointer for %s'', ''linenum overflows'', ''the length in wcsjoin overflows'', ''swprintf to a null pointer'',
        ''exit called twice''}
    | Status n \<Rightarrow> True | Running \<Rightarrow> True | Slain \<Rightarrow> True"
  by (rule runs_stay_defined) (simp_all add: demo_lib_def counter_source_def)



end
